(* ===== verification/Prelude.thy ===== *)
theory Prelude
  imports Main "HOL-Library.Word"
begin

text \<open>
  What every component shares: Rust results with panics (\<open>outcome\<close>), computations
  over an explicit state (\<open>io\<close>), fixed-width integers and their little-endian bytes,
  checked and wrapping arithmetic, 32-byte arrays, slicing that panics out of range.
  A list of bytes models \<^verbatim>\<open>&[u8]\<close>, \<^verbatim>\<open>Vec<u8>\<close>, \<^verbatim>\<open>Bytes\<close> and
  \<^verbatim>\<open>BytesMut\<close>; a \<^verbatim>\<open>usize\<close> is a \<open>nat\<close> (a 64-bit target, so
  \<^verbatim>\<open>usize::try_from\<close> of a \<^verbatim>\<open>u64\<close> is the identity).
\<close>

named_theorems io_simps "unfolding of the state-passing combinators"

section \<open>Machine integers and bytes\<close>

type_synonym byte = "8 word"
type_synonym bytes = "8 word list"
type_synonym u16 = "16 word"
type_synonym u64 = "64 word"

section \<open>Results, errors and panics\<close>

text \<open>
  A Rust call returns \<open>Ok\<close>, returns \<open>Err\<close> or unwinds with a panic; a panic is a
  value of its own, so that no theorem can mistake it for an error that the caller sees.
\<close>

datatype panic =
    SliceOutOfRange
  | SplitOutOfRange
  | ArithmeticOverflow
  | DivideByZero
  | AssertionFailed
  | UnwrapFailed
  | UnreachableCode

datatype ('a, 'e) outcome = Ok 'a | Err 'e | Panic panic

fun and_then :: "('a, 'e) outcome \<Rightarrow> ('a \<Rightarrow> ('b, 'e) outcome) \<Rightarrow> ('b, 'e) outcome" where
  "and_then (Ok x) f = f x"
| "and_then (Err e) f = Err e"
| "and_then (Panic p) f = Panic p"

fun map_err :: "('e \<Rightarrow> 'f) \<Rightarrow> ('a, 'e) outcome \<Rightarrow> ('a, 'f) outcome" where
  "map_err g (Ok x) = Ok x"
| "map_err g (Err e) = Err (g e)"
| "map_err g (Panic p) = Panic p"

fun ok_or :: "'e \<Rightarrow> 'a option \<Rightarrow> ('a, 'e) outcome" where
  "ok_or e (Some x) = Ok x"
| "ok_or e None = Err e"

definition ensure :: "bool \<Rightarrow> 'e \<Rightarrow> (unit, 'e) outcome" where
  "ensure b e = (if b then Ok () else Err e)"

lemma and_then_eq_Ok: "and_then r f = Ok y \<longleftrightarrow> (\<exists>x. r = Ok x \<and> f x = Ok y)"
  by (cases r) auto

lemma map_err_eq_Ok [simp]: "map_err g r = Ok x \<longleftrightarrow> r = Ok x"
  by (cases r) auto

lemma ok_or_eq_Ok [simp]: "ok_or e r = Ok x \<longleftrightarrow> r = Some x"
  by (cases r) auto

lemma ensure_eq_Ok [simp]: "ensure b e = Ok u \<longleftrightarrow> b"
  by (simp add: ensure_def)

lemma ensure_True [simp]: "ensure True e = Ok ()"
  by (simp add: ensure_def)

lemma ensure_False [simp]: "ensure False e = Err e"
  by (simp add: ensure_def)

section \<open>Computations over a state\<close>

text \<open>
  An async function that awaits reads and writes is a function of the state it works on:
  its outcome and the state it leaves, which is there for errors and panics too (the bytes
  already written stay written).
\<close>

type_synonym ('st, 'a, 'e) io = "'st \<Rightarrow> ('a, 'e) outcome \<times> 'st"

definition io_ret :: "'a \<Rightarrow> ('st, 'a, 'e) io" where
  [io_simps]: "io_ret x st = (Ok x, st)"

definition io_throw :: "'e \<Rightarrow> ('st, 'a, 'e) io" where
  [io_simps]: "io_throw e st = (Err e, st)"

definition io_panic :: "panic \<Rightarrow> ('st, 'a, 'e) io" where
  [io_simps]: "io_panic p st = (Panic p, st)"

definition io_lift :: "('a, 'e) outcome \<Rightarrow> ('st, 'a, 'e) io" where
  [io_simps]: "io_lift r st = (r, st)"

definition io_bind :: "('st, 'a, 'e) io \<Rightarrow> ('a \<Rightarrow> ('st, 'b, 'e) io) \<Rightarrow> ('st, 'b, 'e) io" where
  "io_bind m f st =
     (case m st of
        (Ok x, st') \<Rightarrow> f x st'
      | (Err e, st') \<Rightarrow> (Err e, st')
      | (Panic p, st') \<Rightarrow> (Panic p, st'))"

definition io_ensure :: "bool \<Rightarrow> 'e \<Rightarrow> ('st, unit, 'e) io" where
  [io_simps]: "io_ensure b e st = (ensure b e, st)"

lemma io_bind_Ok [simp]: "m st = (Ok x, st') \<Longrightarrow> io_bind m f st = f x st'"
  by (simp add: io_bind_def)

lemma io_bind_Err [simp]: "m st = (Err e, st') \<Longrightarrow> io_bind m f st = (Err e, st')"
  by (simp add: io_bind_def)

lemma io_bind_Panic [simp]: "m st = (Panic p, st') \<Longrightarrow> io_bind m f st = (Panic p, st')"
  by (simp add: io_bind_def)

lemma io_bind_eq_Ok:
  "io_bind m f st = (Ok y, st'') \<longleftrightarrow> (\<exists>x st'. m st = (Ok x, st') \<and> f x st' = (Ok y, st''))"
  by (auto simp: io_bind_def split: prod.splits outcome.splits)

lemma io_bind_cases:
  assumes "io_bind m f st = (r, st'')"
  obtains (ok) x st' where "m st = (Ok x, st')" and "f x st' = (r, st'')"
    | (err) e where "m st = (Err e, st'')" and "r = Err e"
    | (panic) p where "m st = (Panic p, st'')" and "r = Panic p"
  using assms by (auto simp: io_bind_def split: prod.splits outcome.splits)

lemma io_ensure_True [simp]: "io_bind (io_ensure True e) f st = f () st"
  by (simp add: io_bind_def io_simps)

lemma io_ensure_False [simp]: "io_bind (io_ensure False e) f st = (Err e, st)"
  by (simp add: io_bind_def io_simps)

lemma io_bind_lift_Ok [simp]: "io_bind (io_lift (Ok x)) f st = f x st"
  by (simp add: io_bind_def io_lift_def)

text \<open>The monad laws.\<close>

lemma io_bind_assoc: "io_bind (io_bind m f) g = io_bind m (\<lambda>x. io_bind (f x) g)"
  by (rule ext) (simp add: io_bind_def split: prod.split outcome.split)

lemma io_bind_ret: "io_bind (io_ret x) f = f x"
  by (rule ext) (simp add: io_bind_def io_ret_def)

lemma io_bind_continue:
  "m st = io_bind m' f' st' \<Longrightarrow> io_bind m f st = io_bind m' (\<lambda>x. io_bind (f' x) f) st'"
  by (simp add: io_bind_def split: prod.split outcome.split)

text \<open>
  An effect that only ever extends a log: the shape of every lemma that says what a
  computation may have written, whether it succeeds, fails or panics.
\<close>

definition keeps :: "('st \<Rightarrow> 'st \<Rightarrow> bool) \<Rightarrow> ('st, 'a, 'e) io \<Rightarrow> bool" where
  "keeps R m \<longleftrightarrow> (\<forall>st. R st (snd (m st)))"

lemma keepsD: "keeps R m \<Longrightarrow> m st = (r, st') \<Longrightarrow> R st st'"
  by (metis keeps_def snd_conv)

lemma keeps_bind:
  assumes "transp R" and "keeps R m" and "\<And>x. keeps R (f x)"
  shows "keeps R (io_bind m f)"
  unfolding keeps_def
proof
  fix st
  obtain r st' where m: "m st = (r, st')" by fastforce
  with assms(2) have 1: "R st st'" by (rule keepsD)
  show "R st (snd (io_bind m f st))"
  proof (cases r)
    case (Ok x)
    obtain r2 st2 where f: "f x st' = (r2, st2)" by fastforce
    with assms(3) have "R st' st2" by (rule keepsD)
    with 1 assms(1) m Ok f show ?thesis by (auto dest: transpD)
  qed (use m 1 in auto)
qed

section \<open>Arithmetic as compiled\<close>

text \<open>
  \<^verbatim>\<open>a + b\<close> on \<^verbatim>\<open>u64\<close> panics on overflow when the crate is built with overflow
  checks (the debug profile) and wraps otherwise (the release profile). The flag is an
  argument of every definition in which it can matter.
\<close>

definition add_u64 :: "bool \<Rightarrow> u64 \<Rightarrow> u64 \<Rightarrow> (u64, 'e) outcome" where
  "add_u64 checks a b =
     (if checks \<and> 2 ^ 64 \<le> unat a + unat b then Panic ArithmeticOverflow else Ok (a + b))"

definition mul_u64 :: "bool \<Rightarrow> u64 \<Rightarrow> u64 \<Rightarrow> (u64, 'e) outcome" where
  "mul_u64 checks a b =
     (if checks \<and> 2 ^ 64 \<le> unat a * unat b then Panic ArithmeticOverflow else Ok (a * b))"

definition sub_u64 :: "bool \<Rightarrow> u64 \<Rightarrow> u64 \<Rightarrow> (u64, 'e) outcome" where
  "sub_u64 checks a b =
     (if checks \<and> unat a < unat b then Panic ArithmeticOverflow else Ok (a - b))"

definition div_u64 :: "u64 \<Rightarrow> u64 \<Rightarrow> (u64, 'e) outcome" where
  "div_u64 a b = (if b = 0 then Panic DivideByZero else Ok (a div b))"

lemma add_u64_small:
  "unat a + unat b < 2 ^ 64 \<Longrightarrow> add_u64 checks a b = Ok (a + b) \<and> unat (a + b) = unat a + unat b"
  by (simp add: add_u64_def unat_word_ariths)

lemma mul_u64_small:
  "unat a * unat b < 2 ^ 64 \<Longrightarrow> mul_u64 checks a b = Ok (a * b) \<and> unat (a * b) = unat a * unat b"
  by (simp add: mul_u64_def unat_word_ariths)

lemma sub_u64_le:
  "b \<le> a \<Longrightarrow> sub_u64 checks a b = Ok (a - b) \<and> unat (a - b) = unat a - unat b"
  by (simp add: sub_u64_def word_le_nat_alt unat_sub)

lemma sub_u64_Ok [simp]: "b \<le> a \<Longrightarrow> sub_u64 checks a b = Ok (a - b)"
  by (simp add: sub_u64_le)

section \<open>Little-endian integers\<close>

primrec le_bytes :: "nat \<Rightarrow> nat \<Rightarrow> bytes" where
  "le_bytes 0 n = []"
| "le_bytes (Suc k) n = of_nat (n mod 256) # le_bytes k (n div 256)"

primrec le_nat :: "bytes \<Rightarrow> nat" where
  "le_nat [] = 0"
| "le_nat (b # bs) = unat b + 256 * le_nat bs"

definition u64_to_le_bytes :: "u64 \<Rightarrow> bytes" where
  "u64_to_le_bytes w = le_bytes 8 (unat w)"

definition u64_from_le_bytes :: "bytes \<Rightarrow> u64" where
  "u64_from_le_bytes bs = of_nat (le_nat bs)"

lemma length_le_bytes [simp]: "length (le_bytes k n) = k"
  by (induction k arbitrary: n) simp_all

lemma le_nat_le_bytes: "n < 256 ^ k \<Longrightarrow> le_nat (le_bytes k n) = n"
proof (induction k arbitrary: n)
  case (Suc k)
  have "unat (of_nat (n mod 256) :: byte) = n mod 256"
    by (simp add: unat_of_nat take_bit_eq_mod)
  moreover have "n div 256 < 256 ^ k"
    using Suc.prems by (simp add: less_mult_imp_div_less mult.commute)
  ultimately show ?case using Suc.IH [of "n div 256"] by simp
qed simp

lemma length_u64_to_le_bytes [simp]: "length (u64_to_le_bytes w) = 8"
  by (simp add: u64_to_le_bytes_def)

lemma u64_from_to_le_bytes [simp]: "u64_from_le_bytes (u64_to_le_bytes w) = w"
proof -
  have "unat w < 2 ^ LENGTH(64)" by (rule unsigned_less)
  then have "unat w < 256 ^ 8" by simp
  then show ?thesis
    by (simp add: u64_from_le_bytes_def u64_to_le_bytes_def le_nat_le_bytes)
qed

section \<open>Arrays of 32 bytes\<close>

typedef bytes32 = "{bs :: bytes. length bs = 32}"
  morphisms bytes_of Bytes32
  by (rule exI [of _ "replicate 32 0"]) simp

lemma length_bytes_of [simp]: "length (bytes_of a) = 32"
  using bytes_of [of a] by simp

definition fill32 :: "byte \<Rightarrow> bytes32" where
  "fill32 b = Bytes32 (replicate 32 b)"

text \<open>\<^verbatim>\<open>v.try_into()\<close> from a slice or vector to \<^verbatim>\<open>[u8; 32]\<close>.\<close>

definition bytes32_try_from :: "bytes \<Rightarrow> bytes32 option" where
  "bytes32_try_from bs = (if length bs = 32 then Some (Bytes32 bs) else None)"

lemma bytes32_try_from_bytes_of [simp]: "bytes32_try_from (bytes_of a) = Some a"
  by (simp add: bytes32_try_from_def bytes_of_inverse)

lemma bytes32_try_from_Some: "bytes32_try_from bs = Some a \<longleftrightarrow> bs = bytes_of a"
  by (auto simp: bytes32_try_from_def Bytes32_inverse bytes_of_inverse)

lemma bytes32_try_from_None: "bytes32_try_from bs = None \<longleftrightarrow> length bs \<noteq> 32"
  by (simp add: bytes32_try_from_def)

instantiation bytes32 :: equal
begin

definition equal_bytes32 :: "bytes32 \<Rightarrow> bytes32 \<Rightarrow> bool" where
  "equal_bytes32 a b \<longleftrightarrow> bytes_of a = bytes_of b"

instance
  by standard (simp add: equal_bytes32_def bytes_of_inject)

end

lemma bytes_of_fill32 [simp]: "bytes_of (fill32 b) = replicate 32 b"
  by (simp add: fill32_def Bytes32_inverse)

lemma fill32_inject [simp]: "fill32 a = fill32 b \<longleftrightarrow> a = b"
proof
  assume "fill32 a = fill32 b"
  then have "hd (bytes_of (fill32 a)) = hd (bytes_of (fill32 b))" by simp
  then show "a = b" by (simp add: numeral_eq_Suc)
qed simp

section \<open>Buffers\<close>

text \<open>
  \<^verbatim>\<open>&buffer[..n]\<close> and \<^verbatim>\<open>buffer.split_to(n)\<close> panic when the buffer holds fewer than
  \<open>n\<close> bytes; \<^verbatim>\<open>resize(n, 0)\<close> as \<^verbatim>\<open>write_response\<close> uses it only grows.
\<close>

definition slice_to :: "bytes \<Rightarrow> nat \<Rightarrow> (bytes, 'e) outcome" where
  "slice_to buf n = (if n \<le> length buf then Ok (take n buf) else Panic SliceOutOfRange)"

definition split_to :: "bytes \<Rightarrow> nat \<Rightarrow> (bytes \<times> bytes, 'e) outcome" where
  "split_to buf n =
     (if n \<le> length buf then Ok (take n buf, drop n buf) else Panic SplitOutOfRange)"

lemma slice_to_append [simp]: "slice_to (a @ b) (length a) = Ok a"
  by (simp add: slice_to_def)

lemma split_to_append [simp]: "split_to (a @ b) (length a) = Ok (a, b)"
  by (simp add: split_to_def)

end
