(* ===== verification/Std_Text.thy ===== *)
theory Std_Text
  imports Prelude
begin

text \<open>
  The text functions of Rust's standard library that the program uses. A
  \<^verbatim>\<open>String\<close>, \<^verbatim>\<open>&str\<close> or Unix path is its bytes, a list of \<open>char\<close>s; a
  \<^verbatim>\<open>String\<close> is one that is valid UTF-8.
\<close>

section \<open>UTF-8\<close>

abbreviation cont_byte :: "nat \<Rightarrow> bool" where
  "cont_byte b \<equiv> 128 \<le> b \<and> b \<le> 191"

fun utf8_codes :: "nat list \<Rightarrow> bool" where
  "utf8_codes [] = True"
| "utf8_codes (a # bs) =
     (if a < 128 then utf8_codes bs
      else if a < 194 then False
      else if a < 224 then
        (case bs of b # cs \<Rightarrow> cont_byte b \<and> utf8_codes cs | _ \<Rightarrow> False)
      else if a < 240 then
        (case bs of
           b # c # cs \<Rightarrow>
             cont_byte b \<and> (a = 224 \<longrightarrow> 160 \<le> b) \<and> (a = 237 \<longrightarrow> b \<le> 159) \<and> cont_byte c \<and> utf8_codes cs
         | _ \<Rightarrow> False)
      else if a < 245 then
        (case bs of
           b # c # d # cs \<Rightarrow>
             cont_byte b \<and> (a = 240 \<longrightarrow> 144 \<le> b) \<and> (a = 244 \<longrightarrow> b \<le> 143) \<and> cont_byte c \<and> cont_byte d
               \<and> utf8_codes cs
         | _ \<Rightarrow> False)
      else False)"

definition utf8_valid :: "string \<Rightarrow> bool" where
  "utf8_valid s = utf8_codes (map of_char s)"

lemma utf8_codes_ascii: "\<forall>a \<in> set as. a < 128 \<Longrightarrow> utf8_codes as"
  by (induction as) auto

lemma utf8_valid_ascii: "\<forall>c \<in> set s. (of_char c :: nat) < 128 \<Longrightarrow> utf8_valid s"
  by (simp add: utf8_valid_def utf8_codes_ascii)

text \<open>Bytes of a string and back (\<^verbatim>\<open>as_bytes\<close>, \<^verbatim>\<open>from_utf8\<close>).\<close>

definition str_bytes :: "string \<Rightarrow> bytes" where
  "str_bytes s = map of_char s"

definition bytes_str :: "bytes \<Rightarrow> string" where
  "bytes_str bs = map (\<lambda>b. char_of (unat b)) bs"

lemma length_str_bytes [simp]: "length (str_bytes s) = length s"
  by (simp add: str_bytes_def)

lemma of_char_byte [simp]: "unat (of_char c :: byte) = of_char c"
proof -
  have "(of_char c :: byte) = of_nat (of_char c)"
    by (rule of_nat_of_char [symmetric])
  then have "unat (of_char c :: byte) = (of_char c :: nat) mod 256"
    by (simp only: unat_of_nat) (simp add: take_bit_eq_mod)
  then show ?thesis by simp
qed

lemma bytes_str_str_bytes [simp]: "bytes_str (str_bytes s) = s"
  by (simp add: bytes_str_def str_bytes_def comp_def)

section \<open>ASCII case\<close>

definition ascii_lower :: "char \<Rightarrow> char" where
  "ascii_lower c =
     (let n = of_char c :: nat in if 65 \<le> n \<and> n \<le> 90 then char_of (n + 32) else c)"

definition ascii_upper :: "char \<Rightarrow> char" where
  "ascii_upper c =
     (let n = of_char c :: nat in if 97 \<le> n \<and> n \<le> 122 then char_of (n - 32) else c)"

definition make_ascii_lowercase :: "string \<Rightarrow> string" where
  "make_ascii_lowercase = map ascii_lower"

definition make_ascii_uppercase :: "string \<Rightarrow> string" where
  "make_ascii_uppercase = map ascii_upper"

lemma length_make_ascii_case [simp]:
  "length (make_ascii_lowercase s) = length s" "length (make_ascii_uppercase s) = length s"
  by (simp_all add: make_ascii_lowercase_def make_ascii_uppercase_def)

text \<open>Lower and back is the identity on text that has no lower-case letter.\<close>

definition no_lower :: "string \<Rightarrow> bool" where
  "no_lower s = list_all (\<lambda>c. ascii_upper c = c) s"

lemma ascii_upper_lower: "ascii_upper c = c \<Longrightarrow> ascii_upper (ascii_lower c) = c"
  by (auto simp: ascii_lower_def ascii_upper_def Let_def split: if_splits)

lemma upper_lower: "no_lower s \<Longrightarrow> make_ascii_uppercase (make_ascii_lowercase s) = s"
  by (induction s)
    (simp_all add: no_lower_def make_ascii_lowercase_def make_ascii_uppercase_def ascii_upper_lower)

section \<open>Paths\<close>

type_synonym path = string

fun split_on :: "char \<Rightarrow> string \<Rightarrow> string list" where
  "split_on d [] = [[]]"
| "split_on d (c # cs) =
     (if c = d then [] # split_on d cs
      else (case split_on d cs of p # ps \<Rightarrow> (c # p) # ps | [] \<Rightarrow> [[c]]))"

text \<open>
  \<^verbatim>\<open>Path::file_name\<close>: the last component, unless it is \<open>..\<close> or there is none; empty
  components and \<open>.\<close> do not count.
\<close>

definition path_file_name :: "path \<Rightarrow> string option" where
  "path_file_name p =
     (case filter (\<lambda>c. c \<noteq> [] \<and> c \<noteq> ''.'') (split_on (CHR ''/'') p) of
        [] \<Rightarrow> None
      | cs \<Rightarrow> if last cs = ''..'' then None else Some (last cs))"

text \<open>\<^verbatim>\<open>OsStr::to_str\<close>.\<close>

definition os_to_str :: "string \<Rightarrow> string option" where
  "os_to_str s = (if utf8_valid s then Some s else None)"

text \<open>
  \<^verbatim>\<open>Path::join\<close>: an absolute second path replaces the first; otherwise a separator is
  added where the first lacks one.
\<close>

definition path_is_absolute :: "path \<Rightarrow> bool" where
  "path_is_absolute p = (take 1 p = ''/'')"

definition path_join :: "path \<Rightarrow> path \<Rightarrow> path" where
  "path_join p q =
     (if path_is_absolute q then q
      else if p = [] \<or> last p = CHR ''/'' then p @ q
      else p @ ''/'' @ q)"

lemma path_join_absolute: "path_is_absolute q \<Longrightarrow> path_join p q = q"
  by (simp add: path_join_def)

end
