(* ===== verification/Text_Encoding.thy ===== *)
theory Text_Encoding
  imports Prelude
begin

text \<open>
  Encoders from bytes to text after RFC 4648: groups of \<open>k\<close> bits become characters of an
  alphabet of \<open>2 ^ k\<close>, without padding characters; a decoder that rejects foreign
  characters, impossible lengths and non-zero trailing bits. The program takes its encoders
  from the crates base64 and data_encoding, which are parameters of the model; these
  functions are the instances at which the properties about them are exercised.
\<close>

section \<open>Bits\<close>

primrec nat_bits :: "nat \<Rightarrow> nat \<Rightarrow> bool list" where
  "nat_bits 0 n = []"
| "nat_bits (Suc k) n = nat_bits k (n div 2) @ [odd n]"

definition bits_nat :: "bool list \<Rightarrow> nat" where
  "bits_nat bs = foldl (\<lambda>a b. 2 * a + of_bool b) 0 bs"

lemma length_nat_bits [simp]: "length (nat_bits k n) = k"
  by (induction k arbitrary: n) simp_all

lemma bits_nat_Nil [simp]: "bits_nat [] = 0"
  by (simp add: bits_nat_def)

lemma bits_nat_snoc [simp]: "bits_nat (bs @ [b]) = 2 * bits_nat bs + of_bool b"
  by (simp add: bits_nat_def)

lemma bits_nat_nat_bits: "n < 2 ^ k \<Longrightarrow> bits_nat (nat_bits k n) = n"
proof (induction k arbitrary: n)
  case (Suc k)
  then have "n div 2 < 2 ^ k" by simp
  with Suc.IH show ?case by simp
qed simp

lemma bits_nat_less: "bits_nat bs < 2 ^ length bs"
  by (induction bs rule: rev_induct) (auto simp: of_bool_def)

lemma nat_bits_bits_nat [simp]: "nat_bits (length bs) (bits_nat bs) = bs"
  by (induction bs rule: rev_induct) (auto simp: of_bool_def)

section \<open>Groups of equal length\<close>

function group :: "nat \<Rightarrow> 'a list \<Rightarrow> 'a list list" where
  "group k xs = (if k = 0 \<or> xs = [] then [] else take k xs # group k (drop k xs))"
  by pat_completeness auto
termination
  by (relation "measure (\<lambda>(k, xs). length xs)") auto

declare group.simps [simp del]

lemma group_Nil [simp]: "group k [] = []"
  by (simp add: group.simps)

lemma group_Cons: "0 < k \<Longrightarrow> xs \<noteq> [] \<Longrightarrow> group k xs = take k xs # group k (drop k xs)"
  by (subst group.simps) simp

lemma concat_group: "0 < k \<Longrightarrow> concat (group k xs) = xs"
proof (induction k xs rule: group.induct)
  case (1 k xs)
  then show ?case by (cases "xs = []") (simp_all add: group_Cons)
qed

lemma group_lengths: "0 < k \<Longrightarrow> k dvd length xs \<Longrightarrow> g \<in> set (group k xs) \<Longrightarrow> length g = k"
proof (induction k xs rule: group.induct)
  case (1 k xs)
  show ?case
  proof (cases "xs = []")
    case False
    with "1.prems" have "k \<le> length xs" by (simp add: dvd_imp_le)
    moreover from False "1.prems" have "g = take k xs \<or> g \<in> set (group k (drop k xs))"
      by (simp add: group_Cons)
    ultimately show ?thesis using "1.IH" "1.prems" False by (auto simp: dvd_minus_self)
  qed (use "1.prems" in simp)
qed

lemma group_append: "length g = k \<Longrightarrow> 0 < k \<Longrightarrow> group k (g @ xs) = g # group k xs"
  by (subst group_Cons) auto

lemma group_concat:
  "0 < k \<Longrightarrow> \<forall>g \<in> set gs. length g = k \<Longrightarrow> group k (concat gs) = gs"
  by (induction gs) (simp_all add: group_append)

section \<open>Alphabets\<close>

primrec index_of :: "char list \<Rightarrow> char \<Rightarrow> nat option" where
  "index_of [] c = None"
| "index_of (a # as) c = (if a = c then Some 0 else map_option Suc (index_of as c))"

lemma index_of_nth: "distinct as \<Longrightarrow> i < length as \<Longrightarrow> index_of as (as ! i) = Some i"
proof (induction as arbitrary: i)
  case (Cons a as)
  then show ?case by (cases i) auto
qed simp

primrec indices :: "char list \<Rightarrow> string \<Rightarrow> nat list option" where
  "indices as [] = Some []"
| "indices as (c # cs) =
     (case index_of as c of
        None \<Rightarrow> None
      | Some i \<Rightarrow> map_option ((#) i) (indices as cs))"

lemma indices_map_nth:
  "distinct as \<Longrightarrow> \<forall>i \<in> set is. i < length as \<Longrightarrow> indices as (map ((!) as) is) = Some is"
  by (induction "is") (simp_all add: index_of_nth)

section \<open>Encoding and decoding\<close>

definition bytes_bits :: "bytes \<Rightarrow> bool list" where
  "bytes_bits bs = concat (map (\<lambda>b. nat_bits 8 (unat b)) bs)"

definition bits_bytes :: "bool list \<Rightarrow> bytes" where
  "bits_bytes bits = map (\<lambda>g. of_nat (bits_nat g)) (group 8 bits)"

definition pad_len :: "nat \<Rightarrow> nat \<Rightarrow> nat" where
  "pad_len k n = (k - n mod k) mod k"

definition text_encode :: "char list \<Rightarrow> nat \<Rightarrow> bytes \<Rightarrow> string" where
  "text_encode as k bs =
     (let bits = bytes_bits bs
      in map (\<lambda>g. as ! bits_nat g) (group k (bits @ replicate (pad_len k (length bits)) False)))"

definition text_decode :: "char list \<Rightarrow> nat \<Rightarrow> string \<Rightarrow> bytes option" where
  "text_decode as k s =
     (case indices as s of
        None \<Rightarrow> None
      | Some is \<Rightarrow>
          let bits = concat (map (nat_bits k) is); n = 8 * (length bits div 8); extra = drop n bits
          in if length extra < k \<and> True \<notin> set extra then Some (bits_bytes (take n bits)) else None)"

lemma length_bytes_bits [simp]: "length (bytes_bits bs) = 8 * length bs"
  by (simp add: bytes_bits_def length_concat comp_def sum_list_triv)

lemma bits_bytes_bytes_bits [simp]: "bits_bytes (bytes_bits bs) = bs"
proof -
  have "group 8 (bytes_bits bs) = map (\<lambda>b. nat_bits 8 (unat b)) bs"
    unfolding bytes_bits_def by (rule group_concat) auto
  moreover have "of_nat (bits_nat (nat_bits 8 (unat b))) = b" for b :: byte
  proof -
    have "unat b < 2 ^ LENGTH(8)" by (rule unsigned_less)
    then show ?thesis by (simp add: bits_nat_nat_bits)
  qed
  ultimately show ?thesis by (simp add: bits_bytes_def comp_def)
qed

lemma pad_len_less: "0 < k \<Longrightarrow> pad_len k n < k"
  by (simp add: pad_len_def)

lemma dvd_pad_len: "0 < k \<Longrightarrow> k dvd n + pad_len k n"
proof (cases "n mod k = 0")
  case False
  assume k: "0 < k"
  with False have "pad_len k n = k - n mod k" by (simp add: pad_len_def)
  with k show ?thesis
    by (metis add_diff_inverse_nat dvd_eq_mod_eq_0 mod_add_left_eq mod_less_divisor mod_self
        not_less_iff_gr_or_eq)
qed (auto simp: pad_len_def)

lemma text_decode_encode:
  assumes "distinct as" and "length as = 2 ^ k" and "0 < k" and "k \<le> 8"
  shows "text_decode as k (text_encode as k bs) = Some bs"
proof -
  define bits where "bits = bytes_bits bs"
  define pad where "pad = replicate (pad_len k (length bits)) False"
  define gs where "gs = group k (bits @ pad)"
  have "k dvd length (bits @ pad)"
    using dvd_pad_len [OF assms(3), of "length bits"] by (simp add: pad_def)
  then have len: "length g = k" if "g \<in> set gs" for g
    using that group_lengths [OF assms(3)] unfolding gs_def by blast
  then have small: "\<forall>i \<in> set (map bits_nat gs). i < length as"
    using bits_nat_less assms(2) by fastforce
  have enc: "text_encode as k bs = map ((!) as) (map bits_nat gs)"
    by (simp add: text_encode_def gs_def pad_def bits_def)
  have "concat (map (nat_bits k) (map bits_nat gs)) = concat gs"
    using len nat_bits_bits_nat by (metis (no_types, lifting) map_idI map_map comp_apply)
  also have "\<dots> = bits @ pad" by (simp add: gs_def concat_group assms(3))
  finally have regroup: "concat (map (nat_bits k) (map bits_nat gs)) = bits @ pad" .
  have padlen: "length pad < k" by (simp add: pad_def pad_len_less assms(3))
  then have "length (bits @ pad) div 8 = length bs"
    using assms(4) by (simp add: bits_def)
  then have n: "8 * (length (bits @ pad) div 8) = length bits" by (simp add: bits_def)
  have "indices as (text_encode as k bs) = Some (map bits_nat gs)"
    unfolding enc by (rule indices_map_nth [OF assms(1) small])
  then show ?thesis
    unfolding text_decode_def
    by (simp only: option.case regroup n Let_def) (simp add: padlen, simp add: pad_def bits_def)
qed

section \<open>The two alphabets in use\<close>

definition base64url_alphabet :: "char list" where
  "base64url_alphabet =
     ''ABCDEFGHIJKLMNOPQRSTUVWXYZabcdefghijklmnopqrstuvwxyz0123456789-_''"

definition base32_alphabet :: "char list" where
  "base32_alphabet = ''ABCDEFGHIJKLMNOPQRSTUVWXYZ234567''"

lemma base64url_alphabet_ok: "distinct base64url_alphabet" "length base64url_alphabet = 2 ^ 6"
  by (simp_all add: base64url_alphabet_def)

lemma base32_alphabet_ok: "distinct base32_alphabet" "length base32_alphabet = 2 ^ 5"
  by (simp_all add: base32_alphabet_def)

definition base64url_encode :: "bytes \<Rightarrow> string" where
  "base64url_encode = text_encode base64url_alphabet 6"

definition base64url_decode :: "string \<Rightarrow> bytes option" where
  "base64url_decode = text_decode base64url_alphabet 6"

definition base32_encode :: "bytes \<Rightarrow> string" where
  "base32_encode = text_encode base32_alphabet 5"

definition base32_decode :: "string \<Rightarrow> bytes option" where
  "base32_decode = text_decode base32_alphabet 5"

lemma base64url_decode_encode [simp]: "base64url_decode (base64url_encode bs) = Some bs"
  by (simp add: base64url_decode_def base64url_encode_def text_decode_encode base64url_alphabet_ok)

lemma base32_decode_encode [simp]: "base32_decode (base32_encode bs) = Some bs"
  by (simp add: base32_decode_def base32_encode_def text_decode_encode base32_alphabet_ok)

section \<open>Lengths and characters\<close>

lemma length_group: "0 < k \<Longrightarrow> k dvd length xs \<Longrightarrow> length (group k xs) * k = length xs"
proof -
  assume "0 < k" "k dvd length xs"
  then have "map length (group k xs) = map (\<lambda>_. k) (group k xs)"
    by (intro map_cong refl group_lengths)
  then have "sum_list (map length (group k xs)) = sum_list (map (\<lambda>_. k) (group k xs))"
    by (simp only:)
  then have "sum_list (map length (group k xs)) = length (group k xs) * k"
    by (simp add: sum_list_triv)
  moreover have "sum_list (map length (group k xs)) = length xs"
    by (metis \<open>0 < k\<close> concat_group length_concat)
  ultimately show ?thesis by simp
qed

lemma set_text_encode:
  assumes "0 < k" and "length as = 2 ^ k"
  shows "set (text_encode as k bs) \<subseteq> set as"
proof -
  have "bits_nat g < length as"
    if "g \<in> set (group k (bytes_bits bs @ replicate (pad_len k (length (bytes_bits bs))) False))" for g
  proof -
    have "length g = k"
      by (rule group_lengths [OF assms(1) _ that]) (simp add: dvd_pad_len [OF assms(1)] del: length_bytes_bits)
    then show ?thesis using bits_nat_less [of g] by (simp add: assms(2))
  qed
  then show ?thesis by (auto simp: text_encode_def Let_def)
qed

lemma length_base32_encode: "length bs = 36 \<Longrightarrow> length (base32_encode bs) = 58"
  using length_group [of 5 "bytes_bits bs @ replicate 2 False"]
  by (simp add: base32_encode_def text_encode_def Let_def pad_len_def)

end
