(* ===== verification/Util.thy ===== *)
theory Util
  imports Text_Encoding Std_Text
begin

text \<open>
  \<^verbatim>\<open>src/util.rs\<close>: text encoding of bytes and the hash type. The base64 engine
  \<^verbatim>\<open>general_purpose::URL_SAFE_NO_PAD\<close> of the crate base64 is the parameter \<open>eng\<close>; the
  locale \<open>base64\<close> is what its clients rely on, and \<open>text_form\<close> is the contract of every
  type that is printed with \<^verbatim>\<open>Display\<close> and read back with \<^verbatim>\<open>FromStr\<close>.
\<close>

section \<open>Base64\<close>

record 'de base64_engine =
  engine_encode :: "bytes \<Rightarrow> string"
  engine_decode :: "string \<Rightarrow> 'de + bytes"

definition encode :: "'de base64_engine \<Rightarrow> bytes \<Rightarrow> string" where
  "encode eng buf = engine_encode eng buf"

definition decode :: "'de base64_engine \<Rightarrow> string \<Rightarrow> (bytes, 'de) outcome" where
  "decode eng s = (case engine_decode eng s of Inl e \<Rightarrow> Err e | Inr bs \<Rightarrow> Ok bs)"

section \<open>The hash type\<close>

text \<open>\<^verbatim>\<open>blake3::Hash\<close> is an array of 32 bytes; \<^verbatim>\<open>blake3::hash\<close> is a parameter.\<close>

datatype hash = Hash (hash_as_bytes: bytes32)

definition hash_new :: "(bytes \<Rightarrow> bytes32) \<Rightarrow> bytes \<Rightarrow> hash" where
  "hash_new blake3 buf = Hash (blake3 buf)"

definition hash_as_ref :: "hash \<Rightarrow> bytes" where
  "hash_as_ref h = bytes_of (hash_as_bytes h)"

definition hash_to_blake3 :: "hash \<Rightarrow> bytes32" where
  "hash_to_blake3 h = hash_as_bytes h"

definition hash_from_array :: "bytes32 \<Rightarrow> hash" where
  "hash_from_array bs = Hash bs"

definition hash_display :: "'de base64_engine \<Rightarrow> hash \<Rightarrow> string" where
  "hash_display eng h = encode eng (bytes_of (hash_as_bytes h))"

datatype 'de hash_parse_error = HashEncoding 'de | HashByteLength nat

definition hash_from_str ::
    "'de base64_engine \<Rightarrow> string \<Rightarrow> (hash, 'de hash_parse_error) outcome" where
  "hash_from_str eng s =
     and_then (map_err HashEncoding (decode eng s)) (\<lambda>val.
     and_then (ensure (length val = 32) (HashByteLength (length val))) (\<lambda>_.
     case bytes32_try_from val of
       Some arr \<Rightarrow> Ok (Hash arr)
     | None \<Rightarrow> Panic SliceOutOfRange))"

text \<open>
  Serde: \<^verbatim>\<open>serialize_bytes\<close> and \<^verbatim>\<open>deserialize_bytes\<close> belong to the serializer and
  are parameters; the visitor is the program's own.
\<close>

definition hash_serialize :: "(bytes \<Rightarrow> 'o) \<Rightarrow> hash \<Rightarrow> 'o" where
  "hash_serialize serialize_bytes h = serialize_bytes (bytes_of (hash_as_bytes h))"

definition hash_visit_bytes :: "bytes \<Rightarrow> hash option" where
  "hash_visit_bytes v = map_option hash_from_array (bytes32_try_from v)"

definition hash_deserialize :: "('i \<Rightarrow> (bytes \<times> 'i) option) \<Rightarrow> 'i \<Rightarrow> (hash \<times> 'i) option" where
  "hash_deserialize deserialize_bytes i =
     (case deserialize_bytes i of
        None \<Rightarrow> None
      | Some (v, rest) \<Rightarrow> map_option (\<lambda>h. (h, rest)) (hash_visit_bytes v))"

definition hash_postcard_max_size :: nat where
  "hash_postcard_max_size = 32"

lemma hash_visit_bytes_ref [simp]: "hash_visit_bytes (bytes_of (hash_as_bytes h)) = Some h"
  by (simp add: hash_visit_bytes_def hash_from_array_def)

lemma hash_deserialize_serialize:
  "de (hash_serialize ser h) = Some (bytes_of (hash_as_bytes h), r) \<Longrightarrow>
   hash_deserialize de (hash_serialize ser h) = Some (h, r)"
  by (simp add: hash_deserialize_def)

lemma hash_from_str_decoded:
  "decode eng s = Ok v \<Longrightarrow>
   hash_from_str eng s =
     (case bytes32_try_from v of Some a \<Rightarrow> Ok (Hash a) | None \<Rightarrow> Err (HashByteLength (length v)))"
  by (simp add: hash_from_str_def bytes32_try_from_def)

section \<open>Contracts\<close>

locale text_form =
  fixes display :: "'a \<Rightarrow> string"
    and from_str :: "string \<Rightarrow> ('a, 'e) outcome"
  assumes from_str_display: "from_str (display x) = Ok x"
begin

lemma display_inject: "display x = display y \<longleftrightarrow> x = y"
  by (metis from_str_display outcome.inject(1))

lemma printed_parses: "s \<in> range display \<Longrightarrow> \<exists>x. from_str s = Ok x \<and> display x = s"
  using from_str_display by blast

end

locale base64 =
  fixes eng :: "'de base64_engine"
  assumes engine_round_trip: "engine_decode eng (engine_encode eng bs) = Inr bs"
begin

lemma decode_encode: "decode eng (encode eng bs) = Ok bs"
  by (simp add: decode_def encode_def engine_round_trip)

lemma hash_round_trip: "hash_from_str eng (hash_display eng h) = Ok h"
  by (cases h) (simp add: hash_display_def hash_from_str_decoded [OF decode_encode])

end

sublocale base64 \<subseteq> hash_text: text_form "hash_display eng" "hash_from_str eng"
  by unfold_locales (rule hash_round_trip)

text \<open>The engine of RFC 4648 meets the contract.\<close>

definition rfc_engine :: "unit base64_engine" where
  "rfc_engine =
     \<lparr>engine_encode = base64url_encode,
      engine_decode = (\<lambda>s. case base64url_decode s of None \<Rightarrow> Inl () | Some bs \<Rightarrow> Inr bs)\<rparr>"

interpretation rfc: base64 rfc_engine
  by unfold_locales (simp add: rfc_engine_def)

end
