(* ===== verification/Postcard.thy ===== *)
theory Postcard
  imports Std_Text Util
begin

text \<open>
  The serialisation format. The messages of the program derive their serialisation from
  serde: a struct is its fields in order, an enum is the index of its variant followed by
  the variant's fields. How integers, byte arrays, strings and lengths are written is the
  business of the crate postcard, here the parameter \<open>fmt\<close>; the locale \<open>postcard\<close>
  states what its wire-format specification promises. Encoders return bytes, decoders take
  a value off the front of their input and return the rest.
\<close>

section \<open>The format as a parameter\<close>

record format =
  put_u8 :: "byte \<Rightarrow> bytes"
  get_u8 :: "bytes \<Rightarrow> (byte \<times> bytes) option"
  put_u64 :: "u64 \<Rightarrow> bytes"
  get_u64 :: "bytes \<Rightarrow> (u64 \<times> bytes) option"
  put_variant :: "nat \<Rightarrow> bytes"
  get_variant :: "bytes \<Rightarrow> (nat \<times> bytes) option"
  put_seq_len :: "nat \<Rightarrow> bytes"
  get_seq_len :: "bytes \<Rightarrow> (nat \<times> bytes) option"
  put_bytes :: "bytes \<Rightarrow> bytes"
  get_bytes :: "bytes \<Rightarrow> (bytes \<times> bytes) option"
  put_str :: "string \<Rightarrow> bytes"
  get_str :: "bytes \<Rightarrow> (string \<times> bytes) option"

text \<open>
  What the program relies on: reading back what was written, in front of any other bytes,
  and the documented sizes: a varint takes one byte below 128 and at most ten bytes for a
  \<^verbatim>\<open>u64\<close>, byte arrays and strings carry their length in front.
\<close>

locale postcard =
  fixes fmt :: format
  assumes get_put_u8: "get_u8 fmt (put_u8 fmt b @ r) = Some (b, r)"
    and get_put_u64: "get_u64 fmt (put_u64 fmt w @ r) = Some (w, r)"
    and get_put_variant: "i < 2 ^ 32 \<Longrightarrow> get_variant fmt (put_variant fmt i @ r) = Some (i, r)"
    and get_put_seq_len: "n < 2 ^ 64 \<Longrightarrow> get_seq_len fmt (put_seq_len fmt n @ r) = Some (n, r)"
    and get_put_bytes: "length bs < 2 ^ 64 \<Longrightarrow> get_bytes fmt (put_bytes fmt bs @ r) = Some (bs, r)"
    and get_put_str:
      "utf8_valid s \<Longrightarrow> length s < 2 ^ 64 \<Longrightarrow> get_str fmt (put_str fmt s @ r) = Some (s, r)"
    and size_u8: "length (put_u8 fmt b) = 1"
    and size_u64: "length (put_u64 fmt w) \<le> 10"
    and size_u64_small: "w < 128 \<Longrightarrow> length (put_u64 fmt w) = 1"
    and size_variant: "i < 128 \<Longrightarrow> length (put_variant fmt i) = 1"
    and size_seq_len: "n < 2 ^ 64 \<Longrightarrow> length (put_seq_len fmt n) \<le> 10"
    and size_bytes: "length bs < length (put_bytes fmt bs)"
    and size_bytes_small: "length bs < 128 \<Longrightarrow> length (put_bytes fmt bs) = Suc (length bs)"
    and size_str: "length s < length (put_str fmt s)"
    and size_str_small: "length s < 128 \<Longrightarrow> length (put_str fmt s) = Suc (length s)"

section \<open>Sequences and arrays\<close>

fun get_many :: "nat \<Rightarrow> (bytes \<Rightarrow> ('a \<times> bytes) option) \<Rightarrow> bytes \<Rightarrow> ('a list \<times> bytes) option" where
  "get_many 0 get bs = Some ([], bs)"
| "get_many (Suc n) get bs =
     (case get bs of
        None \<Rightarrow> None
      | Some (x, r) \<Rightarrow> (case get_many n get r of None \<Rightarrow> None | Some (xs, r') \<Rightarrow> Some (x # xs, r')))"

lemma get_many_put:
  "(\<And>x r. x \<in> set xs \<Longrightarrow> get (put x @ r) = Some (x, r)) \<Longrightarrow>
   get_many (length xs) get (concat (map put xs) @ r) = Some (xs, r)"
proof (induction xs)
  case (Cons x xs)
  have "get (put x @ (concat (map put xs) @ r)) = Some (x, concat (map put xs) @ r)"
    by (rule Cons.prems) simp
  moreover have "get_many (length xs) get (concat (map put xs) @ r) = Some (xs, r)"
    by (rule Cons.IH) (simp add: Cons.prems)
  ultimately show ?case by simp
qed simp

text \<open>\<^verbatim>\<open>Vec<T>\<close> and \<^verbatim>\<open>[u8; 32]\<close>.\<close>

definition put_vec :: "format \<Rightarrow> ('a \<Rightarrow> bytes) \<Rightarrow> 'a list \<Rightarrow> bytes" where
  "put_vec fmt put xs = put_seq_len fmt (length xs) @ concat (map put xs)"

definition get_vec ::
    "format \<Rightarrow> (bytes \<Rightarrow> ('a \<times> bytes) option) \<Rightarrow> bytes \<Rightarrow> ('a list \<times> bytes) option" where
  "get_vec fmt get bs =
     (case get_seq_len fmt bs of None \<Rightarrow> None | Some (n, r) \<Rightarrow> get_many n get r)"

definition put_array32 :: "format \<Rightarrow> bytes32 \<Rightarrow> bytes" where
  "put_array32 fmt a = concat (map (put_u8 fmt) (bytes_of a))"

definition get_array32 :: "format \<Rightarrow> bytes \<Rightarrow> (bytes32 \<times> bytes) option" where
  "get_array32 fmt bs =
     (case get_many 32 (get_u8 fmt) bs of
        None \<Rightarrow> None
      | Some (xs, r) \<Rightarrow> map_option (\<lambda>a. (a, r)) (bytes32_try_from xs))"

definition put_hash :: "format \<Rightarrow> hash \<Rightarrow> bytes" where
  "put_hash fmt h = hash_serialize (put_bytes fmt) h"

definition get_hash :: "format \<Rightarrow> bytes \<Rightarrow> (hash \<times> bytes) option" where
  "get_hash fmt bs = hash_deserialize (get_bytes fmt) bs"

context postcard
begin

lemma get_put_vec:
  assumes "\<And>x r. x \<in> set xs \<Longrightarrow> get (put x @ r) = Some (x, r)" and "length xs < 2 ^ 64"
  shows "get_vec fmt get (put_vec fmt put xs @ r) = Some (xs, r)"
  using assms by (simp add: get_vec_def put_vec_def get_put_seq_len get_many_put)

lemma get_put_array32: "get_array32 fmt (put_array32 fmt a @ r) = Some (a, r)"
proof -
  have "get_many (length (bytes_of a)) (get_u8 fmt) (concat (map (put_u8 fmt) (bytes_of a)) @ r)
      = Some (bytes_of a, r)"
    by (rule get_many_put) (rule get_put_u8)
  then show ?thesis by (simp add: get_array32_def put_array32_def)
qed

lemma get_put_hash: "get_hash fmt (put_hash fmt h @ r) = Some (h, r)"
  by (simp add: get_hash_def put_hash_def hash_deserialize_def hash_serialize_def get_put_bytes)

lemma length_put_array32: "length (put_array32 fmt a) = 32"
  by (simp add: put_array32_def length_concat comp_def size_u8 sum_list_triv)

lemma length_put_hash: "length (put_hash fmt h) = 33"
  by (simp add: put_hash_def hash_serialize_def size_bytes_small)

end

section \<open>Whole messages\<close>

text \<open>
  \<^verbatim>\<open>postcard::from_bytes\<close> decodes a prefix and ignores what follows;
  \<^verbatim>\<open>postcard::to_slice\<close> writes into the front of a buffer, if it fits, and returns the
  part it used.
\<close>

datatype postcard_error = SerializeBufferFull | DeserializeFailed

definition from_bytes :: "(bytes \<Rightarrow> ('a \<times> bytes) option) \<Rightarrow> bytes \<Rightarrow> ('a, postcard_error) outcome" where
  "from_bytes get bs = (case get bs of None \<Rightarrow> Err DeserializeFailed | Some (x, r) \<Rightarrow> Ok x)"

definition to_slice :: "bytes \<Rightarrow> bytes \<Rightarrow> (bytes \<times> bytes, postcard_error) outcome" where
  "to_slice ser buf =
     (if length ser \<le> length buf then Ok (ser, ser @ drop (length ser) buf)
      else Err SerializeBufferFull)"

lemma from_bytes_put: "get (put x @ r) = Some (x, r) \<Longrightarrow> from_bytes get (put x @ r) = Ok x"
  by (simp add: from_bytes_def)

lemma from_bytes_put_exact: "get (put x @ []) = Some (x, []) \<Longrightarrow> from_bytes get (put x) = Ok x"
  by (simp add: from_bytes_def)

section \<open>The published wire format\<close>

text \<open>
  Varints of seven bits to the byte, least significant group first, as postcard's
  wire-format specification describes them: an instance of the parameter.
\<close>

fun varint :: "nat \<Rightarrow> bytes" where
  "varint n = (if n < 128 then [of_nat n] else of_nat (n mod 128 + 128) # varint (n div 128))"

declare varint.simps [simp del]

fun get_varint :: "nat \<Rightarrow> bytes \<Rightarrow> (nat \<times> bytes) option" where
  "get_varint 0 bs = None"
| "get_varint (Suc k) [] = None"
| "get_varint (Suc k) (b # bs) =
     (if unat b < 128 then Some (unat b, bs)
      else map_option (\<lambda>(n, r). (unat b - 128 + 128 * n, r)) (get_varint k bs))"

lemma unat_byte_of_nat: "n < 256 \<Longrightarrow> unat (of_nat n :: byte) = n"
  by (simp add: unat_of_nat take_bit_eq_mod)

lemma get_varint_varint: "n < 128 ^ k \<Longrightarrow> 0 < k \<Longrightarrow> get_varint k (varint n @ r) = Some (n, r)"
proof (induction k arbitrary: n)
  case (Suc k)
  show ?case
  proof (cases "n < 128")
    case True
    then show ?thesis by (simp add: varint.simps [of n] unat_byte_of_nat)
  next
    case False
    have small: "n div 128 < 128 ^ k"
      using Suc.prems by (simp add: less_mult_imp_div_less mult.commute)
    with False have "0 < k" by (cases k) auto
    with small have "get_varint k (varint (n div 128) @ r) = Some (n div 128, r)" by (rule Suc.IH)
    moreover have "unat (of_nat (n mod 128 + 128) :: byte) = n mod 128 + 128"
      by (rule unat_byte_of_nat) (use mod_less_divisor [of 128 n] in simp)
    ultimately show ?thesis using False by (simp add: varint.simps [of n])
  qed
qed simp

lemma length_varint: "n < 128 ^ k \<Longrightarrow> 0 < k \<Longrightarrow> length (varint n) \<le> k"
proof (induction k arbitrary: n)
  case (Suc k)
  show ?case
  proof (cases "n < 128")
    case False
    have small: "n div 128 < 128 ^ k"
      using Suc.prems by (simp add: less_mult_imp_div_less mult.commute)
    with False have "0 < k" by (cases k) auto
    with small Suc.IH have "length (varint (n div 128)) \<le> k" by blast
    with False show ?thesis by (simp add: varint.simps [of n])
  qed (simp add: varint.simps [of n])
qed simp

lemma varint_small: "n < 128 \<Longrightarrow> varint n = [of_nat n]"
  by (simp add: varint.simps)

lemma varint_nonempty: "varint n \<noteq> []"
  by (subst varint.simps) simp

lemma u64_varint_bound: "n < 2 ^ 64 \<Longrightarrow> n < 128 ^ 10" for n :: nat
  by (erule less_le_trans) simp

definition get_prefixed :: "bytes \<Rightarrow> (bytes \<times> bytes) option" where
  "get_prefixed bs =
     (case get_varint 10 bs of
        None \<Rightarrow> None
      | Some (n, r) \<Rightarrow> if n \<le> length r then Some (take n r, drop n r) else None)"

definition wire_format :: format where
  "wire_format =
     \<lparr>put_u8 = (\<lambda>b. [b]),
      get_u8 = (\<lambda>bs. case bs of [] \<Rightarrow> None | b # r \<Rightarrow> Some (b, r)),
      put_u64 = (\<lambda>w. varint (unat w)),
      get_u64 = (\<lambda>bs. case get_varint 10 bs of
                   Some (n, r) \<Rightarrow> if n < 2 ^ 64 then Some (of_nat n, r) else None | None \<Rightarrow> None),
      put_variant = varint,
      get_variant = (\<lambda>bs. case get_varint 5 bs of
                   Some (n, r) \<Rightarrow> if n < 2 ^ 32 then Some (n, r) else None | None \<Rightarrow> None),
      put_seq_len = varint,
      get_seq_len = get_varint 10,
      put_bytes = (\<lambda>bs. varint (length bs) @ bs),
      get_bytes = get_prefixed,
      put_str = (\<lambda>s. varint (length s) @ str_bytes s),
      get_str = (\<lambda>bs. case get_prefixed bs of
                   Some (v, r) \<Rightarrow> if utf8_valid (bytes_str v) then Some (bytes_str v, r) else None
                 | None \<Rightarrow> None)\<rparr>"

lemma get_prefixed_put:
  "length v < 2 ^ 64 \<Longrightarrow> get_prefixed (varint (length v) @ v @ r) = Some (v, r)"
  by (simp add: get_prefixed_def get_varint_varint u64_varint_bound)

interpretation wire: postcard wire_format
proof
  fix w :: u64 and r
  have "unat w < 2 ^ LENGTH(64)" by (rule unsigned_less)
  then have "unat w < 2 ^ 64" by simp
  then show "get_u64 wire_format (put_u64 wire_format w @ r) = Some (w, r)"
    and "length (put_u64 wire_format w) \<le> 10"
    by (simp_all add: wire_format_def get_varint_varint u64_varint_bound length_varint)
next
  fix w :: u64
  assume "w < 128"
  then have "unat w < 128" by (simp add: word_less_nat_alt)
  then show "length (put_u64 wire_format w) = 1" by (simp add: wire_format_def varint_small)
next
  fix i :: nat and r
  assume "i < 2 ^ 32"
  then have "i < 128 ^ 5" by (rule less_le_trans) simp
  with \<open>i < 2 ^ 32\<close> show "get_variant wire_format (put_variant wire_format i @ r) = Some (i, r)"
    by (simp add: wire_format_def get_varint_varint)
next
  fix s r
  assume "utf8_valid s" and "length s < 2 ^ 64"
  then show "get_str wire_format (put_str wire_format s @ r) = Some (s, r)"
    using get_prefixed_put [of "str_bytes s" r] by (simp add: wire_format_def)
qed (simp_all add: wire_format_def get_varint_varint u64_varint_bound length_varint varint_small
      get_prefixed_put varint_nonempty)

end
