(* ===== verification/Blobs.thy ===== *)
theory Blobs
  imports Postcard
begin

text \<open>
  \<^verbatim>\<open>src/blobs.rs\<close>: blobs, collections of blobs and their serialised form.
\<close>

record blob =
  blob_name :: string
  blob_hash :: hash

record collection =
  coll_name :: string
  coll_blobs :: "blob list"
  coll_total_blobs_size :: u64

definition put_blob :: "format \<Rightarrow> blob \<Rightarrow> bytes" where
  "put_blob fmt b = put_str fmt (blob_name b) @ put_hash fmt (blob_hash b)"

definition get_blob :: "format \<Rightarrow> bytes \<Rightarrow> (blob \<times> bytes) option" where
  "get_blob fmt bs =
     (case get_str fmt bs of None \<Rightarrow> None
      | Some (n, r) \<Rightarrow> (case get_hash fmt r of None \<Rightarrow> None
      | Some (h, r') \<Rightarrow> Some (\<lparr>blob_name = n, blob_hash = h\<rparr>, r')))"

definition put_collection :: "format \<Rightarrow> collection \<Rightarrow> bytes" where
  "put_collection fmt c =
     put_str fmt (coll_name c) @ put_vec fmt (put_blob fmt) (coll_blobs c)
       @ put_u64 fmt (coll_total_blobs_size c)"

definition get_collection :: "format \<Rightarrow> bytes \<Rightarrow> (collection \<times> bytes) option" where
  "get_collection fmt bs =
     (case get_str fmt bs of None \<Rightarrow> None
      | Some (n, r) \<Rightarrow> (case get_vec fmt (get_blob fmt) r of None \<Rightarrow> None
      | Some (blobs, r') \<Rightarrow> (case get_u64 fmt r' of None \<Rightarrow> None
      | Some (t, r'') \<Rightarrow>
          Some (\<lparr>coll_name = n, coll_blobs = blobs, coll_total_blobs_size = t\<rparr>, r''))))"

definition collection_from_bytes :: "format \<Rightarrow> bytes \<Rightarrow> (collection, postcard_error) outcome" where
  "collection_from_bytes fmt data = from_bytes (get_collection fmt) data"

definition total_blobs_size :: "collection \<Rightarrow> u64" where
  "total_blobs_size c = coll_total_blobs_size c"

definition collection_name :: "collection \<Rightarrow> string" where
  "collection_name c = coll_name c"

definition total_entries :: "collection \<Rightarrow> u64" where
  "total_entries c = of_nat (length (coll_blobs c))"

text \<open>
  What Rust's types say of a collection that the list types here do not: names are UTF-8,
  lengths fit a \<^verbatim>\<open>usize\<close>.
\<close>

definition str_ok :: "string \<Rightarrow> bool" where
  "str_ok s \<longleftrightarrow> utf8_valid s \<and> length s < 2 ^ 64"

definition collection_ok :: "collection \<Rightarrow> bool" where
  "collection_ok c \<longleftrightarrow>
     str_ok (coll_name c) \<and> length (coll_blobs c) < 2 ^ 64 \<and> list_all (str_ok \<circ> blob_name) (coll_blobs c)"

context postcard
begin

lemma get_put_blob: "str_ok (blob_name b) \<Longrightarrow> get_blob fmt (put_blob fmt b @ r) = Some (b, r)"
  by (simp add: get_blob_def put_blob_def get_put_str get_put_hash str_ok_def)

lemma get_put_collection:
  assumes "collection_ok c"
  shows "get_collection fmt (put_collection fmt c @ r) = Some (c, r)"
proof -
  have "get_vec fmt (get_blob fmt) (put_vec fmt (put_blob fmt) (coll_blobs c) @ r') = Some (coll_blobs c, r')"
    for r'
    by (rule get_put_vec) (use assms in \<open>auto simp: collection_ok_def list_all_iff get_put_blob\<close>)
  with assms show ?thesis
    by (simp add: get_collection_def put_collection_def collection_ok_def str_ok_def get_put_str
        get_put_u64)
qed

lemma collection_round_trip:
  "collection_ok c \<Longrightarrow> collection_from_bytes fmt (put_collection fmt c @ r) = Ok c"
  unfolding collection_from_bytes_def by (rule from_bytes_put) (rule get_put_collection)

text \<open>Every blob takes at least two bytes more than its name and its hash.\<close>

lemma length_put_blob: "length (blob_name b) + 34 \<le> length (put_blob fmt b)"
  using size_str [of "blob_name b"] by (simp add: put_blob_def length_put_hash)

lemma length_put_blobs:
  "(\<Sum>b\<leftarrow>bs. length (blob_name b) + 34) \<le> length (concat (map (put_blob fmt) bs))"
  by (induction bs) (use length_put_blob add_mono in \<open>auto simp: add_mono\<close>)

end

end
