(* ===== verification/Transport.thy ===== *)
theory Transport
  imports Prelude
begin

text \<open>
  The streams the program reads from and writes to. QUIC (quinn) and the read and write
  extension traits (tokio) are not part of the program: their operations are the fields of
  \<open>recv_ops\<close> and \<open>send_ops\<close>, arguments of every function that uses them. The locales
  \<open>byte_stream\<close> and \<open>byte_sink\<close> state what is documented of them.
\<close>

datatype io_error = UnexpectedEof | OtherIo nat

section \<open>Reading\<close>

text \<open>
  \<open>recv_buf\<close> is one \<^verbatim>\<open>read_buf\<close> through \<^verbatim>\<open>take\<close>, its argument being the bytes
  that \<^verbatim>\<open>take\<close> still lets through; no bytes are the end of the stream. \<open>recv_chunk\<close> is
  \<^verbatim>\<open>RecvStream::read_chunk\<close>.
\<close>

record 's recv_ops =
  recv_u64_le :: "'s \<Rightarrow> (io_error + u64) \<times> 's"
  recv_buf :: "'s \<Rightarrow> nat \<Rightarrow> (io_error + bytes) \<times> 's"
  recv_chunk :: "'s \<Rightarrow> nat \<Rightarrow> (io_error + bytes option) \<times> 's"
  recv_stop :: "'s \<Rightarrow> u64 \<Rightarrow> 's"

text \<open>
  A stream that delivers the bytes \<open>rest s\<close> and then ends: how the bytes are cut into
  reads is left open.
\<close>

locale byte_stream =
  fixes ops :: "'s recv_ops"
    and rest :: "'s \<Rightarrow> bytes"
  assumes recv_u64_full:
      "8 \<le> length (rest s) \<Longrightarrow>
       \<exists>s'. recv_u64_le ops s = (Inr (u64_from_le_bytes (take 8 (rest s))), s') \<and> rest s' = drop 8 (rest s)"
    and recv_u64_short: "length (rest s) < 8 \<Longrightarrow> \<exists>s'. recv_u64_le ops s = (Inl UnexpectedEof, s') \<and> rest s' = []"
    and recv_buf_some:
      "0 < n \<Longrightarrow>
       \<exists>bs s'. recv_buf ops s n = (Inr bs, s') \<and> rest s = bs @ rest s' \<and> length bs \<le> n \<and> (bs = [] \<longrightarrow> rest s = [])"
    and recv_chunk_end: "rest s = [] \<Longrightarrow> \<exists>s'. recv_chunk ops s n = (Inr None, s') \<and> rest s' = []"
    and recv_chunk_more:
      "0 < n \<Longrightarrow> rest s \<noteq> [] \<Longrightarrow>
       \<exists>bs s'. recv_chunk ops s n = (Inr (Some bs), s') \<and> bs \<noteq> [] \<and> rest s = bs @ rest s' \<and> length bs \<le> n"
begin

lemma recv_u64_prefix:
  "rest s = u64_to_le_bytes w @ rs \<Longrightarrow> \<exists>s'. recv_u64_le ops s = (Inr w, s') \<and> rest s' = rs"
  using recv_u64_full [of s] by simp

end

section \<open>Writing\<close>

text \<open>
  \<open>send_all\<close> is \<^verbatim>\<open>write_all\<close>, \<open>send_buf\<close> is \<^verbatim>\<open>write_buf\<close>: a single write that
  reports how many bytes it took.
\<close>

record 'w send_ops =
  send_u64_le :: "'w \<Rightarrow> u64 \<Rightarrow> (io_error + unit) \<times> 'w"
  send_all :: "'w \<Rightarrow> bytes \<Rightarrow> (io_error + unit) \<times> 'w"
  send_buf :: "'w \<Rightarrow> bytes \<Rightarrow> (io_error + nat) \<times> 'w"
  send_finish :: "'w \<Rightarrow> (io_error + unit) \<times> 'w"

locale byte_sink =
  fixes ops :: "'w send_ops"
    and sent :: "'w \<Rightarrow> bytes"
    and finished :: "'w \<Rightarrow> bool"
  assumes send_u64_ok: "\<exists>w'. send_u64_le ops w v = (Inr (), w') \<and> sent w' = sent w @ u64_to_le_bytes v"
    and send_all_ok: "\<exists>w'. send_all ops w bs = (Inr (), w') \<and> sent w' = sent w @ bs"
    and send_buf_ok:
      "\<exists>n w'. send_buf ops w bs = (Inr n, w') \<and> n \<le> length bs \<and> sent w' = sent w @ take n bs"
    and send_finish_ok: "\<exists>w'. send_finish ops w = (Inr (), w') \<and> sent w' = sent w \<and> finished w'"

text \<open>A sink whose \<^verbatim>\<open>write_buf\<close> always takes the whole buffer.\<close>

locale eager_sink = byte_sink +
  assumes send_buf_whole: "fst (send_buf ops w bs) = Inr (length bs)"
begin

lemma send_buf_all: "\<exists>w'. send_buf ops w bs = (Inr (length bs), w') \<and> sent w' = sent w @ bs"
proof -
  obtain n w' where w': "send_buf ops w bs = (Inr n, w')" "sent w' = sent w @ take n bs"
    using send_buf_ok by blast
  with send_buf_whole [of w bs] have "n = length bs" by simp
  with w' show ?thesis by simp
qed

end

section \<open>A loopback transport\<close>

text \<open>
  Two endpoints in one process: what one side writes is what the other side reads, in
  chunks of arbitrary sizes. It shows that the contracts can be met.
\<close>

type_synonym chunk_stream = "bytes list"

fun chunk_read :: "chunk_stream \<Rightarrow> nat \<Rightarrow> bytes \<times> chunk_stream" where
  "chunk_read [] n = ([], [])"
| "chunk_read (c # cs) n =
     (if c = [] then chunk_read cs n
      else if length c \<le> n then (c, cs)
      else (take n c, drop n c # cs))"

definition chunk_ops :: "chunk_stream recv_ops" where
  "chunk_ops =
     \<lparr>recv_u64_le = (\<lambda>s.
        if 8 \<le> length (concat s)
        then (Inr (u64_from_le_bytes (take 8 (concat s))), [drop 8 (concat s)])
        else (Inl UnexpectedEof, [])),
      recv_buf = (\<lambda>s n. let (bs, s') = chunk_read s n in (Inr bs, s')),
      recv_chunk = (\<lambda>s n. let (bs, s') = chunk_read s n in (Inr (if bs = [] then None else Some bs), s')),
      recv_stop = (\<lambda>s code. s)\<rparr>"

lemma chunk_read_spec:
  "0 < n \<Longrightarrow> chunk_read s n = (bs, s') \<Longrightarrow>
   concat s = bs @ concat s' \<and> length bs \<le> n \<and> (bs = [] \<longrightarrow> concat s = [])"
  by (induction s n rule: chunk_read.induct) (auto split: if_splits)

lemma chunk_read_end: "concat s = [] \<Longrightarrow> chunk_read s n = ([], [])"
  by (induction s n rule: chunk_read.induct) (auto split: if_splits)

interpretation loopback: byte_stream chunk_ops concat
proof
  fix s :: chunk_stream and n :: nat
  obtain bs s' where r: "chunk_read s n = (bs, s')" by fastforce
  show "\<exists>bs s'. recv_buf chunk_ops s n = (Inr bs, s') \<and> concat s = bs @ concat s' \<and> length bs \<le> n
      \<and> (bs = [] \<longrightarrow> concat s = [])" if "0 < n"
    using chunk_read_spec [OF that r]
    by (simp add: chunk_ops_def r del: concat_eq_Nil_conv) (metis append_is_Nil_conv)
  show "\<exists>bs s'. recv_chunk chunk_ops s n = (Inr (Some bs), s') \<and> bs \<noteq> [] \<and> concat s = bs @ concat s'
      \<and> length bs \<le> n" if "0 < n" and "concat s \<noteq> []"
    using chunk_read_spec [OF that(1) r] that(2)
    by (simp add: chunk_ops_def r del: concat_eq_Nil_conv)
qed (auto simp: chunk_ops_def chunk_read_end)

record mem_sink =
  mem_sent :: bytes
  mem_finished :: bool

definition mem_ops :: "nat \<Rightarrow> mem_sink send_ops" where
  "mem_ops limit =
     \<lparr>send_u64_le = (\<lambda>w v. (Inr (), w\<lparr>mem_sent := mem_sent w @ u64_to_le_bytes v\<rparr>)),
      send_all = (\<lambda>w bs. (Inr (), w\<lparr>mem_sent := mem_sent w @ bs\<rparr>)),
      send_buf = (\<lambda>w bs. let n = min limit (length bs) in
        (Inr n, w\<lparr>mem_sent := mem_sent w @ take n bs\<rparr>)),
      send_finish = (\<lambda>w. (Inr (), w\<lparr>mem_finished := True\<rparr>))\<rparr>"

text \<open>With any limit on a single write it is a sink; without one it is an eager sink.\<close>

interpretation mem: byte_sink "mem_ops limit" mem_sent mem_finished for limit
  by unfold_locales (auto simp: mem_ops_def Let_def)

definition mem_eager_ops :: "mem_sink send_ops" where
  "mem_eager_ops = (mem_ops 0)\<lparr>send_buf := (\<lambda>w bs. (Inr (length bs), w\<lparr>mem_sent := mem_sent w @ bs\<rparr>))\<rparr>"

interpretation mem_eager: eager_sink mem_eager_ops mem_sent mem_finished
  by unfold_locales (auto simp: mem_eager_ops_def mem_ops_def)

end
