(* ===== verification/Protocol.thy ===== *)
theory Protocol
  imports Blobs Transport
begin

text \<open>
  \<^verbatim>\<open>src/protocol.rs\<close>: the messages between getter and provider, their length-prefixed
  framing, the authentication token and the close codes.
\<close>

section \<open>Messages\<close>

definition MAX_MESSAGE_SIZE :: nat where
  "MAX_MESSAGE_SIZE = 1024 * 1024 * 100"

definition VERSION :: u64 where
  "VERSION = 1"

datatype auth_token = AuthToken (token_bytes: bytes32)

record handshake =
  hs_version :: u64
  hs_token :: auth_token

definition handshake_new :: "auth_token \<Rightarrow> handshake" where
  "handshake_new token = \<lparr>hs_version = VERSION, hs_token = token\<rparr>"

record request =
  req_id :: u64
  req_name :: hash

datatype res =
    NotFound
  | Found
  | FoundCollection u64

record response =
  resp_id :: u64
  resp_data :: res

definition put_handshake :: "format \<Rightarrow> handshake \<Rightarrow> bytes" where
  "put_handshake fmt h = put_u64 fmt (hs_version h) @ put_array32 fmt (token_bytes (hs_token h))"

definition get_handshake :: "format \<Rightarrow> bytes \<Rightarrow> (handshake \<times> bytes) option" where
  "get_handshake fmt bs =
     (case get_u64 fmt bs of None \<Rightarrow> None
      | Some (v, r) \<Rightarrow> (case get_array32 fmt r of None \<Rightarrow> None
      | Some (t, r') \<Rightarrow> Some (\<lparr>hs_version = v, hs_token = AuthToken t\<rparr>, r')))"

definition put_request :: "format \<Rightarrow> request \<Rightarrow> bytes" where
  "put_request fmt q = put_u64 fmt (req_id q) @ put_hash fmt (req_name q)"

definition get_request :: "format \<Rightarrow> bytes \<Rightarrow> (request \<times> bytes) option" where
  "get_request fmt bs =
     (case get_u64 fmt bs of None \<Rightarrow> None
      | Some (i, r) \<Rightarrow> (case get_hash fmt r of None \<Rightarrow> None
      | Some (h, r') \<Rightarrow> Some (\<lparr>req_id = i, req_name = h\<rparr>, r')))"

fun put_res :: "format \<Rightarrow> res \<Rightarrow> bytes" where
  "put_res fmt NotFound = put_variant fmt 0"
| "put_res fmt Found = put_variant fmt 1"
| "put_res fmt (FoundCollection t) = put_variant fmt 2 @ put_u64 fmt t"

definition get_res :: "format \<Rightarrow> bytes \<Rightarrow> (res \<times> bytes) option" where
  "get_res fmt bs =
     (case get_variant fmt bs of None \<Rightarrow> None
      | Some (i, r) \<Rightarrow>
          if i = 0 then Some (NotFound, r)
          else if i = 1 then Some (Found, r)
          else if i = 2 then
            (case get_u64 fmt r of None \<Rightarrow> None | Some (t, r') \<Rightarrow> Some (FoundCollection t, r'))
          else None)"

definition put_response :: "format \<Rightarrow> response \<Rightarrow> bytes" where
  "put_response fmt p = put_u64 fmt (resp_id p) @ put_res fmt (resp_data p)"

definition get_response :: "format \<Rightarrow> bytes \<Rightarrow> (response \<times> bytes) option" where
  "get_response fmt bs =
     (case get_u64 fmt bs of None \<Rightarrow> None
      | Some (i, r) \<Rightarrow> (case get_res fmt r of None \<Rightarrow> None
      | Some (d, r') \<Rightarrow> Some (\<lparr>resp_id = i, resp_data = d\<rparr>, r')))"

text \<open>
  \<^verbatim>\<open>POSTCARD_MAX_SIZE\<close> as derived: the sum over the fields, ten for a \<^verbatim>\<open>u64\<close>, one per
  byte of an array, and the constant of \<^verbatim>\<open>Hash\<close>.
\<close>

definition handshake_max_size :: nat where
  "handshake_max_size = 10 + 32"

definition request_max_size :: nat where
  "request_max_size = 10 + hash_postcard_max_size"

section \<open>Errors\<close>

text \<open>The errors that reach an \<^verbatim>\<open>anyhow::Error\<close>, one constructor for each place they arise.\<close>

datatype error =
    IoError io_error
  | PostcardError postcard_error
  | MessageTooLarge
  | VersionMismatch u64
  | TokenMismatch
  | NoHandshake
  | ExtraDataPastRequest
  | NoRequest
  | SizeTooLarge u64
  | DownloadedMoreThan u64
  | BlobNotFullyRead
  | UnexpectedMessage
  | DataNotFound
  | BlobNotFound hash
  | StreamClosed
  | ServerDisconnected
  | CallbackError nat
  | ConnectError nat
  | CertificateError

definition io_await :: "('st \<Rightarrow> (io_error + 'a) \<times> 'st) \<Rightarrow> ('st, 'a, error) io" where
  "io_await m st = (case m st of (Inl e, st') \<Rightarrow> (Err (IoError e), st') | (Inr x, st') \<Rightarrow> (Ok x, st'))"

lemma io_await_Ok [simp]: "m st = (Inr x, st') \<Longrightarrow> io_await m st = (Ok x, st')"
  by (simp add: io_await_def)

lemma io_await_Err [simp]: "m st = (Inl e, st') \<Longrightarrow> io_await m st = (Err (IoError e), st')"
  by (simp add: io_await_def)

section \<open>Framing: writing\<close>

definition write_lp :: "'w send_ops \<Rightarrow> bytes \<Rightarrow> ('w, unit, error) io" where
  "write_lp ops data =
     io_bind (io_ensure (length data < MAX_MESSAGE_SIZE) MessageTooLarge) (\<lambda>_.
     let data_len = of_nat (length data) in
     io_bind (io_await (\<lambda>w. send_u64_le ops w data_len)) (\<lambda>_.
     io_await (\<lambda>w. send_all ops w data)))"

section \<open>Framing: reading\<close>

text \<open>The reader and the buffer that a read function is given.\<close>

record 's rx =
  rx_reader :: 's
  rx_buffer :: bytes

definition read_prefix :: "'s recv_ops \<Rightarrow> 's \<Rightarrow> (io_error + u64) \<times> 's" where
  "read_prefix ops s = recv_u64_le ops s"

text \<open>
  The loop that fills the buffer. \<open>left\<close> is \<^verbatim>\<open>size - read\<close>, which is also the limit
  that the \<^verbatim>\<open>take\<close> adapter has left: a read is handed a buffer of that many bytes, so
  it cannot return more.
\<close>

function read_loop :: "'s recv_ops \<Rightarrow> nat \<Rightarrow> ('s rx, unit, error) io" where
  "read_loop ops left rx =
     (if left = 0 then (Ok (), rx)
      else case recv_buf ops (rx_reader rx) left of
          (Inl e, s') \<Rightarrow> (Err (IoError e), rx\<lparr>rx_reader := s'\<rparr>)
        | (Inr bs, s') \<Rightarrow>
            let got = take left bs; rx' = \<lparr>rx_reader = s', rx_buffer = rx_buffer rx @ got\<rparr>
            in if got = [] then (Ok (), rx') else read_loop ops (left - length got) rx')"
  by pat_completeness auto
termination
  by (relation "measure (\<lambda>(ops, left, rx). left)") auto

declare read_loop.simps [simp del]

definition read_lp ::
    "'s recv_ops \<Rightarrow> (bytes \<Rightarrow> ('a \<times> bytes) option) \<Rightarrow> ('s rx, ('a \<times> nat) option, error) io" where
  "read_lp ops get rx =
     (case read_prefix ops (rx_reader rx) of
        (Inl UnexpectedEof, s') \<Rightarrow> (Ok None, rx\<lparr>rx_reader := s'\<rparr>)
      | (Inl e, s') \<Rightarrow> (Err (IoError e), rx\<lparr>rx_reader := s'\<rparr>)
      | (Inr len, s') \<Rightarrow>
          io_bind (read_loop ops (unat len)) (\<lambda>_ rx'.
            (and_then (slice_to (rx_buffer rx') (unat len)) (\<lambda>msg.
             and_then (map_err PostcardError (from_bytes get msg)) (\<lambda>x.
             Ok (Some (x, unat len)))), rx'))
          (rx\<lparr>rx_reader := s'\<rparr>))"

definition read_size_data :: "'s recv_ops \<Rightarrow> u64 \<Rightarrow> ('s rx, bytes, error) io" where
  "read_size_data ops len =
     io_bind (read_loop ops (unat len)) (\<lambda>_ rx'.
       case split_to (rx_buffer rx') (unat len) of
         Ok (front, back) \<Rightarrow> (Ok front, rx'\<lparr>rx_buffer := back\<rparr>)
       | Err e \<Rightarrow> (Err e, rx')
       | Panic p \<Rightarrow> (Panic p, rx'))"

definition read_lp_data :: "'s recv_ops \<Rightarrow> ('s rx, bytes option, error) io" where
  "read_lp_data ops rx =
     (case read_prefix ops (rx_reader rx) of
        (Inl e, s') \<Rightarrow> (Err (IoError e), rx\<lparr>rx_reader := s'\<rparr>)
      | (Inr len, s') \<Rightarrow>
          io_bind (read_size_data ops len) (\<lambda>response. io_ret (Some response)) (rx\<lparr>rx_reader := s'\<rparr>))"

text \<open>
  \<^verbatim>\<open>AsyncSliceDecoder\<close> of the crate abao, over the slice from 0 to \<^verbatim>\<open>u64::MAX\<close>: it
  takes the reader, checks what it reads against the hash and gives the reader back.
\<close>

record ('s, 'd) decoder_ops =
  dec_new :: "'s \<Rightarrow> bytes32 \<Rightarrow> 'd"
  dec_read_size :: "'d \<Rightarrow> (io_error + u64) \<times> 'd"
  dec_read_to_end :: "'d \<Rightarrow> (io_error + bytes) \<times> 'd"
  dec_read_exact :: "'d \<Rightarrow> nat \<Rightarrow> (io_error + bytes) \<times> 'd"
  dec_into_inner :: "'d \<Rightarrow> 's"

definition read_bao_encoded :: "('s, 'd) decoder_ops \<Rightarrow> hash \<Rightarrow> ('s, bytes, error) io" where
  "read_bao_encoded dops h s =
     (case dec_read_to_end dops (dec_new dops s (hash_to_blake3 h)) of
        (Inl e, d) \<Rightarrow> (Err (IoError e), dec_into_inner dops d)
      | (Inr decoded, d) \<Rightarrow> (Ok decoded, dec_into_inner dops d))"

section \<open>The authentication token\<close>

definition auth_token_display :: "'de base64_engine \<Rightarrow> auth_token \<Rightarrow> string" where
  "auth_token_display eng t = encode eng (bytes_of (token_bytes t))"

datatype 'de auth_token_parse_error = Base64 'de | TokenLength nat

definition auth_token_from_str ::
    "'de base64_engine \<Rightarrow> string \<Rightarrow> (auth_token, 'de auth_token_parse_error) outcome" where
  "auth_token_from_str eng s =
     and_then (map_err Base64 (decode eng s)) (\<lambda>decoded.
     and_then (ok_or (TokenLength (length decoded)) (bytes32_try_from decoded)) (\<lambda>bytes.
     Ok (AuthToken bytes)))"

context base64
begin

lemma auth_token_round_trip: "auth_token_from_str eng (auth_token_display eng t) = Ok t"
  by (cases t) (simp add: auth_token_display_def auth_token_from_str_def decode_encode)

end

sublocale base64 \<subseteq> token_text: text_form "auth_token_display eng" "auth_token_from_str eng"
  by unfold_locales (rule auth_token_round_trip)

section \<open>Close codes\<close>

datatype closed = StreamDropped | ProviderTerminating | RequestReceived

fun closed_code :: "closed \<Rightarrow> u16" where
  "closed_code StreamDropped = 0"
| "closed_code ProviderTerminating = 1"
| "closed_code RequestReceived = 2"

fun closed_reason :: "closed \<Rightarrow> string" where
  "closed_reason StreamDropped = ''stream dropped''"
| "closed_reason ProviderTerminating = ''provider terminating''"
| "closed_reason RequestReceived = ''request received''"

text \<open>\<^verbatim>\<open>VarInt::from(source as u16)\<close>, read back with \<^verbatim>\<open>into_inner\<close>.\<close>

definition closed_to_varint :: "closed \<Rightarrow> u64" where
  "closed_to_varint c = ucast (closed_code c)"

datatype unknown_error_code = UnknownErrorCode u64

definition closed_try_from :: "u64 \<Rightarrow> (closed, unknown_error_code) outcome" where
  "closed_try_from v =
     (if v = 0 then Ok StreamDropped
      else if v = 1 then Ok ProviderTerminating
      else if v = 2 then Ok RequestReceived
      else Err (UnknownErrorCode v))"

section \<open>Serialisation of the messages\<close>

context postcard
begin

lemma get_put_handshake: "get_handshake fmt (put_handshake fmt h @ r) = Some (h, r)"
  by (simp add: get_handshake_def put_handshake_def get_put_u64 get_put_array32)

lemma get_put_request: "get_request fmt (put_request fmt q @ r) = Some (q, r)"
  by (simp add: get_request_def put_request_def get_put_u64 get_put_hash)

lemma get_put_res: "get_res fmt (put_res fmt d @ r) = Some (d, r)"
  by (cases d) (simp_all add: get_res_def get_put_variant get_put_u64)

lemma get_put_response: "get_response fmt (put_response fmt p @ r) = Some (p, r)"
  by (simp add: get_response_def put_response_def get_put_u64 get_put_res)

lemma length_put_handshake: "length (put_handshake fmt h) \<le> handshake_max_size"
  using size_u64 [of "hs_version h"]
  by (simp add: put_handshake_def handshake_max_size_def length_put_array32)

lemma length_put_request: "length (put_request fmt q) \<le> request_max_size + 1"
  using size_u64 [of "req_id q"]
  by (simp add: put_request_def request_max_size_def hash_postcard_max_size_def length_put_hash)

lemma length_put_request_small: "req_id q < 128 \<Longrightarrow> length (put_request fmt q) = 34"
  by (simp add: put_request_def length_put_hash size_u64_small)

lemma length_put_response: "length (put_response fmt p) \<le> 21"
  using size_u64 [of "resp_id p"] size_u64 [of "case resp_data p of FoundCollection t \<Rightarrow> t | _ \<Rightarrow> 0"]
  by (cases "resp_data p") (simp_all add: put_response_def size_variant)

end

section \<open>Properties of the framing\<close>

definition frame :: "bytes \<Rightarrow> bytes" where
  "frame data = u64_to_le_bytes (of_nat (length data)) @ data"

context byte_sink
begin

lemma write_lp_ok:
  assumes "length data < MAX_MESSAGE_SIZE"
  shows "\<exists>w'. write_lp ops data w = (Ok (), w') \<and> sent w' = sent w @ frame data"
proof -
  obtain w1 where w1: "send_u64_le ops w (of_nat (length data)) = (Inr (), w1)"
      "sent w1 = sent w @ u64_to_le_bytes (of_nat (length data))"
    using send_u64_ok by blast
  obtain w2 where w2: "send_all ops w1 data = (Inr (), w2)" "sent w2 = sent w1 @ data"
    using send_all_ok by blast
  from assms w1 w2 show ?thesis by (simp add: write_lp_def frame_def)
qed

end

text \<open>Whatever the stream does: how much the loop can add, and how reads can fail.\<close>

lemma read_loop_bound: "length (rx_buffer (snd (read_loop ops left rx))) \<le> length (rx_buffer rx) + left"
proof (induction ops left rx rule: read_loop.induct)
  case (1 ops left rx)
  show ?case
  proof (cases "left = 0")
    case False
    obtain r s' where r: "recv_buf ops (rx_reader rx) left = (r, s')" by fastforce
    show ?thesis
    proof (cases r)
      case (Inr bs)
      define got where "got = take left bs"
      have len: "length got \<le> left" by (simp add: got_def)
      show ?thesis
      proof (cases "got = []")
        case nonempty: False
        have "length (rx_buffer (snd (read_loop ops (left - length got)
            \<lparr>rx_reader = s', rx_buffer = rx_buffer rx @ got\<rparr>))) \<le> length (rx_buffer rx) + left"
          using "1.IH" [OF False r [symmetric] Inr refl] nonempty len by (simp add: got_def Let_def)
        with False r Inr nonempty show ?thesis
          by (simp add: read_loop.simps [of ops left rx] got_def Let_def)
      qed (use False r Inr in \<open>simp add: read_loop.simps [of ops left rx] got_def Let_def\<close>)
    qed (use False r in \<open>simp add: read_loop.simps [of ops left rx]\<close>)
  qed (simp add: read_loop.simps)
qed

lemma read_loop_no_panic: "fst (read_loop ops left rx) \<noteq> Panic p"
proof (induction ops left rx rule: read_loop.induct)
  case (1 ops left rx)
  then show ?case
    by (subst read_loop.simps) (auto simp: Let_def split: prod.splits sum.splits)
qed

lemma read_size_data_panic:
  "read_size_data ops n rx = (Panic p, rx') \<Longrightarrow> p = SplitOutOfRange"
  using read_loop_no_panic [of ops "unat n" rx]
  by (auto simp: read_size_data_def io_bind_def split_to_def split: prod.splits outcome.splits if_splits)

lemma read_size_data_drains:
  assumes "read_size_data ops n rx = (Ok data, rx')" and "rx_buffer rx = []"
  shows "rx_buffer rx' = []"
proof -
  from assms(1) obtain rx1 where 1: "read_loop ops (unat n) rx = (Ok (), rx1)"
    and 2: "rx_buffer rx' = drop (unat n) (rx_buffer rx1)"
    by (auto simp: read_size_data_def io_bind_def split_to_def split: prod.splits outcome.splits if_splits)
  with read_loop_bound [of ops "unat n" rx] assms(2) show ?thesis by simp
qed

lemma read_lp_data_panic: "read_lp_data ops rx = (Panic p, rx') \<Longrightarrow> p = SplitOutOfRange"
  by (auto simp: read_lp_data_def io_bind_def io_simps split: prod.splits sum.splits outcome.splits
      dest: read_size_data_panic)

lemma read_lp_data_drains:
  "read_lp_data ops rx = (Ok m, rx') \<Longrightarrow> rx_buffer rx = [] \<Longrightarrow> rx_buffer rx' = []"
  by (auto simp: read_lp_data_def io_bind_def io_simps split: prod.splits sum.splits outcome.splits
      dest: read_size_data_drains)

lemma read_lp_data_Some: "read_lp_data ops rx = (Ok m, rx') \<Longrightarrow> \<exists>data. m = Some data"
  by (auto simp: read_lp_data_def io_bind_def io_simps split: prod.splits sum.splits outcome.splits)

context byte_stream
begin

text \<open>The loop takes exactly the bytes it is asked for, or all there are.\<close>

lemma read_loop_spec:
  "\<exists>s'. read_loop ops left rx =
       (Ok (), \<lparr>rx_reader = s', rx_buffer = rx_buffer rx @ take left (rest (rx_reader rx))\<rparr>)
     \<and> rest s' = drop left (rest (rx_reader rx))"
proof (induction left arbitrary: rx rule: less_induct)
  case (less left)
  show ?case
  proof (cases "left = 0")
    case True
    then show ?thesis by (cases rx) (simp add: read_loop.simps)
  next
    case False
    then obtain bs s' where r: "recv_buf ops (rx_reader rx) left = (Inr bs, s')"
      and split: "rest (rx_reader rx) = bs @ rest s'" and len: "length bs \<le> left"
      and none: "bs = [] \<longrightarrow> rest (rx_reader rx) = []"
      using recv_buf_some [of left "rx_reader rx"] by auto
    define rx' where "rx' = \<lparr>rx_reader = s', rx_buffer = rx_buffer rx @ bs\<rparr>"
    show ?thesis
    proof (cases "bs = []")
      case True
      with False r split none show ?thesis by (simp add: read_loop.simps [of ops left rx])
    next
      case nonempty: False
      then have "left - length bs < left" using False by (simp add: length_greater_0_conv)
      from less.IH [OF this, of rx'] obtain s2 where
        "read_loop ops (left - length bs) rx' =
           (Ok (), \<lparr>rx_reader = s2, rx_buffer = rx_buffer rx' @ take (left - length bs) (rest s')\<rparr>)"
        "rest s2 = drop (left - length bs) (rest s')"
        by (auto simp: rx'_def)
      with False nonempty r len split show ?thesis
        by (simp add: read_loop.simps [of ops left rx] rx'_def)
    qed
  qed
qed

lemma read_lp_prefix:
  assumes "rest s = u64_to_le_bytes n @ body"
  obtains s' where "rest s' = drop (unat n) body"
    and "read_lp ops get \<lparr>rx_reader = s, rx_buffer = buf\<rparr> =
      (and_then (slice_to (buf @ take (unat n) body) (unat n)) (\<lambda>msg.
       and_then (map_err PostcardError (from_bytes get msg)) (\<lambda>x. Ok (Some (x, unat n)))),
       \<lparr>rx_reader = s', rx_buffer = buf @ take (unat n) body\<rparr>)"
proof -
  obtain s1 where s1: "recv_u64_le ops s = (Inr n, s1)" "rest s1 = body"
    using recv_u64_prefix [OF assms] by blast
  obtain s' where "read_loop ops (unat n) \<lparr>rx_reader = s1, rx_buffer = buf\<rparr> =
      (Ok (), \<lparr>rx_reader = s', rx_buffer = buf @ take (unat n) body\<rparr>)" "rest s' = drop (unat n) body"
    using read_loop_spec [of "unat n" "\<lparr>rx_reader = s1, rx_buffer = buf\<rparr>"] s1(2) by auto
  with s1 show thesis by (intro that) (simp_all add: read_lp_def read_prefix_def)
qed

lemma read_lp_frame:
  assumes "rest s = frame (put x) @ rs" and "length (put x) < 2 ^ 64" and "get (put x) = Some (x, [])"
  shows "\<exists>s'. read_lp ops get \<lparr>rx_reader = s, rx_buffer = []\<rparr> =
      (Ok (Some (x, length (put x))), \<lparr>rx_reader = s', rx_buffer = put x\<rparr>) \<and> rest s' = rs"
proof -
  have n: "unat (of_nat (length (put x)) :: u64) = length (put x)"
    using assms(2) by (simp add: unat_of_nat take_bit_eq_mod)
  from assms(1) have "rest s = u64_to_le_bytes (of_nat (length (put x))) @ put x @ rs"
    by (simp add: frame_def)
  from read_lp_prefix [OF this, of get "[]"] show ?thesis
    using assms(3) by (simp add: n slice_to_def from_bytes_def) metis
qed

lemma read_lp_eof:
  "length (rest s) < 8 \<Longrightarrow>
   \<exists>s'. read_lp ops get \<lparr>rx_reader = s, rx_buffer = buf\<rparr> = (Ok None, \<lparr>rx_reader = s', rx_buffer = buf\<rparr>)"
  using recv_u64_short [of s] by (auto simp: read_lp_def read_prefix_def)

lemma read_lp_truncated:
  assumes "rest s = u64_to_le_bytes n @ body" and "length body < unat n"
  shows "fst (read_lp ops get \<lparr>rx_reader = s, rx_buffer = []\<rparr>) = Panic SliceOutOfRange"
proof -
  obtain s' where "read_lp ops get \<lparr>rx_reader = s, rx_buffer = []\<rparr> =
      (and_then (slice_to (take (unat n) body) (unat n)) (\<lambda>msg.
       and_then (map_err PostcardError (from_bytes get msg)) (\<lambda>x. Ok (Some (x, unat n)))),
       \<lparr>rx_reader = s', rx_buffer = take (unat n) body\<rparr>)"
    using read_lp_prefix [OF assms(1), of get "[]"] by auto
  with assms(2) show ?thesis by (simp add: slice_to_def)
qed

lemma read_size_data_spec:
  "\<exists>s'. read_size_data ops n \<lparr>rx_reader = s, rx_buffer = []\<rparr> =
       (if unat n \<le> length (rest s)
        then (Ok (take (unat n) (rest s)), \<lparr>rx_reader = s', rx_buffer = []\<rparr>)
        else (Panic SplitOutOfRange, \<lparr>rx_reader = s', rx_buffer = rest s\<rparr>))
     \<and> rest s' = drop (unat n) (rest s)"
proof -
  obtain s' where "read_loop ops (unat n) \<lparr>rx_reader = s, rx_buffer = []\<rparr> =
      (Ok (), \<lparr>rx_reader = s', rx_buffer = take (unat n) (rest s)\<rparr>)" "rest s' = drop (unat n) (rest s)"
    using read_loop_spec [of "unat n" "\<lparr>rx_reader = s, rx_buffer = []\<rparr>"] by auto
  then show ?thesis by (intro exI [of _ s']) (simp add: read_size_data_def split_to_def)
qed

lemma read_lp_data_frame:
  assumes "rest s = frame data @ rs" and "length data < 2 ^ 64"
  shows "\<exists>s'. read_lp_data ops \<lparr>rx_reader = s, rx_buffer = []\<rparr> =
      (Ok (Some data), \<lparr>rx_reader = s', rx_buffer = []\<rparr>) \<and> rest s' = rs"
proof -
  have n: "unat (of_nat (length data) :: u64) = length data"
    using assms(2) by (simp add: unat_of_nat take_bit_eq_mod)
  from assms(1) have "rest s = u64_to_le_bytes (of_nat (length data)) @ data @ rs"
    by (simp add: frame_def)
  then obtain s1 where s1: "recv_u64_le ops s = (Inr (of_nat (length data)), s1)" "rest s1 = data @ rs"
    using recv_u64_prefix by blast
  then show ?thesis
    using read_size_data_spec [of "of_nat (length data)" s1]
    by (auto simp: read_lp_data_def read_prefix_def n io_simps)
qed

lemma read_lp_data_truncated:
  assumes "rest s = u64_to_le_bytes n @ body" and "length body < unat n"
  shows "fst (read_lp_data ops \<lparr>rx_reader = s, rx_buffer = []\<rparr>) = Panic SplitOutOfRange"
proof -
  obtain s1 where s1: "recv_u64_le ops s = (Inr n, s1)" "rest s1 = body"
    using recv_u64_prefix [OF assms(1)] by blast
  then show ?thesis
    using read_size_data_spec [of n s1] assms(2) by (auto simp: read_lp_data_def read_prefix_def)
qed

lemma read_lp_data_eof:
  "length (rest s) < 8 \<Longrightarrow>
   fst (read_lp_data ops \<lparr>rx_reader = s, rx_buffer = buf\<rparr>) = Err (IoError UnexpectedEof)"
  using recv_u64_short [of s] by (auto simp: read_lp_data_def read_prefix_def)

end

end
