(* ===== verification/Identity.thy ===== *)
theory Identity
  imports Util
begin

text \<open>
  \<^verbatim>\<open>src/tls.rs\<close>, the identities: key pairs and peer ids. The signature scheme (the
  crate ed25519_dalek) is the parameter \<open>ed\<close>, the OpenSSH key format (the crate ssh_key)
  the parameter \<open>ssh\<close>.
\<close>

section \<open>The signature scheme as a parameter\<close>

record ('pk, 'sk) keypair =
  kp_public :: 'pk
  kp_secret :: 'sk

record ('pk, 'sk, 'sg, 'ke) ed25519_ops =
  pk_as_bytes :: "'pk \<Rightarrow> bytes32"
  pk_from_bytes :: "bytes \<Rightarrow> 'ke + 'pk"
  sig_to_bytes :: "'sg \<Rightarrow> bytes"
  sig_from_bytes :: "bytes \<Rightarrow> 'ke + 'sg"
  ed_sign :: "('pk, 'sk) keypair \<Rightarrow> bytes \<Rightarrow> 'sg"
  ed_verify :: "'pk \<Rightarrow> bytes \<Rightarrow> 'sg \<Rightarrow> bool"

locale ed25519 =
  fixes ed :: "('pk, 'sk, 'sg, 'ke) ed25519_ops"
    and genuine :: "('pk, 'sk) keypair \<Rightarrow> bool"
  assumes pk_round_trip: "pk_from_bytes ed (bytes_of (pk_as_bytes ed k)) = Inr k"
    and sig_round_trip: "sig_from_bytes ed (sig_to_bytes ed s) = Inr s"
    and verify_sign: "genuine kp \<Longrightarrow> ed_verify ed (kp_public kp) msg (ed_sign ed kp msg)"

section \<open>Key pairs\<close>

definition keypair_public :: "('pk, 'sk) keypair \<Rightarrow> 'pk" where
  "keypair_public kp = kp_public kp"

definition keypair_secret :: "('pk, 'sk) keypair \<Rightarrow> 'sk" where
  "keypair_secret kp = kp_secret kp"

definition keypair_sign ::
    "('pk, 'sk, 'sg, 'ke) ed25519_ops \<Rightarrow> ('pk, 'sk) keypair \<Rightarrow> bytes \<Rightarrow> 'sg" where
  "keypair_sign ed kp msg = ed_sign ed kp msg"

text \<open>
  The key data of an OpenSSH private key: an Ed25519 pair in the format of ssh_key, to be
  converted, or a key of another kind.
\<close>

datatype 'k ssh_key_data = SshEd25519 'k | SshOther

record ('pk, 'sk, 'k, 'se) ssh_ops =
  ssh_of_keypair :: "('pk, 'sk) keypair \<Rightarrow> 'k"
  ssh_to_keypair :: "'k \<Rightarrow> 'se + ('pk, 'sk) keypair"
  ssh_to_openssh :: "'k ssh_key_data \<Rightarrow> 'se + string"
  ssh_from_openssh :: "bytes \<Rightarrow> 'se + 'k ssh_key_data"

datatype 'se openssh_error = SshError 'se | InvalidKeyFormat

fun of_sum :: "('e \<Rightarrow> 'f) \<Rightarrow> 'e + 'a \<Rightarrow> ('a, 'f) outcome" where
  "of_sum g (Inl e) = Err (g e)"
| "of_sum g (Inr x) = Ok x"

definition to_openssh ::
    "('pk, 'sk, 'k, 'se) ssh_ops \<Rightarrow> ('pk, 'sk) keypair \<Rightarrow> (string, 'se) outcome" where
  "to_openssh ssh kp = of_sum id (ssh_to_openssh ssh (SshEd25519 (ssh_of_keypair ssh kp)))"

definition try_from_openssh ::
    "('pk, 'sk, 'k, 'se) ssh_ops \<Rightarrow> bytes \<Rightarrow> (('pk, 'sk) keypair, 'se openssh_error) outcome" where
  "try_from_openssh ssh data =
     and_then (of_sum SshError (ssh_from_openssh ssh data)) (\<lambda>ser_key.
     case ser_key of
       SshEd25519 k \<Rightarrow> of_sum SshError (ssh_to_keypair ssh k)
     | SshOther \<Rightarrow> Err InvalidKeyFormat)"

locale openssh =
  fixes ssh :: "('pk, 'sk, 'k, 'se) ssh_ops"
  assumes ssh_keypair_round_trip: "ssh_to_keypair ssh (ssh_of_keypair ssh kp) = Inr kp"
    and ssh_text_round_trip: "ssh_to_openssh ssh d = Inr s \<Longrightarrow> ssh_from_openssh ssh (str_bytes s) = Inr d"
begin

lemma openssh_round_trip:
  "to_openssh ssh kp = Ok s \<Longrightarrow> try_from_openssh ssh (str_bytes s) = Ok kp"
  by (cases "ssh_to_openssh ssh (SshEd25519 (ssh_of_keypair ssh kp))")
    (simp_all add: to_openssh_def try_from_openssh_def ssh_text_round_trip ssh_keypair_round_trip)

end

section \<open>Peer ids\<close>

datatype 'pk peer_id = PeerId (peer_key: 'pk)

definition peer_id_display ::
    "'de base64_engine \<Rightarrow> ('pk, 'sk, 'sg, 'ke) ed25519_ops \<Rightarrow> 'pk peer_id \<Rightarrow> string" where
  "peer_id_display eng ed p = encode eng (bytes_of (pk_as_bytes ed (peer_key p)))"

definition peer_id_debug ::
    "'de base64_engine \<Rightarrow> ('pk, 'sk, 'sg, 'ke) ed25519_ops \<Rightarrow> 'pk peer_id \<Rightarrow> string" where
  "peer_id_debug eng ed p = ''PeerId('' @ encode eng (bytes_of (pk_as_bytes ed (peer_key p))) @ '')''"

datatype ('de, 'ke) peer_id_error = PeerBase64 'de | PeerKey 'ke

definition peer_id_from_str ::
    "'de base64_engine \<Rightarrow> ('pk, 'sk, 'sg, 'ke) ed25519_ops \<Rightarrow> string
       \<Rightarrow> ('pk peer_id, ('de, 'ke) peer_id_error) outcome" where
  "peer_id_from_str eng ed s =
     and_then (map_err PeerBase64 (decode eng s)) (\<lambda>bytes.
     and_then (of_sum PeerKey (pk_from_bytes ed bytes)) (\<lambda>key.
     Ok (PeerId key)))"

locale identity = base64 eng + ed25519 ed genuine
  for eng :: "'de base64_engine"
    and ed :: "('pk, 'sk, 'sg, 'ke) ed25519_ops"
    and genuine :: "('pk, 'sk) keypair \<Rightarrow> bool"
begin

lemma peer_id_round_trip: "peer_id_from_str eng ed (peer_id_display eng ed p) = Ok p"
  by (cases p) (simp add: peer_id_from_str_def peer_id_display_def decode_encode pk_round_trip)

end

sublocale identity \<subseteq> peer_text: text_form "peer_id_display eng ed" "peer_id_from_str eng ed"
  by unfold_locales (rule peer_id_round_trip)

section \<open>Instances\<close>

text \<open>
  Small implementations of the two parameters, at which the properties are exercised: a
  scheme whose secret is the public key and whose signature is the key and the message,
  and an OpenSSH form that writes a key as base64 text.
\<close>

definition plain_ed :: "(bytes32, bytes32, bytes, unit) ed25519_ops" where
  "plain_ed =
     \<lparr>pk_as_bytes = id,
      pk_from_bytes = (\<lambda>bs. case bytes32_try_from bs of None \<Rightarrow> Inl () | Some a \<Rightarrow> Inr a),
      sig_to_bytes = id,
      sig_from_bytes = Inr,
      ed_sign = (\<lambda>kp msg. bytes_of (kp_secret kp) @ msg),
      ed_verify = (\<lambda>pk msg s. s = bytes_of pk @ msg)\<rparr>"

definition plain_genuine :: "(bytes32, bytes32) keypair \<Rightarrow> bool" where
  "plain_genuine kp \<longleftrightarrow> kp_public kp = kp_secret kp"

interpretation plain: identity rfc_engine plain_ed plain_genuine
  by unfold_locales (simp_all add: plain_ed_def plain_genuine_def)

definition plain_ssh :: "(bytes32, bytes32, bytes32 \<times> bytes32, unit) ssh_ops" where
  "plain_ssh =
     \<lparr>ssh_of_keypair = (\<lambda>kp. (kp_public kp, kp_secret kp)),
      ssh_to_keypair = (\<lambda>(p, s). Inr \<lparr>kp_public = p, kp_secret = s\<rparr>),
      ssh_to_openssh = (\<lambda>d. case d of
         SshOther \<Rightarrow> Inl ()
       | SshEd25519 (p, s) \<Rightarrow> Inr (base64url_encode (bytes_of p @ bytes_of s))),
      ssh_from_openssh = (\<lambda>bs. case base64url_decode (bytes_str bs) of
         None \<Rightarrow> Inl ()
       | Some v \<Rightarrow> (case (bytes32_try_from (take 32 v), bytes32_try_from (drop 32 v)) of
             (Some p, Some s) \<Rightarrow> Inr (SshEd25519 (p, s))
           | _ \<Rightarrow> Inl ()))\<rparr>"

interpretation plain_ssh: openssh plain_ssh
  by unfold_locales (auto simp: plain_ssh_def split: ssh_key_data.splits)

end
