(* ===== verification/Provider.thy ===== *)
theory Provider
  imports Protocol Identity "HOL-Library.AList"
begin

text \<open>
  \<^verbatim>\<open>src/provider.rs\<close>, first part: the database of content-addressed data, its
  creation from files. The tree hashing of the crates abao and blake3
  is the parameter \<open>bao\<close>, the file system the parameter \<open>fs\<close>.
\<close>

section \<open>Parameters\<close>

text \<open>
  \<open>bao_finalize\<close> is \<^verbatim>\<open>Encoder::new_outboard\<close> fed with a whole input and then
  \<^verbatim>\<open>finalize\<close>d, \<open>bao_outboard\<close> is \<^verbatim>\<open>encode::outboard\<close>; \<open>bao_slice\<close> is what a
  \<^verbatim>\<open>SliceExtractor\<close> yields over a data source and an outboard: the bytes it produces and
  the error that stops it, if one does.
\<close>

record bao_ops =
  bao_outboard_size :: "u64 \<Rightarrow> nat"
  bao_encoded_size :: "u64 \<Rightarrow> nat"
  bao_finalize :: "bytes \<Rightarrow> io_error + bytes \<times> bytes32"
  bao_outboard :: "bytes \<Rightarrow> bytes \<times> bytes32"
  bao_slice :: "(io_error + bytes) \<Rightarrow> bytes \<Rightarrow> u64 \<Rightarrow> u64 \<Rightarrow> bytes \<times> io_error option"

text \<open>An open file: what its metadata says and what reading it gives.\<close>

record open_file =
  file_len :: "io_error + u64"
  file_read :: "io_error + bytes"

record fs_ops =
  fs_is_file :: "path \<Rightarrow> bool"
  fs_open :: "path \<Rightarrow> io_error + open_file"

section \<open>The database\<close>

record data =
  data_outboard :: bytes
  data_path :: path
  data_size :: u64

datatype blob_or_collection = Blob data | Collection bytes bytes

type_synonym database = "(hash \<times> blob_or_collection) list"

definition database_get :: "database \<Rightarrow> hash \<Rightarrow> blob_or_collection option" where
  "database_get db key = map_of db key"

definition database_insert :: "database \<Rightarrow> hash \<Rightarrow> blob_or_collection \<Rightarrow> database" where
  "database_insert db key v = AList.update key v db"

fun database_blobs :: "database \<Rightarrow> (hash \<times> path \<times> u64) list" where
  "database_blobs [] = []"
| "database_blobs ((k, Blob d) # db) = (k, data_path d, data_size d) # database_blobs db"
| "database_blobs ((k, Collection ob d) # db) = database_blobs db"

text \<open>The interface of the map that the collection builder and the server rely on.\<close>

locale hash_map =
  fixes get :: "'m \<Rightarrow> 'k \<Rightarrow> 'v option"
    and insert :: "'m \<Rightarrow> 'k \<Rightarrow> 'v \<Rightarrow> 'm"
  assumes get_insert: "get (insert m k v) k' = (if k' = k then Some v else get m k')"
begin

definition insert_all :: "'m \<Rightarrow> ('k \<times> 'v) list \<Rightarrow> 'm" where
  "insert_all m kvs = foldl (\<lambda>m (k, v). insert m k v) m kvs"

lemma insert_all_simps [simp]:
  "insert_all m [] = m"
  "insert_all m ((k, v) # kvs) = insert_all (insert m k v) kvs"
  by (simp_all add: insert_all_def)

lemma get_insert_all_other: "k \<notin> fst ` set kvs \<Longrightarrow> get (insert_all m kvs) k = get m k"
  by (induction kvs arbitrary: m) (auto simp: get_insert)

lemma get_insert_all: "k \<in> fst ` set kvs \<Longrightarrow> \<exists>v. (k, v) \<in> set kvs \<and> get (insert_all m kvs) k = Some v"
proof (induction kvs arbitrary: m)
  case (Cons kv kvs)
  obtain k0 v0 where kv: "kv = (k0, v0)" by fastforce
  show ?case
  proof (cases "k \<in> fst ` set kvs")
    case True
    then show ?thesis using Cons.IH [of "insert m k0 v0"] kv by auto
  next
    case False
    with Cons.prems kv show ?thesis by (simp add: get_insert_all_other get_insert)
  qed
qed simp

end

interpretation database: hash_map database_get database_insert
  by unfold_locales (simp add: database_get_def database_insert_def update_conv)

text \<open>A database's keys are distinct: inserting replaces.\<close>

definition database_ok :: "database \<Rightarrow> bool" where
  "database_ok db \<longleftrightarrow> distinct (map fst db)"

lemma database_insert_ok: "database_ok db \<Longrightarrow> database_ok (database_insert db k v)"
  by (simp add: database_ok_def database_insert_def distinct_update)

lemma database_blobs_iff:
  "database_ok db \<Longrightarrow>
   (k, p, n) \<in> set (database_blobs db) \<longleftrightarrow>
   (\<exists>d. database_get db k = Some (Blob d) \<and> data_path d = p \<and> data_size d = n)"
proof (induction db rule: database_blobs.induct)
  case (2 k' d db)
  then have "database_get db k' = None"
    by (simp add: database_get_def database_ok_def map_of_eq_None_iff)
  with 2 show ?case by (auto simp: database_get_def database_ok_def)
next
  case (3 k' ob d db)
  then have "database_get db k' = None"
    by (simp add: database_get_def database_ok_def map_of_eq_None_iff)
  with 3 show ?case by (auto simp: database_get_def database_ok_def)
qed (simp add: database_get_def)

section \<open>Data sources and their outboards\<close>

datatype data_source = File path | NamedFile path string

definition data_source_new :: "path \<Rightarrow> data_source" where
  "data_source_new p = File p"

text \<open>The conversions from a \<^verbatim>\<open>PathBuf\<close> and from a \<^verbatim>\<open>Path\<close>.\<close>

definition data_source_from :: "path \<Rightarrow> data_source" where
  [simp]: "data_source_from p = data_source_new p"

definition data_source_with_name :: "path \<Rightarrow> string \<Rightarrow> data_source" where
  "data_source_with_name p n = NamedFile p n"

datatype provide_error =
    NotAFile path
  | ProvideIo io_error
  | OutboardTooLarge
  | FileChanged
  | TaskFailed
  | SerializeError postcard_error

type_synonym outboard_result = "path \<times> string option \<times> hash \<times> bytes"

definition compute_outboard ::
    "bao_ops \<Rightarrow> fs_ops \<Rightarrow> path \<Rightarrow> string option \<Rightarrow> (outboard_result, provide_error) outcome" where
  "compute_outboard bao fs p name =
     and_then (ensure (fs_is_file fs p) (NotAFile p)) (\<lambda>_.
     and_then (of_sum ProvideIo (fs_open fs p)) (\<lambda>file.
     and_then (of_sum ProvideIo (file_len file)) (\<lambda>len1.
     and_then (ensure (bao_outboard_size bao len1 < 2 ^ 64) OutboardTooLarge) (\<lambda>_.
     and_then (of_sum ProvideIo (file_read file)) (\<lambda>contents.
     let len2 = of_nat (length contents) in
     and_then (ensure (len1 = len2) FileChanged) (\<lambda>_.
     and_then (of_sum ProvideIo (bao_finalize bao contents)) (\<lambda>(outboard, h).
     Ok (p, name, Hash h, outboard))))))))"

definition source_outboard ::
    "bao_ops \<Rightarrow> fs_ops \<Rightarrow> data_source \<Rightarrow> (outboard_result, provide_error) outcome" where
  "source_outboard bao fs src =
     (case src of
        File p \<Rightarrow> compute_outboard bao fs p None
      | NamedFile p n \<Rightarrow> compute_outboard bao fs p (Some n))"

text \<open>
  \<^verbatim>\<open>join_all\<close> and \<^verbatim>\<open>collect\<close>: all results in the order of the sources, or the first
  failure; a task that panics is a \<^verbatim>\<open>JoinError\<close>.
\<close>

fun collect_results :: "('a, provide_error) outcome list \<Rightarrow> ('a list, provide_error) outcome" where
  "collect_results [] = Ok []"
| "collect_results (Panic p # rs) = Err TaskFailed"
| "collect_results (Err e # rs) = Err e"
| "collect_results (Ok x # rs) = and_then (collect_results rs) (\<lambda>xs. Ok (x # xs))"

lemma collect_results_Ok: "collect_results rs = Ok xs \<longleftrightarrow> rs = map Ok xs"
  by (induction rs arbitrary: xs rule: collect_results.induct) (auto simp: and_then_eq_Ok)

section \<open>Building a collection\<close>

record building =
  b_db :: database
  b_blobs :: "blob list"
  b_total :: u64
  b_estimate :: nat

definition building_new :: building where
  "building_new = \<lparr>b_db = [], b_blobs = [], b_total = 0, b_estimate = 0\<rparr>"

text \<open>The name of a blob: the given one, else the file name as text, else nothing.\<close>

definition source_name :: "path \<Rightarrow> string option \<Rightarrow> string" where
  "source_name p name =
     (case name of
        Some n \<Rightarrow> n
      | None \<Rightarrow> (case Option.bind (path_file_name p) os_to_str of Some n \<Rightarrow> n | None \<Rightarrow> ''''))"

definition insert_outboard ::
    "bool \<Rightarrow> outboard_result \<Rightarrow> building \<Rightarrow> (building, provide_error) outcome" where
  "insert_outboard checks out st =
     (case out of (p, name, h, outboard) \<Rightarrow>
        if checks \<and> length outboard < 8 then Panic AssertionFailed
        else
          and_then (slice_to outboard 8) (\<lambda>header.
          let sz = u64_from_le_bytes header;
              db' = database_insert (b_db st) h
                (Blob \<lparr>data_outboard = outboard, data_path = p, data_size = sz\<rparr>)
          in
          and_then (add_u64 checks (b_total st) sz) (\<lambda>total.
          let n = source_name p name in
          Ok \<lparr>b_db = db', b_blobs = b_blobs st @ [\<lparr>blob_name = n, blob_hash = h\<rparr>],
              b_total = total, b_estimate = b_estimate st + (length n + 32)\<rparr>)))"

fun insert_outboards ::
    "bool \<Rightarrow> outboard_result list \<Rightarrow> building \<Rightarrow> (building, provide_error) outcome" where
  "insert_outboards checks [] st = Ok st"
| "insert_outboards checks (out # outs) st =
     and_then (insert_outboard checks out st) (insert_outboards checks outs)"

definition create_collection ::
    "bool \<Rightarrow> format \<Rightarrow> bao_ops \<Rightarrow> fs_ops \<Rightarrow> data_source list \<Rightarrow> (database \<times> hash, provide_error) outcome" where
  "create_collection checks fmt bao fs sources =
     and_then (collect_results (map (source_outboard bao fs) sources)) (\<lambda>outboards.
     and_then (insert_outboards checks outboards building_new) (\<lambda>st.
     let c = \<lparr>coll_name = ''collection'', coll_blobs = b_blobs st, coll_total_blobs_size = b_total st\<rparr>;
         estimate = b_estimate st + length (coll_name c);
         buffer = replicate (estimate + 1024) 0
     in
     and_then (map_err SerializeError (to_slice (put_collection fmt c) buffer)) (\<lambda>(data, _).
     let (outboard, h) = bao_outboard bao data in
     Ok (database_insert (b_db st) (Hash h) (Collection outboard data), Hash h))))"

section \<open>What building leaves behind\<close>

abbreviation out_hash :: "outboard_result \<Rightarrow> hash" where
  "out_hash out \<equiv> fst (snd (snd out))"

abbreviation out_outboard :: "outboard_result \<Rightarrow> bytes" where
  "out_outboard out \<equiv> snd (snd (snd out))"

definition out_blob :: "outboard_result \<Rightarrow> blob" where
  "out_blob out = \<lparr>blob_name = source_name (fst out) (fst (snd out)), blob_hash = out_hash out\<rparr>"

definition out_size :: "outboard_result \<Rightarrow> u64" where
  "out_size out = u64_from_le_bytes (take 8 (out_outboard out))"

definition out_entry :: "outboard_result \<Rightarrow> hash \<times> blob_or_collection" where
  "out_entry out =
     (out_hash out,
      Blob \<lparr>data_outboard = out_outboard out, data_path = fst out, data_size = out_size out\<rparr>)"

lemma insert_outboard_Ok:
  assumes "insert_outboard checks out st = Ok st'"
  shows "b_db st' = database_insert (b_db st) (out_hash out) (snd (out_entry out))"
    and "b_blobs st' = b_blobs st @ [out_blob out]"
    and "b_total st' = b_total st + out_size out"
    and "b_estimate st' = b_estimate st + (length (blob_name (out_blob out)) + 32)"
    and "checks \<longrightarrow> unat (b_total st) + unat (out_size out) < 2 ^ 64"
    and "8 \<le> length (out_outboard out)"
  using assms
  by (auto simp: insert_outboard_def out_blob_def out_entry_def out_size_def slice_to_def add_u64_def
      Let_def split: prod.splits if_splits)

lemma insert_outboards_Ok:
  assumes "insert_outboards checks outs st = Ok st'"
  shows "b_db st' = database.insert_all (b_db st) (map out_entry outs)
    \<and> b_blobs st' = b_blobs st @ map out_blob outs
    \<and> b_total st' = b_total st + sum_list (map out_size outs)
    \<and> b_estimate st' = b_estimate st + (\<Sum>b\<leftarrow>map out_blob outs. length (blob_name b) + 32)"
  using assms
proof (induction outs arbitrary: st)
  case (Cons out outs)
  then obtain st1 where 1: "insert_outboard checks out st = Ok st1"
    and 2: "insert_outboards checks outs st1 = Ok st'"
    by (auto simp: and_then_eq_Ok)
  have "out_entry out = (out_hash out, snd (out_entry out))" by (simp add: out_entry_def)
  then show ?case using Cons.IH [OF 2] insert_outboard_Ok [OF 1]
    by (metis (no_types, lifting) add.assoc append.assoc append_Cons append_Nil
        database.insert_all_simps(2) list.simps(9) sum_list.Cons)
qed simp

lemma insert_outboards_exact:
  assumes "insert_outboards True outs st = Ok st'"
  shows "unat (b_total st') = unat (b_total st) + (\<Sum>out\<leftarrow>outs. unat (out_size out))"
  using assms
proof (induction outs arbitrary: st)
  case (Cons out outs)
  then obtain st1 where 1: "insert_outboard True out st = Ok st1"
    and 2: "insert_outboards True outs st1 = Ok st'"
    by (auto simp: and_then_eq_Ok)
  have "unat (b_total st1) = unat (b_total st) + unat (out_size out)"
    using insert_outboard_Ok(3,5) [OF 1] by (simp add: unat_word_ariths)
  then show ?case using Cons.IH [OF 2] by simp
qed simp

lemma database_ok_insert_all: "database_ok db \<Longrightarrow> database_ok (database.insert_all db kvs)"
  by (induction kvs arbitrary: db) (auto simp: database_insert_ok)

definition collection_of :: "outboard_result list \<Rightarrow> collection" where
  "collection_of outs =
     \<lparr>coll_name = ''collection'', coll_blobs = map out_blob outs,
      coll_total_blobs_size = sum_list (map out_size outs)\<rparr>"

lemma collection_of_sel [simp]:
  "coll_name (collection_of outs) = ''collection''"
  "coll_blobs (collection_of outs) = map out_blob outs"
  "coll_total_blobs_size (collection_of outs) = sum_list (map out_size outs)"
  by (simp_all add: collection_of_def)

definition database_of :: "format \<Rightarrow> outboard_result list \<Rightarrow> hash \<Rightarrow> bytes \<Rightarrow> database" where
  "database_of fmt outs h ob =
     database_insert (database.insert_all [] (map out_entry outs)) h
       (Collection ob (put_collection fmt (collection_of outs)))"

lemma create_collection_Ok:
  assumes "create_collection checks fmt bao fs sources = Ok (db, h)"
  obtains outs st ob where "map (source_outboard bao fs) sources = map Ok outs"
    and "insert_outboards checks outs building_new = Ok st"
    and "length (put_collection fmt (collection_of outs))
      \<le> (\<Sum>out\<leftarrow>outs. length (blob_name (out_blob out)) + 32) + 1034"
    and "bao_outboard bao (put_collection fmt (collection_of outs)) = (ob, hash_as_bytes h)"
    and "db = database_of fmt outs h ob"
proof -
  from assms obtain outs st where 1: "collect_results (map (source_outboard bao fs) sources) = Ok outs"
    and 2: "insert_outboards checks outs building_new = Ok st"
    by (auto simp: create_collection_def and_then_eq_Ok)
  from insert_outboards_Ok [OF 2] have st: "b_db st = database.insert_all [] (map out_entry outs)"
      "\<lparr>coll_name = ''collection'', coll_blobs = b_blobs st, coll_total_blobs_size = b_total st\<rparr> = collection_of outs"
      "b_estimate st = (\<Sum>out\<leftarrow>outs. length (blob_name (out_blob out)) + 32)"
    by (auto simp: building_new_def collection_of_def comp_def)
  define ser where "ser = put_collection fmt (collection_of outs)"
  obtain ob hb where ob: "bao_outboard bao ser = (ob, hb)" by fastforce
  have "length ser \<le> (\<Sum>out\<leftarrow>outs. length (blob_name (out_blob out)) + 32) + 1034
      \<and> Hash hb = h \<and> database_insert (b_db st) h (Collection ob ser) = db"
    using assms unfolding create_collection_def 1 and_then.simps 2 st Let_def ser_def [symmetric]
    by (auto simp: and_then_eq_Ok to_slice_def ob split: if_splits)
  then have len: "length ser \<le> (\<Sum>out\<leftarrow>outs. length (blob_name (out_blob out)) + 32) + 1034"
    and h: "hash_as_bytes h = hb" and db: "db = database_insert (b_db st) h (Collection ob ser)"
    by auto
  show thesis
  proof (rule that [of outs st ob])
    show "db = database_of fmt outs h ob" by (simp add: db st(1) database_of_def ser_def)
  qed (use 1 2 len ob h in \<open>simp_all add: collect_results_Ok ser_def\<close>)
qed

lemma database_of_get: "database_get (database_of fmt outs h ob) h = Some (Collection ob (put_collection fmt (collection_of outs)))"
  by (simp add: database_of_def database.get_insert)

lemma database_of_get_blob:
  assumes "out \<in> set outs" and "out_hash out \<noteq> h"
  shows "\<exists>out' \<in> set outs. out_hash out' = out_hash out
    \<and> database_get (database_of fmt outs h ob) (out_hash out) = Some (snd (out_entry out'))"
proof -
  from assms(1) have "out_hash out \<in> fst ` set (map out_entry outs)"
    by (force simp: out_entry_def)
  from database.get_insert_all [OF this, of "[]"] obtain v
    where v: "(out_hash out, v) \<in> out_entry ` set outs"
      "database_get (database.insert_all [] (map out_entry outs)) (out_hash out) = Some v"
    by auto
  then obtain out' where "out' \<in> set outs" "out_entry out' = (out_hash out, v)" by auto
  moreover have "fst (out_entry out') = out_hash out'" by (simp add: out_entry_def)
  ultimately show ?thesis using v(2) assms(2)
    by (intro bexI [of _ out']) (simp_all add: database_of_def database.get_insert)
qed

lemma database_of_ok: "database_ok (database_of fmt outs h ob)"
  unfolding database_of_def
  by (intro database_insert_ok database_ok_insert_all) (simp add: database_ok_def)

lemma create_collection_few:
  assumes "postcard fmt" and "create_collection checks fmt bao fs sources = Ok (db, h)"
  shows "length sources < 512"
proof (rule ccontr)
  assume many: "\<not> length sources < 512"
  from assms(2) obtain outs where outs: "map (source_outboard bao fs) sources = map Ok outs"
    and le: "length (put_collection fmt (collection_of outs))
      \<le> (\<Sum>out\<leftarrow>outs. length (blob_name (out_blob out)) + 32) + 1034"
    by (rule create_collection_Ok)
  from outs have len: "length outs = length sources" by (metis length_map)
  have "length ''collection'' < length (put_str fmt ''collection'')"
    by (rule postcard.size_str [OF assms(1)])
  moreover have "(\<Sum>out\<leftarrow>outs. length (blob_name (out_blob out)) + 34)
      \<le> length (concat (map (put_blob fmt) (map out_blob outs)))"
    using postcard.length_put_blobs [OF assms(1), of "map out_blob outs"] by (simp add: comp_def)
  ultimately have "(\<Sum>out\<leftarrow>outs. length (blob_name (out_blob out)) + 34) + 11
      \<le> length (put_collection fmt (collection_of outs))"
    by (simp add: put_collection_def put_vec_def)
  moreover have "(\<Sum>out\<leftarrow>outs. length (blob_name (out_blob out)) + 34)
      = (\<Sum>out\<leftarrow>outs. length (blob_name (out_blob out)) + 32) + 2 * length outs"
    by (induction outs) auto
  ultimately show False using le len many by linarith
qed

section \<open>Properties of collections\<close>


text \<open>
  The total size of a created collection is the sum of the sizes
  of its files as their outboards record them: exactly in a build with overflow checks,
  modulo \<open>2 ^ 64\<close> in one without.
\<close>

theorem create_collection_total:
  assumes "create_collection checks fmt bao fs sources = Ok (db, h)"
  shows "\<exists>c ob outs. database_get db h = Some (Collection ob (put_collection fmt c))
    \<and> map (source_outboard bao fs) sources = map Ok outs
    \<and> coll_total_blobs_size c = sum_list (map out_size outs)
    \<and> (checks \<longrightarrow> unat (coll_total_blobs_size c) = (\<Sum>out\<leftarrow>outs. unat (out_size out)))"
proof -
  from assms obtain outs st ob where outs: "map (source_outboard bao fs) sources = map Ok outs"
    and st: "insert_outboards checks outs building_new = Ok st"
    and db: "db = database_of fmt outs h ob"
    by (rule create_collection_Ok)
  have "unat (sum_list (map out_size outs)) = (\<Sum>out\<leftarrow>outs. unat (out_size out))" if checks
    using insert_outboards_exact [of outs building_new st] insert_outboards_Ok [OF st] st that
    by (simp add: building_new_def)
  with outs database_of_get [of fmt outs h ob] show ?thesis
    by (intro exI [of _ "collection_of outs"] exI [of _ ob] exI [of _ outs]) (simp add: db)
qed

text \<open>
  C27: the buffer for the encoded collection allows for 1024
  bytes beyond names and hashes, and every blob takes two of them (the length of its name
  and of its hash): a collection of 512 or more files cannot be created, whatever the files.
\<close>

theorem create_collection_too_many:
  assumes "postcard fmt" and "512 \<le> length sources"
  shows "create_collection checks fmt bao fs sources \<noteq> Ok (db, h)"
  using assms(2) create_collection_few [OF assms(1)] by (metis not_le)

lemma database_blobs_keys: "fst ` set (database_blobs db) \<subseteq> fst ` set db"
  by (induction db rule: database_blobs.induct) auto

lemma database_blobs_distinct: "database_ok db \<Longrightarrow> distinct (map fst (database_blobs db))"
  by (induction db rule: database_blobs.induct)
    (use database_blobs_keys in \<open>auto simp: database_ok_def\<close>)

text \<open>
  What \<^verbatim>\<open>Database::blobs\<close> lists of a created collection's database is
  exactly its single blobs, each under its hash with the path and size of a source; the
  collection itself is not listed, and no hash twice.
\<close>

theorem database_listing:
  assumes "create_collection checks fmt bao fs sources = Ok (db, h)"
  shows "((k, p, n) \<in> set (database_blobs db) \<longleftrightarrow>
      (\<exists>d. database_get db k = Some (Blob d) \<and> data_path d = p \<and> data_size d = n))
    \<and> distinct (map fst (database_blobs db)) \<and> h \<notin> fst ` set (database_blobs db)"
proof -
  from assms obtain outs ob where db: "db = database_of fmt outs h ob"
    by (rule create_collection_Ok)
  then have ok: "database_ok db" by (simp add: database_of_ok)
  have "h \<notin> fst ` set (database_blobs db)"
    using database_blobs_iff [OF ok, of h] by (auto simp: db database_of_get)
  with database_blobs_iff [OF ok] database_blobs_distinct [OF ok] show ?thesis by blast
qed

end
