(* ===== verification/Serve.thy ===== *)
theory Serve
  imports Provider
begin

text \<open>
  \<^verbatim>\<open>src/provider.rs\<close>, second part: what the provider does with one stream. The reading
  phase works on a reader and a buffer (\<open>rx\<close>), the writing phase on a writer and a buffer
  (\<open>tx\<close>); the events are the values sent to the broadcast channel, in order.
\<close>

section \<open>Events and writing state\<close>

datatype event =
    EvClientConnected u64
  | EvRequestReceived u64 u64 hash
  | EvTransferCompleted u64 u64
  | EvTransferAborted u64 "u64 option"

definition notify_transfer_aborted :: "event list \<Rightarrow> u64 \<Rightarrow> u64 option \<Rightarrow> event list" where
  "notify_transfer_aborted events cid rid = events @ [EvTransferAborted cid rid]"

record 'w tx =
  tx_writer :: 'w
  tx_buffer :: bytes

definition on_writer :: "('w, 'a, error) io \<Rightarrow> ('w tx, 'a, error) io" where
  "on_writer m tx = (case m (tx_writer tx) of (r, w) \<Rightarrow> (r, tx\<lparr>tx_writer := w\<rparr>))"

section \<open>Reading the handshake and the request\<close>

definition read_handshake ::
    "'s recv_ops \<Rightarrow> format \<Rightarrow> auth_token \<Rightarrow> ('s rx, unit, error) io" where
  "read_handshake ro fmt token =
     io_bind (read_lp ro (get_handshake fmt)) (\<lambda>msg.
     case msg of
       Some (h, sz) \<Rightarrow>
         io_bind (io_ensure (hs_version h = VERSION) (VersionMismatch (hs_version h))) (\<lambda>_.
         io_bind (io_ensure (hs_token h = token) TokenMismatch) (\<lambda>_ rx.
         case split_to (rx_buffer rx) sz of
           Ok (_, rest_buf) \<Rightarrow> (Ok (), rx\<lparr>rx_buffer := rest_buf\<rparr>)
         | Err e \<Rightarrow> (Err e, rx)
         | Panic p \<Rightarrow> (Panic p, rx)))
     | None \<Rightarrow> io_throw NoHandshake)"

definition read_request :: "'s recv_ops \<Rightarrow> format \<Rightarrow> ('s rx, request, error) io" where
  "read_request ro fmt =
     io_bind (read_lp ro (get_request fmt)) (\<lambda>request rx.
     case recv_chunk ro (rx_reader rx) 8 of
       (Inl e, s') \<Rightarrow> (Err (IoError e), rx\<lparr>rx_reader := s'\<rparr>)
     | (Inr (Some chunk), s') \<Rightarrow> (Err ExtraDataPastRequest, rx\<lparr>rx_reader := s'\<rparr>)
     | (Inr None, s') \<Rightarrow>
         (case request of
            Some (q, sz) \<Rightarrow> (Ok q, rx\<lparr>rx_reader := s'\<rparr>)
          | None \<Rightarrow> (Err NoRequest, rx\<lparr>rx_reader := s'\<rparr>)))"

section \<open>Writing responses and blobs\<close>

definition grow_buffer :: "bytes \<Rightarrow> bytes" where
  "grow_buffer buf = (if length buf < 1024 then buf @ replicate (1024 - length buf) 0 else buf)"

definition write_response ::
    "'w send_ops \<Rightarrow> format \<Rightarrow> u64 \<Rightarrow> res \<Rightarrow> ('w tx, unit, error) io" where
  "write_response wo fmt rid r tx =
     (let buf = grow_buffer (tx_buffer tx)
      in case to_slice (put_response fmt \<lparr>resp_id = rid, resp_data = r\<rparr>) buf of
           Ok (used, buf') \<Rightarrow> on_writer (write_lp wo used) (tx\<lparr>tx_buffer := buf'\<rparr>)
         | Err e \<Rightarrow> (Err (PostcardError e), tx\<lparr>tx_buffer := buf\<rparr>)
         | Panic p \<Rightarrow> (Panic p, tx\<lparr>tx_buffer := buf\<rparr>))"

datatype sent_status = Sent | SentNotFound

definition finish :: "'w send_ops \<Rightarrow> ('w tx, unit, error) io" where
  "finish wo = on_writer (io_await (send_finish wo))"

definition send_blob ::
    "'w send_ops \<Rightarrow> format \<Rightarrow> bao_ops \<Rightarrow> fs_ops \<Rightarrow> database \<Rightarrow> hash \<Rightarrow> u64
       \<Rightarrow> ('w tx, sent_status, error) io" where
  "send_blob wo fmt bao fs db name rid =
     (case database_get db name of
        Some (Blob d) \<Rightarrow>
          io_bind (write_response wo fmt rid Found) (\<lambda>_.
          case fs_open fs (data_path d) of
            Inl e \<Rightarrow> io_throw (IoError e)
          | Inr file \<Rightarrow>
              (case bao_slice bao (file_read file) (data_outboard d) 0 (data_size d) of
                 (produced, stopped) \<Rightarrow>
                   io_bind (on_writer (io_await (\<lambda>w. send_all wo w produced))) (\<lambda>_.
                   case stopped of Some e \<Rightarrow> io_throw (IoError e) | None \<Rightarrow> io_ret Sent)))
      | _ \<Rightarrow>
          io_bind (write_response wo fmt rid NotFound) (\<lambda>_. io_ret SentNotFound))"

fun send_blobs ::
    "'w send_ops \<Rightarrow> format \<Rightarrow> bao_ops \<Rightarrow> fs_ops \<Rightarrow> database \<Rightarrow> u64 \<Rightarrow> blob list
       \<Rightarrow> ('w tx, sent_status, error) io" where
  "send_blobs wo fmt bao fs db rid [] = io_ret Sent"
| "send_blobs wo fmt bao fs db rid (b # bs) =
     io_bind (send_blob wo fmt bao fs db (blob_hash b) rid) (\<lambda>status.
       if status = SentNotFound then
         io_bind (write_response wo fmt rid NotFound) (\<lambda>_.
         io_bind (finish wo) (\<lambda>_. io_ret status))
       else send_blobs wo fmt bao fs db rid bs)"

definition transfer_collection ::
    "'w send_ops \<Rightarrow> format \<Rightarrow> bao_ops \<Rightarrow> fs_ops \<Rightarrow> database \<Rightarrow> u64 \<Rightarrow> bytes \<Rightarrow> bytes
       \<Rightarrow> ('w tx, sent_status, error) io" where
  "transfer_collection wo fmt bao fs db rid outboard data =
     (if 2 ^ 64 \<le> bao_encoded_size bao (of_nat (length data)) then io_panic UnwrapFailed
      else case bao_slice bao (Inr data) outboard 0 (of_nat (length data)) of
        (encoded, Some e) \<Rightarrow> io_throw (IoError e)
      | (encoded, None) \<Rightarrow>
          io_bind (io_lift (map_err PostcardError (from_bytes (get_collection fmt) data))) (\<lambda>c.
          io_bind (write_response wo fmt rid (FoundCollection (coll_total_blobs_size c))) (\<lambda>_.
          io_bind (on_writer (io_await (\<lambda>w. send_buf wo w encoded))) (\<lambda>_.
          io_bind (send_blobs wo fmt bao fs db rid (coll_blobs c)) (\<lambda>status.
          if status = SentNotFound then io_ret status
          else io_bind (finish wo) (\<lambda>_. io_ret Sent))))))"

section \<open>One stream\<close>

definition handle_stream ::
    "'s recv_ops \<Rightarrow> 'w send_ops \<Rightarrow> format \<Rightarrow> bao_ops \<Rightarrow> fs_ops \<Rightarrow> database \<Rightarrow> auth_token \<Rightarrow> u64
       \<Rightarrow> 's \<Rightarrow> 'w \<Rightarrow> (unit, error) outcome \<times> 'w tx \<times> event list" where
  "handle_stream ro wo fmt bao fs db token cid s w =
     (let tx0 = \<lparr>tx_writer = w, tx_buffer = []\<rparr> in
      case read_handshake ro fmt token \<lparr>rx_reader = s, rx_buffer = []\<rparr> of
        (Err e, rx1) \<Rightarrow> (Err e, tx0, notify_transfer_aborted [] cid None)
      | (Panic p, rx1) \<Rightarrow> (Panic p, tx0, [])
      | (Ok _, rx1) \<Rightarrow>
          (case read_request ro fmt rx1 of
             (Err e, rx2) \<Rightarrow> (Err e, tx0, notify_transfer_aborted [] cid None)
           | (Panic p, rx2) \<Rightarrow> (Panic p, tx0, [])
           | (Ok request, rx2) \<Rightarrow>
               (let rid = req_id request;
                    events = [EvRequestReceived cid rid (req_name request)]
                in case database_get db (req_name request) of
                  Some (Collection outboard data) \<Rightarrow>
                    (case transfer_collection wo fmt bao fs db rid outboard data tx0 of
                       (Ok Sent, tx) \<Rightarrow> (Ok (), tx, events @ [EvTransferCompleted cid rid])
                     | (Ok SentNotFound, tx) \<Rightarrow> (Ok (), tx, notify_transfer_aborted events cid (Some rid))
                     | (Err e, tx) \<Rightarrow> (Err e, tx, notify_transfer_aborted events cid (Some rid))
                     | (Panic p, tx) \<Rightarrow> (Panic p, tx, events))
                | _ \<Rightarrow>
                    (case io_bind (write_response wo fmt rid NotFound) (\<lambda>_. finish wo) tx0 of
                       (r, tx) \<Rightarrow> (r, tx, notify_transfer_aborted events cid (Some rid))))))"

section \<open>What is written\<close>

definition response_bytes :: "format \<Rightarrow> u64 \<Rightarrow> res \<Rightarrow> bytes" where
  "response_bytes fmt rid r = frame (put_response fmt \<lparr>resp_id = rid, resp_data = r\<rparr>)"

lemma grow_buffer_length: "1024 \<le> length (grow_buffer buf)" "length buf \<le> length (grow_buffer buf)"
  by (auto simp: grow_buffer_def)

lemma response_fits:
  "postcard fmt \<Longrightarrow>
   \<exists>buf'. to_slice (put_response fmt p) (grow_buffer buf) = Ok (put_response fmt p, buf')
     \<and> length buf' = length (grow_buffer buf)"
  using postcard.length_put_response [of fmt p] grow_buffer_length(1) [of buf]
  by (auto simp: to_slice_def)

text \<open>Writing a response to a sink: exactly its frame, and a buffer of at least 1024 bytes.\<close>

lemma write_response_ok:
  assumes "postcard fmt" and "byte_sink wo sent fin"
  shows "\<exists>w' buf'. write_response wo fmt rid r tx = (Ok (), \<lparr>tx_writer = w', tx_buffer = buf'\<rparr>)
    \<and> sent w' = sent (tx_writer tx) @ response_bytes fmt rid r \<and> 1024 \<le> length buf'"
proof -
  let ?p = "\<lparr>resp_id = rid, resp_data = r\<rparr>"
  obtain buf' where buf': "to_slice (put_response fmt ?p) (grow_buffer (tx_buffer tx)) = Ok (put_response fmt ?p, buf')"
      "length buf' = length (grow_buffer (tx_buffer tx))"
    using response_fits [OF assms(1)] by blast
  have "length (put_response fmt ?p) < MAX_MESSAGE_SIZE"
    using postcard.length_put_response [OF assms(1), of ?p] by (simp add: MAX_MESSAGE_SIZE_def)
  from byte_sink.write_lp_ok [OF assms(2) this, of "tx_writer tx"] obtain w' where
    "write_lp wo (put_response fmt ?p) (tx_writer tx) = (Ok (), w')"
    "sent w' = sent (tx_writer tx) @ response_bytes fmt rid r"
    by (auto simp: response_bytes_def)
  with buf' grow_buffer_length(1) [of "tx_buffer tx"] show ?thesis
    by (cases tx) (simp add: write_response_def Let_def on_writer_def)
qed

lemma finish_ok:
  assumes "byte_sink wo sent fin"
  shows "\<exists>w'. finish wo tx = (Ok (), tx\<lparr>tx_writer := w'\<rparr>) \<and> sent w' = sent (tx_writer tx) \<and> fin w'"
proof -
  obtain w' where "send_finish wo (tx_writer tx) = (Inr (), w')" "sent w' = sent (tx_writer tx)" "fin w'"
    using byte_sink.send_finish_ok [OF assms] by blast
  then show ?thesis by (intro exI [of _ w']) (simp add: finish_def on_writer_def)
qed

section \<open>The transfer, as bytes\<close>

text \<open>
  The abstract view of a transfer: the slice of a blob that the database has and the file
  system can read, and the bytes that the blobs of a collection put on the wire. \<open>None\<close>
  is a blob whose file cannot be read to the end.
\<close>

definition blob_slice :: "bao_ops \<Rightarrow> fs_ops \<Rightarrow> data \<Rightarrow> bytes option" where
  "blob_slice bao fs d =
     (case fs_open fs (data_path d) of
        Inl e \<Rightarrow> None
      | Inr file \<Rightarrow>
          (case bao_slice bao (file_read file) (data_outboard d) 0 (data_size d) of
             (produced, None) \<Rightarrow> Some produced
           | (produced, Some e) \<Rightarrow> None))"

fun blobs_wire ::
    "format \<Rightarrow> bao_ops \<Rightarrow> fs_ops \<Rightarrow> database \<Rightarrow> u64 \<Rightarrow> blob list \<Rightarrow> (bytes \<times> sent_status) option" where
  "blobs_wire fmt bao fs db rid [] = Some ([], Sent)"
| "blobs_wire fmt bao fs db rid (b # bs) =
     (case database_get db (blob_hash b) of
        Some (Blob d) \<Rightarrow>
          (case blob_slice bao fs d of
             None \<Rightarrow> None
           | Some enc \<Rightarrow>
               (case blobs_wire fmt bao fs db rid bs of
                  None \<Rightarrow> None
                | Some (out, status) \<Rightarrow> Some (response_bytes fmt rid Found @ enc @ out, status)))
      | _ \<Rightarrow> Some (response_bytes fmt rid NotFound @ response_bytes fmt rid NotFound, SentNotFound))"

lemma send_blob_found:
  assumes "postcard fmt" and "byte_sink wo sent fin"
    and "database_get db h = Some (Blob d)" and "blob_slice bao fs d = Some enc"
  shows "\<exists>w' buf'. send_blob wo fmt bao fs db h rid tx = (Ok Sent, \<lparr>tx_writer = w', tx_buffer = buf'\<rparr>)
    \<and> sent w' = sent (tx_writer tx) @ response_bytes fmt rid Found @ enc \<and> 1024 \<le> length buf'"
proof -
  obtain w1 buf' where w1: "write_response wo fmt rid Found tx = (Ok (), \<lparr>tx_writer = w1, tx_buffer = buf'\<rparr>)"
      "sent w1 = sent (tx_writer tx) @ response_bytes fmt rid Found" "1024 \<le> length buf'"
    using write_response_ok [OF assms(1,2)] by blast
  obtain w2 where w2: "send_all wo w1 enc = (Inr (), w2)" "sent w2 = sent w1 @ enc"
    using byte_sink.send_all_ok [OF assms(2)] by blast
  from assms(4) obtain f where "fs_open fs (data_path d) = Inr f"
      "bao_slice bao (file_read f) (data_outboard d) 0 (data_size d) = (enc, None)"
    by (auto simp: blob_slice_def split: sum.splits prod.splits option.splits)
  with w1 w2 assms(3) show ?thesis
    by (simp add: send_blob_def on_writer_def io_simps)
qed

lemma send_blob_missing:
  assumes "postcard fmt" and "byte_sink wo sent fin" and "\<nexists>d. database_get db h = Some (Blob d)"
  shows "\<exists>w' buf'. send_blob wo fmt bao fs db h rid tx = (Ok SentNotFound, \<lparr>tx_writer = w', tx_buffer = buf'\<rparr>)
    \<and> sent w' = sent (tx_writer tx) @ response_bytes fmt rid NotFound \<and> 1024 \<le> length buf'"
proof -
  obtain w1 buf' where "write_response wo fmt rid NotFound tx = (Ok (), \<lparr>tx_writer = w1, tx_buffer = buf'\<rparr>)"
      "sent w1 = sent (tx_writer tx) @ response_bytes fmt rid NotFound" "1024 \<le> length buf'"
    using write_response_ok [OF assms(1,2)] by blast
  then show ?thesis using assms(3)
    by (auto simp: send_blob_def io_simps split: option.splits blob_or_collection.splits)
qed

text \<open>The loop over the blobs writes what the abstract view says.\<close>

lemma blobs_wire_Cons_found:
  assumes "blobs_wire fmt bao fs db rid (b # bs) = Some (out, status)"
    and "database_get db (blob_hash b) = Some (Blob d)"
  obtains enc out' where "blob_slice bao fs d = Some enc"
    and "blobs_wire fmt bao fs db rid bs = Some (out', status)"
    and "out = response_bytes fmt rid Found @ enc @ out'"
  using assms by (auto split: option.splits)

lemma blobs_wire_Cons_missing:
  assumes "\<nexists>d. database_get db (blob_hash b) = Some (Blob d)"
  shows "blobs_wire fmt bao fs db rid (b # bs) =
    Some (response_bytes fmt rid NotFound @ response_bytes fmt rid NotFound, SentNotFound)"
  using assms by (auto split: option.splits blob_or_collection.splits)

lemma send_blobs_refines:
  assumes "postcard fmt" and "byte_sink wo sent fin"
    and "blobs_wire fmt bao fs db rid bs = Some (out, status)" and "1024 \<le> length (tx_buffer tx)"
  shows "\<exists>w' buf'. send_blobs wo fmt bao fs db rid bs tx = (Ok status, \<lparr>tx_writer = w', tx_buffer = buf'\<rparr>)
    \<and> sent w' = sent (tx_writer tx) @ out \<and> (status = SentNotFound \<longrightarrow> fin w') \<and> 1024 \<le> length buf'"
  using assms(3,4)
proof (induction bs arbitrary: tx out)
  case Nil
  then show ?case by (cases tx) (simp add: io_simps)
next
  case (Cons b bs)
  show ?case
  proof (cases "\<exists>d. database_get db (blob_hash b) = Some (Blob d)")
    case True
    then obtain d where d: "database_get db (blob_hash b) = Some (Blob d)" by blast
    with Cons.prems(1) obtain enc out' where enc: "blob_slice bao fs d = Some enc"
      and rest: "blobs_wire fmt bao fs db rid bs = Some (out', status)"
      and out: "out = response_bytes fmt rid Found @ enc @ out'"
      by (rule blobs_wire_Cons_found)
    obtain w1 buf1 where 1: "send_blob wo fmt bao fs db (blob_hash b) rid tx = (Ok Sent, \<lparr>tx_writer = w1, tx_buffer = buf1\<rparr>)"
        "sent w1 = sent (tx_writer tx) @ response_bytes fmt rid Found @ enc" "1024 \<le> length buf1"
      using send_blob_found [OF assms(1,2) d enc] by blast
    from Cons.IH [OF rest, of "\<lparr>tx_writer = w1, tx_buffer = buf1\<rparr>"] 1(3) obtain w2 buf2 where
      "send_blobs wo fmt bao fs db rid bs \<lparr>tx_writer = w1, tx_buffer = buf1\<rparr> =
         (Ok status, \<lparr>tx_writer = w2, tx_buffer = buf2\<rparr>)"
      "sent w2 = sent w1 @ out'" "status = SentNotFound \<longrightarrow> fin w2" "1024 \<le> length buf2"
      by auto
    with 1 out show ?thesis by simp
  next
    case False
    from Cons.prems(1) have out: "out = response_bytes fmt rid NotFound @ response_bytes fmt rid NotFound"
      and status: "status = SentNotFound"
      unfolding blobs_wire_Cons_missing [OF False] by auto
    obtain w1 buf1 where 1: "send_blob wo fmt bao fs db (blob_hash b) rid tx =
          (Ok SentNotFound, \<lparr>tx_writer = w1, tx_buffer = buf1\<rparr>)"
        "sent w1 = sent (tx_writer tx) @ response_bytes fmt rid NotFound"
      using send_blob_missing [OF assms(1,2) False] by blast
    obtain w2 buf2 where 2: "write_response wo fmt rid NotFound \<lparr>tx_writer = w1, tx_buffer = buf1\<rparr> =
          (Ok (), \<lparr>tx_writer = w2, tx_buffer = buf2\<rparr>)"
        "sent w2 = sent w1 @ response_bytes fmt rid NotFound" "1024 \<le> length buf2"
      using write_response_ok [OF assms(1,2), of rid NotFound "\<lparr>tx_writer = w1, tx_buffer = buf1\<rparr>"] by auto
    obtain w3 where 3: "finish wo \<lparr>tx_writer = w2, tx_buffer = buf2\<rparr> = (Ok (), \<lparr>tx_writer = w3, tx_buffer = buf2\<rparr>)"
        "sent w3 = sent w2" "fin w3"
      using finish_ok [OF assms(2), of "\<lparr>tx_writer = w2, tx_buffer = buf2\<rparr>"] by auto
    have "send_blobs wo fmt bao fs db rid (b # bs) tx =
        (Ok SentNotFound, \<lparr>tx_writer = w3, tx_buffer = buf2\<rparr>)"
      by (simp add: 1(1) 2(1) 3(1) io_ret_def)
    with 1 2 3 out status show ?thesis by simp
  qed
qed

definition collection_wire ::
    "format \<Rightarrow> bao_ops \<Rightarrow> fs_ops \<Rightarrow> database \<Rightarrow> u64 \<Rightarrow> bytes \<Rightarrow> collection \<Rightarrow> (bytes \<times> sent_status) option" where
  "collection_wire fmt bao fs db rid encoded c =
     map_option
       (\<lambda>(out, status).
         (response_bytes fmt rid (FoundCollection (coll_total_blobs_size c)) @ encoded @ out, status))
       (blobs_wire fmt bao fs db rid (coll_blobs c))"

lemma transfer_collection_refines:
  assumes "postcard fmt" and "eager_sink wo sent fin"
    and "bao_encoded_size bao (of_nat (length data)) < 2 ^ 64"
    and "bao_slice bao (Inr data) outboard 0 (of_nat (length data)) = (encoded, None)"
    and "from_bytes (get_collection fmt) data = Ok c"
    and "collection_wire fmt bao fs db rid encoded c = Some (out, status)"
  shows "\<exists>w' buf'. transfer_collection wo fmt bao fs db rid outboard data tx =
      (Ok status, \<lparr>tx_writer = w', tx_buffer = buf'\<rparr>)
    \<and> sent w' = sent (tx_writer tx) @ out \<and> fin w' \<and> 1024 \<le> length buf'"
proof -
  have sink: "byte_sink wo sent fin" using assms(2) by (simp add: eager_sink_def)
  from assms(6) obtain bout where bout: "blobs_wire fmt bao fs db rid (coll_blobs c) = Some (bout, status)"
    and out: "out = response_bytes fmt rid (FoundCollection (coll_total_blobs_size c)) @ encoded @ bout"
    by (auto simp: collection_wire_def)
  obtain w1 buf1 where 1: "write_response wo fmt rid (FoundCollection (coll_total_blobs_size c)) tx =
        (Ok (), \<lparr>tx_writer = w1, tx_buffer = buf1\<rparr>)"
      "sent w1 = sent (tx_writer tx) @ response_bytes fmt rid (FoundCollection (coll_total_blobs_size c))"
      "1024 \<le> length buf1"
    using write_response_ok [OF assms(1) sink] by blast
  obtain w2 where w2: "send_buf wo w1 encoded = (Inr (length encoded), w2)" "sent w2 = sent w1 @ encoded"
    using eager_sink.send_buf_all [OF assms(2)] by blast
  from send_blobs_refines [OF assms(1) sink bout, of "\<lparr>tx_writer = w2, tx_buffer = buf1\<rparr>"] 1(3)
  obtain w3 buf3 where 3: "send_blobs wo fmt bao fs db rid (coll_blobs c) \<lparr>tx_writer = w2, tx_buffer = buf1\<rparr> =
        (Ok status, \<lparr>tx_writer = w3, tx_buffer = buf3\<rparr>)"
      "sent w3 = sent w2 @ bout" "status = SentNotFound \<longrightarrow> fin w3" "1024 \<le> length buf3"
    by auto
  obtain w4 where 4: "finish wo \<lparr>tx_writer = w3, tx_buffer = buf3\<rparr> = (Ok (), \<lparr>tx_writer = w4, tx_buffer = buf3\<rparr>)"
      "sent w4 = sent w3" "fin w4"
    using finish_ok [OF sink, of "\<lparr>tx_writer = w3, tx_buffer = buf3\<rparr>"] by auto
  have buf: "on_writer (io_await (\<lambda>w. send_buf wo w encoded)) \<lparr>tx_writer = w1, tx_buffer = buf1\<rparr> =
      (Ok (length encoded), \<lparr>tx_writer = w2, tx_buffer = buf1\<rparr>)"
    using w2 by (simp add: on_writer_def)
  have "transfer_collection wo fmt bao fs db rid outboard data tx =
      (if status = SentNotFound then (Ok status, \<lparr>tx_writer = w3, tx_buffer = buf3\<rparr>)
       else (Ok Sent, \<lparr>tx_writer = w4, tx_buffer = buf3\<rparr>))"
    using assms(3-5)
    by (simp add: transfer_collection_def 1(1) buf
        3(1) 4(1) io_ret_def)
  with 1 w2 3 4 out show ?thesis by (cases status) auto
qed

section \<open>What is read\<close>

context byte_stream
begin

lemma read_handshake_frame:
  assumes "postcard fmt" and "rest s = frame (put_handshake fmt hs) @ rs"
  shows "\<exists>s'. read_handshake ops fmt token \<lparr>rx_reader = s, rx_buffer = []\<rparr> =
      (if hs_version hs \<noteq> VERSION then
         (Err (VersionMismatch (hs_version hs)), \<lparr>rx_reader = s', rx_buffer = put_handshake fmt hs\<rparr>)
       else if hs_token hs \<noteq> token then
         (Err TokenMismatch, \<lparr>rx_reader = s', rx_buffer = put_handshake fmt hs\<rparr>)
       else (Ok (), \<lparr>rx_reader = s', rx_buffer = []\<rparr>)) \<and> rest s' = rs"
proof -
  have len: "length (put_handshake fmt hs) < 2 ^ 64"
    using postcard.length_put_handshake [OF assms(1), of hs] by (simp add: handshake_max_size_def)
  have "get_handshake fmt (put_handshake fmt hs) = Some (hs, [])"
    using postcard.get_put_handshake [OF assms(1), of hs "[]"] by simp
  from read_lp_frame [where put = "put_handshake fmt" and x = hs and get = "get_handshake fmt", OF assms(2) len this] obtain s' where
    "read_lp ops (get_handshake fmt) \<lparr>rx_reader = s, rx_buffer = []\<rparr> =
       (Ok (Some (hs, length (put_handshake fmt hs))), \<lparr>rx_reader = s', rx_buffer = put_handshake fmt hs\<rparr>)"
    "rest s' = rs" by blast
  then show ?thesis
    by (intro exI [of _ s']) (simp add: read_handshake_def split_to_def)
qed

lemma read_request_frame:
  assumes "postcard fmt" and "rest s = frame (put_request fmt q) @ rs"
  shows "\<exists>s'. read_request ops fmt \<lparr>rx_reader = s, rx_buffer = []\<rparr> =
      (if rs = [] then Ok q else Err ExtraDataPastRequest, \<lparr>rx_reader = s', rx_buffer = put_request fmt q\<rparr>)"
proof -
  have len: "length (put_request fmt q) < 2 ^ 64"
    using postcard.length_put_request [OF assms(1), of q]
    by (simp add: request_max_size_def hash_postcard_max_size_def)
  have "get_request fmt (put_request fmt q) = Some (q, [])"
    using postcard.get_put_request [OF assms(1), of q "[]"] by simp
  from read_lp_frame [where put = "put_request fmt" and x = q and get = "get_request fmt", OF assms(2) len this] obtain s1 where
    1: "read_lp ops (get_request fmt) \<lparr>rx_reader = s, rx_buffer = []\<rparr> =
       (Ok (Some (q, length (put_request fmt q))), \<lparr>rx_reader = s1, rx_buffer = put_request fmt q\<rparr>)"
    "rest s1 = rs" by blast
  show ?thesis
  proof (cases "rs = []")
    case True
    with 1 recv_chunk_end [of s1 8] show ?thesis by (auto simp: read_request_def)
  next
    case False
    with 1 recv_chunk_more [of 8 s1] show ?thesis by (auto simp: read_request_def)
  qed
qed

end

end
