(* ===== verification/Ticket.thy ===== *)
theory Ticket
  imports Protocol Identity
begin

text \<open>
  \<^verbatim>\<open>src/provider.rs\<close>, tickets: everything a getter needs, in one piece of text. How a
  public key and a socket address are serialised is up to the crates that define those
  implementations: the parameter \<open>tc\<close>.
\<close>

section \<open>Socket addresses\<close>

datatype ip_addr = V4 "32 word" | V6 "128 word"

datatype socket_addr = SocketAddr ip_addr u16

section \<open>Tickets\<close>

record 'pk ticket =
  tk_hash :: hash
  tk_peer :: "'pk peer_id"
  tk_addr :: socket_addr
  tk_token :: auth_token

record 'pk ticket_codec =
  put_key :: "'pk \<Rightarrow> bytes"
  get_key :: "bytes \<Rightarrow> ('pk \<times> bytes) option"
  put_addr :: "socket_addr \<Rightarrow> bytes"
  get_addr :: "bytes \<Rightarrow> (socket_addr \<times> bytes) option"

definition put_ticket :: "format \<Rightarrow> 'pk ticket_codec \<Rightarrow> 'pk ticket \<Rightarrow> bytes" where
  "put_ticket fmt tc t =
     put_hash fmt (tk_hash t) @ put_key tc (peer_key (tk_peer t)) @ put_addr tc (tk_addr t)
       @ put_array32 fmt (token_bytes (tk_token t))"

definition get_ticket :: "format \<Rightarrow> 'pk ticket_codec \<Rightarrow> bytes \<Rightarrow> ('pk ticket \<times> bytes) option" where
  "get_ticket fmt tc bs =
     (case get_hash fmt bs of None \<Rightarrow> None
      | Some (h, r1) \<Rightarrow> (case get_key tc r1 of None \<Rightarrow> None
      | Some (k, r2) \<Rightarrow> (case get_addr tc r2 of None \<Rightarrow> None
      | Some (a, r3) \<Rightarrow> (case get_array32 fmt r3 of None \<Rightarrow> None
      | Some (t, r4) \<Rightarrow>
          Some (\<lparr>tk_hash = h, tk_peer = PeerId k, tk_addr = a, tk_token = AuthToken t\<rparr>, r4)))))"

definition ticket_from_bytes ::
    "format \<Rightarrow> 'pk ticket_codec \<Rightarrow> bytes \<Rightarrow> ('pk ticket, postcard_error) outcome" where
  "ticket_from_bytes fmt tc bytes = from_bytes (get_ticket fmt tc) bytes"

definition ticket_to_bytes :: "format \<Rightarrow> 'pk ticket_codec \<Rightarrow> 'pk ticket \<Rightarrow> bytes" where
  "ticket_to_bytes fmt tc t = put_ticket fmt tc t"

definition ticket_display ::
    "'de base64_engine \<Rightarrow> format \<Rightarrow> 'pk ticket_codec \<Rightarrow> 'pk ticket \<Rightarrow> string" where
  "ticket_display eng fmt tc t = encode eng (ticket_to_bytes fmt tc t)"

datatype 'de ticket_error = TicketBase64 'de | TicketFormat postcard_error

definition ticket_from_str ::
    "'de base64_engine \<Rightarrow> format \<Rightarrow> 'pk ticket_codec \<Rightarrow> string
       \<Rightarrow> ('pk ticket, 'de ticket_error) outcome" where
  "ticket_from_str eng fmt tc s =
     and_then (map_err TicketBase64 (decode eng s)) (\<lambda>bytes.
     map_err TicketFormat (ticket_from_bytes fmt tc bytes))"

locale ticket_format = base64 eng + postcard fmt
  for eng :: "'de base64_engine" and fmt :: format +
  fixes tc :: "'pk ticket_codec"
  assumes get_put_key: "get_key tc (put_key tc k @ r) = Some (k, r)"
    and get_put_addr: "get_addr tc (put_addr tc a @ r) = Some (a, r)"
begin

lemma get_put_ticket: "get_ticket fmt tc (put_ticket fmt tc t @ r) = Some (t, r)"
  by (simp add: get_ticket_def put_ticket_def get_put_hash get_put_key get_put_addr get_put_array32)

lemma ticket_round_trip: "ticket_from_str eng fmt tc (ticket_display eng fmt tc t) = Ok t"
  using get_put_ticket [of t "[]"]
  by (simp add: ticket_from_str_def ticket_display_def decode_encode ticket_from_bytes_def
      ticket_to_bytes_def from_bytes_def)

end

sublocale ticket_format \<subseteq> ticket_text: text_form "ticket_display eng fmt tc" "ticket_from_str eng fmt tc"
  by unfold_locales (rule ticket_round_trip)

section \<open>An instance\<close>

fun plain_put_addr :: "socket_addr \<Rightarrow> bytes" where
  "plain_put_addr (SocketAddr (V4 a) p) = 0 # varint (unat a) @ varint (unat p)"
| "plain_put_addr (SocketAddr (V6 a) p) = 1 # varint (unat a) @ varint (unat p)"

definition plain_get_addr :: "bytes \<Rightarrow> (socket_addr \<times> bytes) option" where
  "plain_get_addr bs =
     (case bs of [] \<Rightarrow> None
      | v # r \<Rightarrow> (case get_varint 19 r of None \<Rightarrow> None
      | Some (a, r1) \<Rightarrow> (case get_varint 3 r1 of None \<Rightarrow> None
      | Some (p, r2) \<Rightarrow> Some (SocketAddr (if v = 0 then V4 (of_nat a) else V6 (of_nat a)) (of_nat p), r2))))"

lemma plain_get_put_addr: "plain_get_addr (plain_put_addr a @ r) = Some (a, r)"
proof -
  have ip4: "unat (w :: 32 word) < 128 ^ 19" for w
    using unsigned_less [where ?'a = nat, of w] by simp
  have ip6: "unat (w :: 128 word) < 128 ^ 19" for w
    using unsigned_less [where ?'a = nat, of w] by simp
  have port: "unat (w :: u16) < 128 ^ 3" for w
    using unsigned_less [where ?'a = nat, of w] by simp
  show ?thesis
    by (cases a rule: plain_put_addr.cases)
      (simp_all add: plain_get_addr_def get_varint_varint [OF ip4] get_varint_varint [OF ip6]
        get_varint_varint [OF port])
qed

definition plain_codec :: "bytes32 ticket_codec" where
  "plain_codec =
     \<lparr>put_key = put_array32 wire_format, get_key = get_array32 wire_format,
      put_addr = plain_put_addr, get_addr = plain_get_addr\<rparr>"

interpretation plain_ticket: ticket_format rfc_engine wire_format plain_codec
  by unfold_locales (simp_all add: plain_codec_def wire.get_put_array32 plain_get_put_addr)

end
