(* ===== verification/Get.thy ===== *)
theory Get
  imports Protocol Ticket
begin

text \<open>
  \<^verbatim>\<open>src/get.rs\<close>: the getter. Connecting (see the theory \<^verbatim>\<open>Connect\<close>) and the caller's callbacks
  are parameters here; a callback works on a state of the caller's own, as the \<^verbatim>\<open>FnMut\<close> closures
  do.
\<close>

definition MAX_DATA_SIZE :: u64 where
  "MAX_DATA_SIZE = 1024 * 1024 * 1024"

record 'pk options =
  opt_addr :: socket_addr
  opt_peer_id :: "'pk peer_id option"
  opt_keylog :: bool

definition default_options :: "'pk options" where
  "default_options =
     \<lparr>opt_addr = SocketAddr (V4 0x7F000001) 4433, opt_peer_id = None, opt_keylog = False\<rparr>"

record stats =
  st_data_len :: u64
  st_elapsed :: nat

text \<open>The integer part of \<^verbatim>\<open>Stats::mbits\<close>; the division in \<^verbatim>\<open>f64\<close> is not modelled.\<close>

definition stats_data_len_bit :: "bool \<Rightarrow> stats \<Rightarrow> (u64, 'e) outcome" where
  "stats_data_len_bit checks st = mul_u64 checks (st_data_len st) 8"

section \<open>Verified streams\<close>

text \<open>\<^verbatim>\<open>DataStream\<close> wraps the decoder of the crate abao.\<close>

definition data_stream_new :: "('s, 'd) decoder_ops \<Rightarrow> 's \<Rightarrow> hash \<Rightarrow> 'd" where
  "data_stream_new dops inner h = dec_new dops inner (hash_to_blake3 h)"

definition data_stream_read_size :: "('s, 'd) decoder_ops \<Rightarrow> 'd \<Rightarrow> (io_error + u64) \<times> 'd" where
  "data_stream_read_size dops d = dec_read_size dops d"

definition data_stream_into_inner :: "('s, 'd) decoder_ops \<Rightarrow> 'd \<Rightarrow> 's" where
  "data_stream_into_inner dops d = dec_into_inner dops d"

section \<open>Requesting\<close>

record ('u, 'd) callbacks =
  cb_connected :: "'u \<Rightarrow> (error + unit) \<times> 'u"
  cb_collection :: "collection \<Rightarrow> 'u \<Rightarrow> (error + unit) \<times> 'u"
  cb_blob :: "hash \<Rightarrow> 'd \<Rightarrow> string \<Rightarrow> 'u \<Rightarrow> (error + 'd) \<times> 'u"

definition send_request ::
    "'w send_ops \<Rightarrow> format \<Rightarrow> auth_token \<Rightarrow> hash \<Rightarrow> ('w, unit, error) io" where
  "send_request wo fmt token h =
     (let out_buffer = replicate (max request_max_size handshake_max_size) 0 in
      io_bind (io_lift (map_err PostcardError
        (to_slice (put_handshake fmt (handshake_new token)) out_buffer))) (\<lambda>(used, out_buffer).
      io_bind (write_lp wo used) (\<lambda>_.
      io_bind (io_lift (map_err PostcardError
        (to_slice (put_request fmt \<lparr>req_id = 1, req_name = h\<rparr>) out_buffer))) (\<lambda>(used, out_buffer).
      io_bind (write_lp wo used) (\<lambda>_.
      io_await (send_finish wo))))))"

section \<open>Receiving\<close>

text \<open>
  \<^verbatim>\<open>handle_blob_response\<close> takes the reader; what it returns, the stream of verified data,
  holds it.
\<close>

definition handle_blob_response ::
    "'s recv_ops \<Rightarrow> ('s, 'd) decoder_ops \<Rightarrow> format \<Rightarrow> hash \<Rightarrow> ('s rx, 'd, error) io" where
  "handle_blob_response ro dops fmt h =
     io_bind (read_lp_data ro) (\<lambda>msg.
     case msg of
       Some response_buffer \<Rightarrow>
         io_bind (io_lift (map_err PostcardError (from_bytes (get_response fmt) response_buffer)))
           (\<lambda>response.
            case resp_data response of
              FoundCollection t \<Rightarrow> io_throw UnexpectedMessage
            | NotFound \<Rightarrow> io_throw (BlobNotFound h)
            | Found \<Rightarrow> (\<lambda>rx.
                if rx_buffer rx \<noteq> [] then (Panic AssertionFailed, rx)
                else (Ok (data_stream_new dops (rx_reader rx) h), rx)))
     | None \<Rightarrow> io_throw ServerDisconnected)"

text \<open>The reader, its buffer and the caller's state.\<close>

record ('s, 'u) gx =
  gx_rx :: "'s rx"
  gx_user :: 'u

fun receive_blobs ::
    "bool \<Rightarrow> 's recv_ops \<Rightarrow> ('s, 'd) decoder_ops \<Rightarrow> format \<Rightarrow> ('u, 'd) callbacks \<Rightarrow> u64
       \<Rightarrow> blob list \<Rightarrow> u64 \<Rightarrow> (('s, 'u) gx, unit, error) io" where
  "receive_blobs checks ro dops fmt cbs tot [] remaining = io_ret ()"
| "receive_blobs checks ro dops fmt cbs tot (b # bs) remaining = (\<lambda>g.
     case handle_blob_response ro dops fmt (blob_hash b) (gx_rx g) of
       (Err e, rx) \<Rightarrow> (Err e, g\<lparr>gx_rx := rx\<rparr>)
     | (Panic p, rx) \<Rightarrow> (Panic p, g\<lparr>gx_rx := rx\<rparr>)
     | (Ok d0, rx) \<Rightarrow>
         (case data_stream_read_size dops d0 of
            (Inl e, d1) \<Rightarrow> (Err (IoError e), g\<lparr>gx_rx := rx\<rparr>)
          | (Inr sz, d1) \<Rightarrow>
              if \<not> sz \<le> MAX_DATA_SIZE then (Err (SizeTooLarge sz), g\<lparr>gx_rx := rx\<rparr>)
              else if \<not> sz \<le> remaining then (Err (DownloadedMoreThan tot), g\<lparr>gx_rx := rx\<rparr>)
              else
                (case sub_u64 checks remaining sz of
                   Err e \<Rightarrow> (Err e, g\<lparr>gx_rx := rx\<rparr>)
                 | Panic p \<Rightarrow> (Panic p, g\<lparr>gx_rx := rx\<rparr>)
                 | Ok remaining' \<Rightarrow>
                     (case cb_blob cbs (blob_hash b) d1 (blob_name b) (gx_user g) of
                        (Inl e, u) \<Rightarrow> (Err e, \<lparr>gx_rx = rx, gx_user = u\<rparr>)
                      | (Inr d2, u) \<Rightarrow>
                          (case dec_read_exact dops d2 1 of
                             (Inr byte, d3) \<Rightarrow> (Err BlobNotFullyRead, \<lparr>gx_rx = rx, gx_user = u\<rparr>)
                           | (Inl e, d3) \<Rightarrow>
                               receive_blobs checks ro dops fmt cbs tot bs remaining'
                                 \<lparr>gx_rx = rx\<lparr>rx_reader := data_stream_into_inner dops d3\<rparr>, gx_user = u\<rparr>)))))"

definition receive_collection ::
    "bool \<Rightarrow> 's recv_ops \<Rightarrow> ('s, 'd) decoder_ops \<Rightarrow> format \<Rightarrow> ('u, 'd) callbacks \<Rightarrow> hash \<Rightarrow> u64
       \<Rightarrow> (('s, 'u) gx, u64, error) io" where
  "receive_collection checks ro dops fmt cbs h tot g =
     (if \<not> tot \<le> MAX_DATA_SIZE then (Err (SizeTooLarge tot), g)
      else case read_bao_encoded dops h (rx_reader (gx_rx g)) of
        (Err e, s') \<Rightarrow> (Err e, g\<lparr>gx_rx := (gx_rx g)\<lparr>rx_reader := s'\<rparr>\<rparr>)
      | (Panic p, s') \<Rightarrow> (Panic p, g\<lparr>gx_rx := (gx_rx g)\<lparr>rx_reader := s'\<rparr>\<rparr>)
      | (Ok data, s') \<Rightarrow>
          (let g1 = g\<lparr>gx_rx := (gx_rx g)\<lparr>rx_reader := s'\<rparr>\<rparr> in
           case collection_from_bytes fmt data of
             Err e \<Rightarrow> (Err (PostcardError e), g1)
           | Panic p \<Rightarrow> (Panic p, g1)
           | Ok c \<Rightarrow>
               (case cb_collection cbs c (gx_user g1) of
                  (Inl e, u) \<Rightarrow> (Err e, g1\<lparr>gx_user := u\<rparr>)
                | (Inr _, u) \<Rightarrow>
                    io_bind (receive_blobs checks ro dops fmt cbs tot (coll_blobs c) tot)
                      (\<lambda>_. io_ret tot) (g1\<lparr>gx_user := u\<rparr>))))"

definition shut_down_stream :: "'s recv_ops \<Rightarrow> (('s, 'u) gx, unit, error) io" where
  "shut_down_stream ro g =
     (case recv_chunk ro (rx_reader (gx_rx g)) 8 of
        (Inl e, s') \<Rightarrow> (Err (IoError e), g\<lparr>gx_rx := (gx_rx g)\<lparr>rx_reader := s'\<rparr>\<rparr>)
      | (Inr (Some chunk), s') \<Rightarrow>
          (Ok (), g\<lparr>gx_rx := (gx_rx g)\<lparr>rx_reader := recv_stop ro s' 0\<rparr>\<rparr>)
      | (Inr None, s') \<Rightarrow> (Ok (), g\<lparr>gx_rx := (gx_rx g)\<lparr>rx_reader := s'\<rparr>\<rparr>))"

text \<open>A function of the reader and buffer alone, lifted to the larger state.\<close>

definition on_rx :: "('s rx, 'a, error) io \<Rightarrow> (('s, 'u) gx, 'a, error) io" where
  "on_rx m g = (case m (gx_rx g) of (r, rx) \<Rightarrow> (r, g\<lparr>gx_rx := rx\<rparr>))"

definition read_response ::
    "bool \<Rightarrow> 's recv_ops \<Rightarrow> ('s, 'd) decoder_ops \<Rightarrow> format \<Rightarrow> ('u, 'd) callbacks \<Rightarrow> hash
       \<Rightarrow> (('s, 'u) gx, u64, error) io" where
  "read_response checks ro dops fmt cbs h =
     io_bind (on_rx (read_lp_data ro)) (\<lambda>msg.
     case msg of
       Some response_buffer \<Rightarrow>
         io_bind (io_lift (map_err PostcardError (from_bytes (get_response fmt) response_buffer)))
           (\<lambda>response.
         io_bind
           (case resp_data response of
              FoundCollection tot \<Rightarrow> receive_collection checks ro dops fmt cbs h tot
            | Found \<Rightarrow> io_throw UnexpectedMessage
            | NotFound \<Rightarrow> io_throw DataNotFound) (\<lambda>data_len.
         io_bind (shut_down_stream ro) (\<lambda>_. io_ret data_len)))
     | None \<Rightarrow> io_throw StreamClosed)"

section \<open>The whole exchange\<close>

text \<open>
  \<open>net_open\<close> is \<^verbatim>\<open>setup\<close> followed by \<^verbatim>\<open>open_bi\<close>, \<open>open_stream\<close> of the theory \<^verbatim>\<open>Connect\<close>; the result carries the writer
  (once there is one) and the caller's state.
\<close>

definition run ::
    "bool \<Rightarrow> ('pk options \<Rightarrow> ('w \<times> 's, error) outcome) \<Rightarrow> 's recv_ops \<Rightarrow> 'w send_ops \<Rightarrow> ('s, 'd) decoder_ops
       \<Rightarrow> format \<Rightarrow> ('u, 'd) callbacks \<Rightarrow> hash \<Rightarrow> auth_token \<Rightarrow> 'pk options \<Rightarrow> nat \<Rightarrow> 'u
       \<Rightarrow> (stats, error) outcome \<times> 'w option \<times> 'u" where
  "run checks net_open ro wo dops fmt cbs h token opts elapsed u =
     (case net_open opts of
        Err e \<Rightarrow> (Err e, None, u)
      | Panic p \<Rightarrow> (Panic p, None, u)
      | Ok (w, s) \<Rightarrow>
          (case cb_connected cbs u of
             (Inl e, u1) \<Rightarrow> (Err e, Some w, u1)
           | (Inr _, u1) \<Rightarrow>
               (case send_request wo fmt token h w of
                  (Err e, w1) \<Rightarrow> (Err e, Some w1, u1)
                | (Panic p, w1) \<Rightarrow> (Panic p, Some w1, u1)
                | (Ok _, w1) \<Rightarrow>
                    (case read_response checks ro dops fmt cbs h
                        \<lparr>gx_rx = \<lparr>rx_reader = s, rx_buffer = []\<rparr>, gx_user = u1\<rparr> of
                       (Err e, g) \<Rightarrow> (Err e, Some w1, gx_user g)
                     | (Panic p, g) \<Rightarrow> (Panic p, Some w1, gx_user g)
                     | (Ok data_len, g) \<Rightarrow>
                         (Ok \<lparr>st_data_len = data_len, st_elapsed = elapsed\<rparr>, Some w1, gx_user g)))))"

section \<open>What is requested\<close>

definition request_bytes :: "format \<Rightarrow> auth_token \<Rightarrow> hash \<Rightarrow> bytes" where
  "request_bytes fmt token h =
     frame (put_handshake fmt (handshake_new token)) @ frame (put_request fmt \<lparr>req_id = 1, req_name = h\<rparr>)"

lemma send_request_ok:
  assumes "postcard fmt" and "byte_sink wo sent fin"
  shows "\<exists>w'. send_request wo fmt token h w = (Ok (), w') \<and> sent w' = sent w @ request_bytes fmt token h \<and> fin w'"
proof -
  let ?hs = "put_handshake fmt (handshake_new token)"
  let ?rq = "put_request fmt \<lparr>req_id = 1, req_name = h\<rparr>"
  have hs: "length ?hs \<le> 42"
    using postcard.length_put_handshake [OF assms(1), of "handshake_new token"]
    by (simp add: handshake_max_size_def)
  have rq: "length ?rq = 34"
    using postcard.length_put_request_small [OF assms(1), of "\<lparr>req_id = 1, req_name = h\<rparr>"] by simp
  have "length ?hs < MAX_MESSAGE_SIZE" "length ?rq < MAX_MESSAGE_SIZE"
    using hs rq by (simp_all add: MAX_MESSAGE_SIZE_def)
  then obtain w1 w2 where 1: "write_lp wo ?hs w = (Ok (), w1)" "sent w1 = sent w @ frame ?hs"
    and 2: "write_lp wo ?rq w1 = (Ok (), w2)" "sent w2 = sent w1 @ frame ?rq"
    using byte_sink.write_lp_ok [OF assms(2)] by meson
  obtain w3 where 3: "send_finish wo w2 = (Inr (), w3)" "sent w3 = sent w2" "fin w3"
    using byte_sink.send_finish_ok [OF assms(2)] by blast
  from 1 2 3 hs rq show ?thesis
    by (simp add: send_request_def Let_def to_slice_def request_max_size_def handshake_max_size_def
        hash_postcard_max_size_def request_bytes_def)
qed

section \<open>Successful runs of the blob loop\<close>

text \<open>
  The abstract view of the loop: each blob's response is \<open>Found\<close>, its size can be read,
  the callback succeeds and leaves nothing unread; the sizes are listed.
\<close>

inductive fetched ::
    "'s recv_ops \<Rightarrow> ('s, 'd) decoder_ops \<Rightarrow> format \<Rightarrow> ('u, 'd) callbacks
       \<Rightarrow> blob list \<Rightarrow> ('s, 'u) gx \<Rightarrow> u64 list \<Rightarrow> ('s, 'u) gx \<Rightarrow> bool"
  for ro dops fmt cbs where
  none: "fetched ro dops fmt cbs [] g [] g"
| one: "handle_blob_response ro dops fmt (blob_hash b) (gx_rx g) = (Ok d0, rx) \<Longrightarrow>
    data_stream_read_size dops d0 = (Inr sz, d1) \<Longrightarrow>
    cb_blob cbs (blob_hash b) d1 (blob_name b) (gx_user g) = (Inr d2, u) \<Longrightarrow>
    dec_read_exact dops d2 1 = (Inl e, d3) \<Longrightarrow>
    fetched ro dops fmt cbs bs
      \<lparr>gx_rx = rx\<lparr>rx_reader := data_stream_into_inner dops d3\<rparr>, gx_user = u\<rparr> szs g' \<Longrightarrow>
    fetched ro dops fmt cbs (b # bs) g (sz # szs) g'"

inductive_cases fetched_NilE: "fetched ro dops fmt cbs [] g szs g'"
inductive_cases fetched_ConsE: "fetched ro dops fmt cbs (b # bs) g szs g'"

lemma fetched_length: "fetched ro dops fmt cbs bs g szs g' \<Longrightarrow> length szs = length bs"
  by (induction rule: fetched.induct) simp_all

text \<open>
  One round of the loop, when it gets as far as the next blob: the equation that the
  proofs about the loop use.
\<close>

lemma receive_blobs_round:
  assumes "handle_blob_response ro dops fmt (blob_hash b) (gx_rx g) = (Ok d0, rx)"
    and "data_stream_read_size dops d0 = (Inr sz, d1)"
    and "sz \<le> MAX_DATA_SIZE" and "sz \<le> remaining"
    and "cb_blob cbs (blob_hash b) d1 (blob_name b) (gx_user g) = (Inr d2, u)"
    and "dec_read_exact dops d2 1 = (Inl e, d3)"
  shows "receive_blobs checks ro dops fmt cbs tot (b # bs) remaining g =
    receive_blobs checks ro dops fmt cbs tot bs (remaining - sz)
      \<lparr>gx_rx = rx\<lparr>rx_reader := data_stream_into_inner dops d3\<rparr>, gx_user = u\<rparr>"
  using assms by simp

lemma receive_blobs_Cons_Ok:
  assumes "receive_blobs checks ro dops fmt cbs tot (b # bs) remaining g = (Ok (), g')"
  obtains d0 rx sz d1 d2 u e d3
  where "handle_blob_response ro dops fmt (blob_hash b) (gx_rx g) = (Ok d0, rx)"
    and "data_stream_read_size dops d0 = (Inr sz, d1)"
    and "sz \<le> MAX_DATA_SIZE" and "sz \<le> remaining"
    and "cb_blob cbs (blob_hash b) d1 (blob_name b) (gx_user g) = (Inr d2, u)"
    and "dec_read_exact dops d2 1 = (Inl e, d3)"
    and "receive_blobs checks ro dops fmt cbs tot bs (remaining - sz)
      \<lparr>gx_rx = rx\<lparr>rx_reader := data_stream_into_inner dops d3\<rparr>, gx_user = u\<rparr> = (Ok (), g')"
proof -
  obtain r rx where 1: "handle_blob_response ro dops fmt (blob_hash b) (gx_rx g) = (r, rx)" by fastforce
  with assms obtain d0 where r: "r = Ok d0" by (cases r) auto
  obtain z d1 where 2: "data_stream_read_size dops d0 = (z, d1)" by fastforce
  with assms 1 r obtain sz where z: "z = Inr sz" by (cases z) auto
  have 3: "sz \<le> MAX_DATA_SIZE" "sz \<le> remaining" using assms 1 r 2 z by (auto split: if_splits)
  obtain y u where 4: "cb_blob cbs (blob_hash b) d1 (blob_name b) (gx_user g) = (y, u)" by fastforce
  with assms 1 r 2 z 3 obtain d2 where y: "y = Inr d2" by (cases y) auto
  obtain x d3 where 5: "dec_read_exact dops d2 1 = (x, d3)" by fastforce
  with assms 1 r 2 z 3 4 y obtain e where x: "x = Inl e" by (cases x) auto
  note steps = 1 [unfolded r] 2 [unfolded z] 3 4 [unfolded y] 5 [unfolded x]
  from that [OF steps] assms receive_blobs_round [OF steps, of checks tot bs] show thesis by simp
qed

lemma receive_blobs_fetched:
  assumes "receive_blobs checks ro dops fmt cbs tot bs remaining g = (Ok (), g')"
  shows "\<exists>szs. fetched ro dops fmt cbs bs g szs g' \<and> list_all (\<lambda>sz. sz \<le> MAX_DATA_SIZE) szs
    \<and> (\<Sum>sz\<leftarrow>szs. unat sz) \<le> unat remaining"
  using assms
proof (induction bs arbitrary: remaining g)
  case Nil
  then show ?case by (auto simp: io_simps intro: exI [of _ "[]"] fetched.none)
next
  case (Cons b bs)
  from Cons.prems show ?case
  proof (rule receive_blobs_Cons_Ok)
    fix d0 rx sz d1 d2 u e d3
    assume steps: "handle_blob_response ro dops fmt (blob_hash b) (gx_rx g) = (Ok d0, rx)"
        "data_stream_read_size dops d0 = (Inr sz, d1)"
        "cb_blob cbs (blob_hash b) d1 (blob_name b) (gx_user g) = (Inr d2, u)"
        "dec_read_exact dops d2 1 = (Inl e, d3)"
      and le: "sz \<le> MAX_DATA_SIZE" "sz \<le> remaining"
      and rest: "receive_blobs checks ro dops fmt cbs tot bs (remaining - sz)
        \<lparr>gx_rx = rx\<lparr>rx_reader := data_stream_into_inner dops d3\<rparr>, gx_user = u\<rparr> = (Ok (), g')"
    from Cons.IH [OF rest] obtain szs where
      szs: "fetched ro dops fmt cbs bs
          \<lparr>gx_rx = rx\<lparr>rx_reader := data_stream_into_inner dops d3\<rparr>, gx_user = u\<rparr> szs g'"
        "list_all (\<lambda>sz. sz \<le> MAX_DATA_SIZE) szs" "(\<Sum>sz\<leftarrow>szs. unat sz) \<le> unat (remaining - sz)"
      by blast
    have "unat (remaining - sz) = unat remaining - unat sz" "unat sz \<le> unat remaining"
      using le(2) by (simp_all add: unat_sub word_le_nat_alt)
    with szs le(1) fetched.one [OF steps szs(1)] show ?case
      by (intro exI [of _ "sz # szs"]) simp
  qed
qed

lemma fetched_receive_blobs_append:
  assumes "fetched ro dops fmt cbs bs g szs g'" and "list_all (\<lambda>sz. sz \<le> MAX_DATA_SIZE) szs"
    and "(\<Sum>sz\<leftarrow>szs. unat sz) \<le> unat remaining"
  shows "receive_blobs checks ro dops fmt cbs tot (bs @ later) remaining g =
    receive_blobs checks ro dops fmt cbs tot later (remaining - sum_list szs) g'"
  using assms
proof (induction arbitrary: remaining rule: fetched.induct)
  case (one b g d0 rx sz d1 d2 u e d3 bs szs g')
  then have le: "sz \<le> MAX_DATA_SIZE" "sz \<le> remaining" by (auto simp: word_le_nat_alt)
  then have "unat (remaining - sz) = unat remaining - unat sz"
    by (simp add: unat_sub word_le_nat_alt)
  with one.prems le(2) have "(\<Sum>sz\<leftarrow>szs. unat sz) \<le> unat (remaining - sz)" by simp
  with one.IH one.prems(1) show ?case
    using receive_blobs_round [OF one.hyps(1,2) le one.hyps(3,4), of checks tot "bs @ later"]
    by (simp add: diff_diff_add)
qed simp

lemma fetched_receive_blobs:
  assumes "fetched ro dops fmt cbs bs g szs g'" and "list_all (\<lambda>sz. sz \<le> MAX_DATA_SIZE) szs"
    and "(\<Sum>sz\<leftarrow>szs. unat sz) \<le> unat remaining"
  shows "receive_blobs checks ro dops fmt cbs tot bs remaining g = (Ok (), g')"
  using fetched_receive_blobs_append [OF assms, of checks tot "[]"] by (simp add: io_simps)

section \<open>Panics\<close>

lemma handle_blob_response_panic:
  "handle_blob_response ro dops fmt h rx = (Panic p, rx') \<Longrightarrow> rx_buffer rx = [] \<Longrightarrow> p = SplitOutOfRange"
  by (auto simp: handle_blob_response_def io_bind_def io_simps from_bytes_def
      split: prod.splits outcome.splits option.splits res.splits if_splits
      dest: read_lp_data_panic read_lp_data_drains)

lemma handle_blob_response_drains:
  "handle_blob_response ro dops fmt h rx = (Ok d, rx') \<Longrightarrow> rx_buffer rx' = []"
  by (auto simp: handle_blob_response_def io_bind_def io_simps
      split: prod.splits outcome.splits option.splits res.splits if_splits)

lemma receive_blobs_panic:
  assumes "receive_blobs checks ro dops fmt cbs tot bs remaining g = (Panic p, g')"
    and "rx_buffer (gx_rx g) = []"
  shows "p = SplitOutOfRange"
  using assms
proof (induction bs arbitrary: remaining g)
  case Nil
  then show ?case by (simp add: io_simps)
next
  case (Cons b bs)
  obtain r rx where h: "handle_blob_response ro dops fmt (blob_hash b) (gx_rx g) = (r, rx)" by fastforce
  show ?case
  proof (cases r)
    case (Ok d0)
    have "rx_buffer rx = []" using h Ok by (auto dest: handle_blob_response_drains)
    then have "p = SplitOutOfRange"
      if "receive_blobs checks ro dops fmt cbs tot bs rem'
        \<lparr>gx_rx = rx\<lparr>rx_reader := s\<rparr>, gx_user = u\<rparr> = (Panic p, g')" for rem' s u
      using Cons.IH [OF that] by simp
    then show ?thesis using Cons.prems(1) h Ok
      by (auto split: prod.splits sum.splits if_splits)
  next
    case (Panic q)
    with Cons.prems h show ?thesis by (auto dest: handle_blob_response_panic)
  qed (use Cons.prems h in simp)
qed

lemma receive_collection_panic:
  "receive_collection checks ro dops fmt cbs h tot g = (Panic p, g') \<Longrightarrow> rx_buffer (gx_rx g) = [] \<Longrightarrow>
   p = SplitOutOfRange"
  by (auto simp: receive_collection_def read_bao_encoded_def collection_from_bytes_def from_bytes_def
      Let_def io_bind_def io_simps
      split: prod.splits sum.splits outcome.splits option.splits if_splits dest!: receive_blobs_panic)

lemma receive_collection_iff:
  "receive_collection checks ro dops fmt cbs h tot g = (Ok n, g') \<longleftrightarrow>
     n = tot \<and> tot \<le> MAX_DATA_SIZE
     \<and> (\<exists>data s1 c u szs. read_bao_encoded dops h (rx_reader (gx_rx g)) = (Ok data, s1)
         \<and> collection_from_bytes fmt data = Ok c
         \<and> cb_collection cbs c (gx_user g) = (Inr (), u)
         \<and> fetched ro dops fmt cbs (coll_blobs c)
              \<lparr>gx_rx = (gx_rx g)\<lparr>rx_reader := s1\<rparr>, gx_user = u\<rparr> szs g'
         \<and> list_all (\<lambda>sz. sz \<le> MAX_DATA_SIZE) szs
         \<and> (\<Sum>sz\<leftarrow>szs. unat sz) \<le> unat tot)"
  (is "?run \<longleftrightarrow> ?spec")
proof
  assume ?run
  then obtain data s1 c u where 1: "tot \<le> MAX_DATA_SIZE" "n = tot"
      "read_bao_encoded dops h (rx_reader (gx_rx g)) = (Ok data, s1)"
      "collection_from_bytes fmt data = Ok c" "cb_collection cbs c (gx_user g) = (Inr (), u)"
    and "receive_blobs checks ro dops fmt cbs tot (coll_blobs c) tot
      \<lparr>gx_rx = (gx_rx g)\<lparr>rx_reader := s1\<rparr>, gx_user = u\<rparr> = (Ok (), g')"
    by (cases g) (auto simp: receive_collection_def Let_def io_bind_def io_simps
        split: prod.splits sum.splits outcome.splits if_splits)
  from receive_blobs_fetched [OF this(6)] 1 show ?spec by blast
next
  assume ?spec
  then obtain data s1 c u szs where 1: "n = tot" "tot \<le> MAX_DATA_SIZE"
      "read_bao_encoded dops h (rx_reader (gx_rx g)) = (Ok data, s1)"
      "collection_from_bytes fmt data = Ok c" "cb_collection cbs c (gx_user g) = (Inr (), u)"
    and 2: "fetched ro dops fmt cbs (coll_blobs c)
        \<lparr>gx_rx = (gx_rx g)\<lparr>rx_reader := s1\<rparr>, gx_user = u\<rparr> szs g'"
      "list_all (\<lambda>sz. sz \<le> MAX_DATA_SIZE) szs" "(\<Sum>sz\<leftarrow>szs. unat sz) \<le> unat tot"
    by blast
  from fetched_receive_blobs [OF 2, of checks tot] 1 show ?run
    by (cases g) (simp add: receive_collection_def Let_def io_simps)
qed

section \<open>Properties\<close>

text \<open>
  C6: when a collection is received, and only then: the announced total is at most
  1 GiB, the verified collection data decodes, the callback for the collection agrees, the
  blobs are fetched one after the other in the collection's order with every callback
  succeeding and leaving nothing unread, no blob exceeds 1 GiB, and the sizes add up to at
  most the announced total; the length reported is the announced total.
\<close>

theorem receive_collection_accounting:
  "receive_collection checks ro dops fmt cbs h tot g = (Ok n, g') \<longleftrightarrow>
     n = tot \<and> tot \<le> MAX_DATA_SIZE
     \<and> (\<exists>data s1 c u szs. read_bao_encoded dops h (rx_reader (gx_rx g)) = (Ok data, s1)
         \<and> collection_from_bytes fmt data = Ok c
         \<and> cb_collection cbs c (gx_user g) = (Inr (), u)
         \<and> fetched ro dops fmt cbs (coll_blobs c)
              \<lparr>gx_rx = (gx_rx g)\<lparr>rx_reader := s1\<rparr>, gx_user = u\<rparr> szs g'
         \<and> list_all (\<lambda>sz. sz \<le> MAX_DATA_SIZE) szs
         \<and> (\<Sum>sz\<leftarrow>szs. unat sz) \<le> unat tot)"
  by (rule receive_collection_iff)

text \<open>
  C29: whatever the provider sends, the callback for blobs is called with the hashes and
  names of the collection's blobs, in the collection's order and without gaps; the loop
  succeeds only if it was called for all of them.
\<close>

theorem blob_callbacks_in_order:
  assumes "\<And>h d n u. snd (cb_blob cbs h d n u) = u @ [(h, n)]"
    and "receive_blobs checks ro dops fmt cbs tot bs remaining g = (r, g')"
  shows "\<exists>k \<le> length bs. gx_user g' = gx_user g @ map (\<lambda>b. (blob_hash b, blob_name b)) (take k bs)
    \<and> (r = Ok () \<longrightarrow> k = length bs)"
  using assms(2)
proof (induction bs arbitrary: remaining g)
  case Nil
  then show ?case by (auto simp: io_simps)
next
  case (Cons b bs)
  let ?call = "(blob_hash b, blob_name b)"
  let ?goal = "\<exists>k \<le> length (b # bs).
    gx_user g' = gx_user g @ map (\<lambda>b. (blob_hash b, blob_name b)) (take k (b # bs))
      \<and> (r = Ok () \<longrightarrow> k = length (b # bs))"
  have stop: ?goal if "gx_user g' = gx_user g" "r \<noteq> Ok ()"
    using that by (intro exI [of _ 0]) simp
  have called: ?goal if "gx_user g' = gx_user g @ [?call]" "r \<noteq> Ok ()"
    using that by (intro exI [of _ 1]) simp
  have loop: ?goal if "receive_blobs checks ro dops fmt cbs tot bs rem'
      \<lparr>gx_rx = rx', gx_user = gx_user g @ [?call]\<rparr> = (r, g')" for rem' rx'
  proof -
    from Cons.IH [OF that] obtain k where "k \<le> length bs"
      "gx_user g' = gx_user g @ map (\<lambda>b. (blob_hash b, blob_name b)) (take (Suc k) (b # bs))"
      "r = Ok () \<longrightarrow> Suc k = length (b # bs)" by auto
    then show ?thesis by (intro exI [of _ "Suc k"]) simp
  qed
  have cb: "cb_blob cbs h d n u = (x, u') \<longleftrightarrow> fst (cb_blob cbs h d n u) = x \<and> u' = u @ [(h, n)]"
    for h d n u x u'
    using assms(1) [of h d n u] by (auto simp: prod_eq_iff)
  from Cons.prems have "(gx_user g' = gx_user g \<and> r \<noteq> Ok ())
      \<or> (gx_user g' = gx_user g @ [?call] \<and> r \<noteq> Ok ())
      \<or> (\<exists>rem' rx'. receive_blobs checks ro dops fmt cbs tot bs rem'
            \<lparr>gx_rx = rx', gx_user = gx_user g @ [?call]\<rparr> = (r, g'))"
    by (auto simp: cb split: prod.splits sum.splits outcome.splits if_splits)
  with stop called loop show ?case by blast
qed

text \<open>
  C30: the getter's own checks never unwind: reading a response can panic in one way only,
  when the stream ends inside a message (\<open>split_to\<close> past the end of the buffer). In
  particular \<^verbatim>\<open>assert!(buffer.is_empty())\<close> holds and \<^verbatim>\<open>remaining_size -= size\<close>
  does not underflow.
\<close>

theorem read_response_panics:
  assumes "read_response checks ro dops fmt cbs h g = (Panic p, g')" and "rx_buffer (gx_rx g) = []"
  shows "p = SplitOutOfRange"
proof -
  obtain m rx where 1: "read_lp_data ro (gx_rx g) = (m, rx)" by fastforce
  show ?thesis
  proof (cases m)
    case (Ok msg)
    with 1 assms(2) have "rx_buffer rx = []" by (auto dest: read_lp_data_drains)
    with assms(1) 1 Ok show ?thesis
      by (auto simp: read_response_def on_rx_def io_bind_def io_simps from_bytes_def shut_down_stream_def
          split: prod.splits outcome.splits option.splits res.splits sum.splits
          dest!: receive_collection_panic)
  qed (use assms 1 in \<open>auto simp: read_response_def on_rx_def io_bind_def dest: read_lp_data_panic\<close>)
qed

end
