(* ===== verification/Bao.thy ===== *)
theory Bao
  imports Provider Transport
begin

text \<open>
  What the program relies on of the tree hashing (the crates abao and blake3): the encoder
  of the provider and the verifying decoder of the getter fit together, and the decoder
  hands out only data with the expected hash. The last section has a small pair of encoder
  and decoder that meets both contracts.
\<close>

section \<open>Contracts\<close>

definition root_hash :: "bao_ops \<Rightarrow> bytes \<Rightarrow> bytes32" where
  "root_hash bao d = snd (bao_outboard bao d)"

definition bao_encoding :: "bao_ops \<Rightarrow> bytes \<Rightarrow> bytes" where
  "bao_encoding bao d =
     fst (bao_slice bao (Inr d) (fst (bao_outboard bao d)) 0 (of_nat (length d)))"

text \<open>
  The encoder: an outboard starts with the length of the data, the streaming encoder
  computes what the one-shot function does, and the slice of all of the data can be
  extracted.
\<close>

locale bao_encoder =
  fixes bao :: bao_ops
  assumes outboard_header: "8 \<le> length (fst (bao_outboard bao d))"
      "u64_from_le_bytes (take 8 (fst (bao_outboard bao d))) = of_nat (length d)"
    and finalize_outboard: "bao_finalize bao d = Inr oh \<Longrightarrow> oh = bao_outboard bao d"
    and slice_complete:
      "snd (bao_slice bao (Inr d) (fst (bao_outboard bao d)) 0 (of_nat (length d))) = None"
    and encoded_size_fits: "unat n < 2 ^ 63 \<Longrightarrow> bao_encoded_size bao n < 2 ^ 64"
begin

lemma slice_encoding:
  "bao_outboard bao d = (ob, h) \<Longrightarrow> bao_slice bao (Inr d) ob 0 (of_nat (length d)) = (bao_encoding bao d, None)"
  using slice_complete [of d] by (simp add: bao_encoding_def prod_eq_iff)

end

text \<open>
  The decoder over a stream: \<open>pos x all left rs\<close> says that \<open>x\<close> is reading \<open>all\<close>, of which
  \<open>left\<close> has not been handed out, and that \<open>rs\<close> follows on the stream.
\<close>

locale bao_transfer = bao_encoder bao + byte_stream ro rest
  for bao :: bao_ops and ro :: "'s recv_ops" and rest :: "'s \<Rightarrow> bytes" +
  fixes dops :: "('s, 'd) decoder_ops"
    and pos :: "'d \<Rightarrow> bytes \<Rightarrow> bytes \<Rightarrow> bytes \<Rightarrow> bool"
  assumes dec_start:
      "length d < 2 ^ 64 \<Longrightarrow> rest s = bao_encoding bao d @ rs \<Longrightarrow> pos (dec_new dops s (root_hash bao d)) d d rs"
    and dec_size: "pos x al lft rs \<Longrightarrow> \<exists>x'. dec_read_size dops x = (Inr (of_nat (length al)), x') \<and> pos x' al lft rs"
    and dec_to_end: "pos x al lft rs \<Longrightarrow> \<exists>x'. dec_read_to_end dops x = (Inr lft, x') \<and> pos x' al [] rs"
    and dec_exact:
      "pos x al lft rs \<Longrightarrow> n \<le> length lft \<Longrightarrow>
       \<exists>x'. dec_read_exact dops x n = (Inr (take n lft), x') \<and> pos x' al (drop n lft) rs"
    and dec_exact_end:
      "pos x al lft rs \<Longrightarrow> length lft < n \<Longrightarrow>
       \<exists>x'. dec_read_exact dops x n = (Inl UnexpectedEof, x') \<and> pos x' al [] rs"
    and dec_inner: "pos x al [] rs \<Longrightarrow> rest (dec_into_inner dops x) = rs"

text \<open>Verification: what a decoder hands out to the end has the hash it was made with.\<close>

locale bao_verified =
  fixes bao :: bao_ops
    and dops :: "('s, 'd) decoder_ops"
  assumes whole_verified:
      "dec_read_to_end dops (dec_new dops s h) = (Inr d, x) \<Longrightarrow> root_hash bao d = h"
    and sized_verified:
      "dec_read_size dops (dec_new dops s h) = (Inr n, x) \<Longrightarrow> dec_read_to_end dops x = (Inr d, x') \<Longrightarrow>
       root_hash bao d = h \<and> n = of_nat (length d)"

section \<open>An encoder and a decoder\<close>

text \<open>
  The hash is the first 32 bytes of the data, padded; the encoding is the length and the
  data; the decoder checks the hash before it hands anything out.
\<close>

definition digest :: "bytes \<Rightarrow> bytes32" where
  "digest d = Bytes32 (take 32 (d @ replicate 32 0))"

definition plain_bao :: bao_ops where
  "plain_bao =
     \<lparr>bao_outboard_size = (\<lambda>n. 8),
      bao_encoded_size = (\<lambda>n. 8 + unat n),
      bao_finalize = (\<lambda>d. Inr (u64_to_le_bytes (of_nat (length d)), digest d)),
      bao_outboard = (\<lambda>d. (u64_to_le_bytes (of_nat (length d)), digest d)),
      bao_slice = (\<lambda>src ob start len.
        case src of Inl e \<Rightarrow> (take 8 ob, Some e) | Inr d \<Rightarrow> (take 8 ob @ d, None))\<rparr>"

interpretation plain_bao: bao_encoder plain_bao
  by unfold_locales (auto simp: plain_bao_def)

record plain_decoder =
  pd_stream :: chunk_stream
  pd_hash :: bytes32
  pd_data :: "(bytes \<times> bytes) option"

definition plain_check :: "plain_decoder \<Rightarrow> (io_error + bytes \<times> bytes) \<times> plain_decoder" where
  "plain_check x =
     (case pd_data x of
        Some al \<Rightarrow> (Inr al, x)
      | None \<Rightarrow>
          (let bs = concat (pd_stream x); n = unat (u64_from_le_bytes (take 8 bs)); d = take n (drop 8 bs) in
           if length bs < 8 + n then (Inl UnexpectedEof, x)
           else if digest d \<noteq> pd_hash x then (Inl (OtherIo 0), x)
           else (Inr (d, d), x\<lparr>pd_stream := [drop (8 + n) bs], pd_data := Some (d, d)\<rparr>)))"

definition plain_dec_ops :: "(chunk_stream, plain_decoder) decoder_ops" where
  "plain_dec_ops =
     \<lparr>dec_new = (\<lambda>s h. \<lparr>pd_stream = s, pd_hash = h, pd_data = None\<rparr>),
      dec_read_size = (\<lambda>x. case plain_check x of
         (Inl e, x') \<Rightarrow> (Inl e, x') | (Inr (al, lft), x') \<Rightarrow> (Inr (of_nat (length al)), x')),
      dec_read_to_end = (\<lambda>x. case plain_check x of
         (Inl e, x') \<Rightarrow> (Inl e, x') | (Inr (al, lft), x') \<Rightarrow> (Inr lft, x'\<lparr>pd_data := Some (al, [])\<rparr>)),
      dec_read_exact = (\<lambda>x n. case plain_check x of
         (Inl e, x') \<Rightarrow> (Inl e, x')
       | (Inr (al, lft), x') \<Rightarrow>
           if n \<le> length lft then (Inr (take n lft), x'\<lparr>pd_data := Some (al, drop n lft)\<rparr>)
           else (Inl UnexpectedEof, x'\<lparr>pd_data := Some (al, [])\<rparr>)),
      dec_into_inner = (\<lambda>x. pd_stream (snd (plain_check x)))\<rparr>"

definition plain_pos :: "plain_decoder \<Rightarrow> bytes \<Rightarrow> bytes \<Rightarrow> bytes \<Rightarrow> bool" where
  "plain_pos x al lft rs \<longleftrightarrow>
     (\<exists>x'. plain_check x = (Inr (al, lft), x') \<and> concat (pd_stream x') = rs)"

lemma plain_check_read [simp]:
  "plain_check (x\<lparr>pd_data := Some al\<rparr>) = (Inr al, x\<lparr>pd_data := Some al\<rparr>)"
  by (simp add: plain_check_def)

lemma plain_check_again: "plain_check x = (Inr al, x') \<Longrightarrow> plain_check x' = (Inr al, x')"
  by (auto simp: plain_check_def Let_def split: option.splits if_splits)

interpretation plain_transfer: bao_transfer plain_bao chunk_ops concat plain_dec_ops plain_pos
proof
  fix d :: bytes and s rs
  assume len: "length d < 2 ^ 64" and s: "concat s = bao_encoding plain_bao d @ rs"
  have n: "unat (of_nat (length d) :: u64) = length d"
    using len by (simp add: unat_of_nat take_bit_eq_mod)
  from s have "concat s = u64_to_le_bytes (of_nat (length d)) @ d @ rs"
    by (simp add: bao_encoding_def plain_bao_def)
  then show "plain_pos (dec_new plain_dec_ops s (root_hash plain_bao d)) d d rs"
    by (simp add: plain_pos_def plain_check_def plain_dec_ops_def n Let_def root_hash_def plain_bao_def)
qed (auto simp: plain_pos_def plain_dec_ops_def plain_check_again)

interpretation plain_verified: bao_verified plain_bao plain_dec_ops
proof
  fix s h d x
  assume "dec_read_to_end plain_dec_ops (dec_new plain_dec_ops s h) = (Inr d, x)"
  then show "root_hash plain_bao d = h"
    by (auto simp: plain_dec_ops_def plain_check_def root_hash_def plain_bao_def Let_def
        split: prod.splits sum.splits if_splits)
next
  fix s h n x d x'
  assume "dec_read_size plain_dec_ops (dec_new plain_dec_ops s h) = (Inr n, x)"
    and "dec_read_to_end plain_dec_ops x = (Inr d, x')"
  then show "root_hash plain_bao d = h \<and> n = of_nat (length d)"
    by (auto simp: plain_dec_ops_def plain_check_def root_hash_def plain_bao_def Let_def
        split: prod.splits sum.splits if_splits)
qed

end
