(* ===== verification/Exchange.thy ===== *)
theory Exchange
  imports Serve Get Bao
begin

text \<open>
  Provider and getter together: what a provider that serves a created collection writes is
  what the getter needs to receive it. The locale \<open>exchange\<close> gathers the contracts of the
  parties that are not part of the program.
\<close>

section \<open>The parties\<close>

locale exchange =
  postcard fmt + bao_transfer bao ro rest dops pos + eager_sink wo sent fin
  for fmt :: format and bao :: bao_ops and ro :: "'s recv_ops" and rest :: "'s \<Rightarrow> bytes"
    and dops :: "('s, 'd) decoder_ops" and pos :: "'d \<Rightarrow> bytes \<Rightarrow> bytes \<Rightarrow> bytes \<Rightarrow> bool"
    and wo :: "'w send_ops" and sent :: "'w \<Rightarrow> bytes" and fin :: "'w \<Rightarrow> bool"

interpretation plain_exchange:
  exchange wire_format plain_bao chunk_ops concat plain_dec_ops plain_pos mem_eager_ops mem_sent mem_finished
  by unfold_locales

text \<open>A caller that keeps every blob it is given, read to its end.\<close>

definition saving :: "('s, 'd) decoder_ops \<Rightarrow> ((hash \<times> bytes \<times> string) list, 'd) callbacks" where
  "saving dops =
     \<lparr>cb_connected = (\<lambda>u. (Inr (), u)),
      cb_collection = (\<lambda>c u. (Inr (), u)),
      cb_blob = (\<lambda>h d n u.
        case dec_read_to_end dops d of
          (Inl e, d') \<Rightarrow> (Inl (IoError e), u)
        | (Inr data, d') \<Rightarrow> (Inr d', u @ [(h, data, n)]))\<rparr>"

text \<open>A caller whose callback reads every blob to the end and keeps a record of it.\<close>

definition consumes ::
    "('d \<Rightarrow> bytes \<Rightarrow> bytes \<Rightarrow> bytes \<Rightarrow> bool) \<Rightarrow> ('u, 'd) callbacks \<Rightarrow> ('u \<Rightarrow> hash \<times> bytes \<times> string \<Rightarrow> 'u) \<Rightarrow> bool" where
  "consumes pos cbs keep \<longleftrightarrow>
     (\<forall>h x n u al rs. pos x al al rs \<longrightarrow>
        (\<exists>x'. cb_blob cbs h x n u = (Inr x', keep u (h, al, n)) \<and> pos x' al [] rs))"

text \<open>
  A caller that, beginning in the state \<open>u\<close>, accepts a list of blobs one after the other,
  reads each to its end, and is in the state \<open>u'\<close> then.
\<close>

fun taken ::
    "('d \<Rightarrow> bytes \<Rightarrow> bytes \<Rightarrow> bytes \<Rightarrow> bool) \<Rightarrow> ('u, 'd) callbacks \<Rightarrow> 'u \<Rightarrow> (hash \<times> bytes \<times> string) list \<Rightarrow> 'u \<Rightarrow> bool" where
  "taken pos cbs u [] u' \<longleftrightarrow> u' = u"
| "taken pos cbs u ((h, al, n) # items) u' \<longleftrightarrow>
     (\<exists>u1. (\<forall>x rs. pos x al al rs \<longrightarrow> (\<exists>x'. cb_blob cbs h x n u = (Inr x', u1) \<and> pos x' al [] rs))
         \<and> taken pos cbs u1 items u')"

lemma consumes_taken: "consumes pos cbs keep \<Longrightarrow> taken pos cbs u items (foldl keep u items)"
  by (induction items arbitrary: u) (fastforce simp: consumes_def)+

section \<open>Sources and what they hold\<close>

definition content_of :: "fs_ops \<Rightarrow> path \<Rightarrow> bytes" where
  "content_of fs p =
     (case fs_open fs p of Inl e \<Rightarrow> [] | Inr f \<Rightarrow> (case file_read f of Inl e \<Rightarrow> [] | Inr d \<Rightarrow> d))"

lemma compute_outboard_Ok:
  assumes "compute_outboard bao fs p name = Ok out"
  shows "fst out = p \<and> fst (snd out) = name
    \<and> (\<exists>f. fs_open fs p = Inr f \<and> file_read f = Inr (content_of fs p)
         \<and> file_len f = Inr (of_nat (length (content_of fs p))))
    \<and> bao_finalize bao (content_of fs p) = Inr (out_outboard out, hash_as_bytes (out_hash out))"
proof -
  obtain x where 1: "fs_open fs p = x" by blast
  with assms obtain f where f: "fs_open fs p = Inr f"
    by (cases x) (auto simp: compute_outboard_def and_then_eq_Ok)
  obtain y where "file_read f = y" by blast
  with assms f obtain d where d: "file_read f = Inr d"
    by (cases y) (auto simp: compute_outboard_def and_then_eq_Ok)
  then have c: "content_of fs p = d" by (simp add: content_of_def f)
  obtain l where l: "file_len f = l" by blast
  with assms f obtain n where n: "l = Inr n"
    by (cases l) (auto simp: compute_outboard_def and_then_eq_Ok)
  obtain z where "bao_finalize bao d = z" by blast
  with assms f d obtain ob h where z: "bao_finalize bao d = Inr (ob, h)"
    by (cases z) (auto simp: compute_outboard_def and_then_eq_Ok Let_def)
  with assms f d l n c show ?thesis
    by (auto simp: compute_outboard_def and_then_eq_Ok Let_def)
qed

lemma source_outboard_Ok:
  assumes "source_outboard bao fs src = Ok out"
  shows "(\<exists>f. fs_open fs (fst out) = Inr f \<and> file_read f = Inr (content_of fs (fst out)))
    \<and> bao_finalize bao (content_of fs (fst out)) = Inr (out_outboard out, hash_as_bytes (out_hash out))"
proof (cases src)
  case (File p)
  with assms have "compute_outboard bao fs p None = Ok out" by (simp add: source_outboard_def)
  from compute_outboard_Ok [OF this] show ?thesis by auto
next
  case (NamedFile p n)
  with assms have "compute_outboard bao fs p (Some n) = Ok out" by (simp add: source_outboard_def)
  from compute_outboard_Ok [OF this] show ?thesis by auto
qed

definition out_content :: "fs_ops \<Rightarrow> outboard_result \<Rightarrow> bytes" where
  "out_content fs out = content_of fs (fst out)"

section \<open>The provider's side\<close>

context bao_encoder
begin

lemma source_root:
  assumes "source_outboard bao fs src = Ok out"
  shows "bao_outboard bao (out_content fs out) = (out_outboard out, hash_as_bytes (out_hash out))"
    and "root_hash bao (out_content fs out) = hash_as_bytes (out_hash out)"
    and "out_size out = of_nat (length (out_content fs out))"
proof -
  show ob: "bao_outboard bao (out_content fs out) = (out_outboard out, hash_as_bytes (out_hash out))"
    using source_outboard_Ok [OF assms] finalize_outboard by (metis out_content_def)
  show "root_hash bao (out_content fs out) = hash_as_bytes (out_hash out)"
    by (simp add: root_hash_def ob)
  show "out_size out = of_nat (length (out_content fs out))"
    using outboard_header(2) [of "out_content fs out"] by (simp add: out_size_def ob)
qed

lemma source_slice:
  assumes "source_outboard bao fs src = Ok out"
  shows "\<exists>d. snd (out_entry out) = Blob d \<and> blob_slice bao fs d = Some (bao_encoding bao (out_content fs out))"
proof -
  obtain f where f: "fs_open fs (fst out) = Inr f" "file_read f = Inr (out_content fs out)"
    using source_outboard_Ok [OF assms] by (auto simp: out_content_def)
  have "bao_slice bao (Inr (out_content fs out)) (out_outboard out) 0 (out_size out) =
      (bao_encoding bao (out_content fs out), None)"
    using slice_encoding [OF source_root(1) [OF assms]] source_root(3) [OF assms] by simp
  with f show ?thesis by (simp add: out_entry_def blob_slice_def)
qed

end

context exchange
begin

lemma blobs_wire_created:
  assumes "\<And>out. out \<in> set outs \<Longrightarrow> \<exists>src. source_outboard bao fs src = Ok out"
    and "inj_on (root_hash bao) (out_content fs ` set outs)"
    and "\<And>out. out \<in> set outs \<Longrightarrow> out_hash out \<noteq> h"
    and "set outs' \<subseteq> set outs"
  shows "blobs_wire fmt bao fs (database_of fmt outs h ob) rid (map out_blob outs') =
    Some (concat (map (\<lambda>out. response_bytes fmt rid Found @ bao_encoding bao (out_content fs out)) outs'), Sent)"
  using assms(4)
proof (induction outs')
  case (Cons out outs')
  then have mem: "out \<in> set outs" by simp
  from database_of_get_blob [OF mem assms(3) [OF mem], of fmt ob] obtain out' where
    out': "out' \<in> set outs" "out_hash out' = out_hash out"
      "database_get (database_of fmt outs h ob) (out_hash out) = Some (snd (out_entry out'))"
    by blast
  obtain src src' where src: "source_outboard bao fs src = Ok out" "source_outboard bao fs src' = Ok out'"
    using assms(1) mem out'(1) by blast
  have "root_hash bao (out_content fs out') = root_hash bao (out_content fs out)"
    using source_root(2) src out'(2) by metis
  then have same: "out_content fs out' = out_content fs out"
    using assms(2) mem out'(1) by (simp add: inj_on_def)
  obtain d where "snd (out_entry out') = Blob d"
      "blob_slice bao fs d = Some (bao_encoding bao (out_content fs out))"
    using source_slice [OF src(2)] same by auto
  with Cons out'(3) show ?case by (simp add: out_blob_def)
qed simp

end

section \<open>The getter's side\<close>

context exchange
begin

lemma response_frame:
  assumes "rest s = response_bytes fmt rid r @ rs"
  shows "\<exists>s'. read_lp_data ro \<lparr>rx_reader = s, rx_buffer = []\<rparr> =
      (Ok (Some (put_response fmt \<lparr>resp_id = rid, resp_data = r\<rparr>)), \<lparr>rx_reader = s', rx_buffer = []\<rparr>)
    \<and> rest s' = rs"
proof (rule read_lp_data_frame)
  show "rest s = frame (put_response fmt \<lparr>resp_id = rid, resp_data = r\<rparr>) @ rs"
    using assms by (simp add: response_bytes_def)
  show "length (put_response fmt \<lparr>resp_id = rid, resp_data = r\<rparr>) < 2 ^ 64"
    using length_put_response [of "\<lparr>resp_id = rid, resp_data = r\<rparr>"] by simp
qed

lemma response_decodes: "from_bytes (get_response fmt) (put_response fmt p) = Ok p"
  using get_put_response [of p "[]"] by (simp add: from_bytes_def)

lemma blob_response_found:
  assumes "rest s = response_bytes fmt rid Found @ bao_encoding bao d @ rs" and "length d < 2 ^ 64"
  shows "\<exists>x s'. handle_blob_response ro dops fmt (Hash (root_hash bao d)) \<lparr>rx_reader = s, rx_buffer = []\<rparr> =
      (Ok x, \<lparr>rx_reader = s', rx_buffer = []\<rparr>) \<and> pos x d d rs"
proof -
  obtain s1 where 1: "read_lp_data ro \<lparr>rx_reader = s, rx_buffer = []\<rparr> =
      (Ok (Some (put_response fmt \<lparr>resp_id = rid, resp_data = Found\<rparr>)), \<lparr>rx_reader = s1, rx_buffer = []\<rparr>)"
    and rest1: "rest s1 = bao_encoding bao d @ rs"
    using response_frame [OF assms(1)] by blast
  have "pos (dec_new dops s1 (root_hash bao d)) d d rs" by (rule dec_start [OF assms(2) rest1])
  with 1 show ?thesis
    by (simp add: handle_blob_response_def response_decodes data_stream_new_def hash_to_blake3_def)
qed

lemma saving_consumes: "consumes pos (saving dops) (\<lambda>u x. u @ [x])"
  unfolding consumes_def
proof (intro allI impI)
  fix h x n and u :: "(hash \<times> bytes \<times> string) list" and al rs
  assume "pos x al al rs"
  from dec_to_end [OF this] show "\<exists>x'. cb_blob (saving dops) h x n u = (Inr x', u @ [(h, al, n)]) \<and> pos x' al [] rs"
    by (auto simp: saving_def)
qed

lemma fetch_taking:
  assumes "\<And>b d. (b, d) \<in> set bds \<Longrightarrow> blob_hash b = Hash (root_hash bao d) \<and> length d < 2 ^ 64"
    and "rest s = concat (map (\<lambda>(b, d). response_bytes fmt rid Found @ bao_encoding bao d) bds) @ rs"
    and "taken pos cbs u (map (\<lambda>(b, d). (blob_hash b, d, blob_name b)) bds) u'"
  shows "\<exists>s'. fetched ro dops fmt cbs (map fst bds)
      \<lparr>gx_rx = \<lparr>rx_reader = s, rx_buffer = []\<rparr>, gx_user = u\<rparr> (map (\<lambda>(b, d). of_nat (length d)) bds)
      \<lparr>gx_rx = \<lparr>rx_reader = s', rx_buffer = []\<rparr>, gx_user = u'\<rparr>
    \<and> rest s' = rs"
  using assms
proof (induction bds arbitrary: s u)
  case Nil
  then show ?case by (auto intro: fetched.none)
next
  case (Cons bd bds)
  obtain b d where bd: "bd = (b, d)" by fastforce
  with Cons.prems(1) have b: "blob_hash b = Hash (root_hash bao d)" "length d < 2 ^ 64" by auto
  define tail_bytes where
    "tail_bytes = concat (map (\<lambda>(b, d). response_bytes fmt rid Found @ bao_encoding bao d) bds) @ rs"
  have "rest s = response_bytes fmt rid Found @ bao_encoding bao d @ tail_bytes"
    using Cons.prems(2) bd by (simp add: tail_bytes_def)
  from blob_response_found [OF this b(2)] obtain x0 s0 where
    0: "handle_blob_response ro dops fmt (blob_hash b) \<lparr>rx_reader = s, rx_buffer = []\<rparr> =
        (Ok x0, \<lparr>rx_reader = s0, rx_buffer = []\<rparr>)" "pos x0 d d tail_bytes"
    using b(1) by metis
  obtain x1 where 1: "dec_read_size dops x0 = (Inr (of_nat (length d)), x1)" "pos x1 d d tail_bytes"
    using dec_size [OF 0(2)] by blast
  from Cons.prems(3) bd obtain u1 where u1: "\<And>x rs. pos x d d rs \<Longrightarrow>
        \<exists>x'. cb_blob cbs (blob_hash b) x (blob_name b) u = (Inr x', u1) \<and> pos x' d [] rs"
      "taken pos cbs u1 (map (\<lambda>(b, d). (blob_hash b, d, blob_name b)) bds) u'"
    by auto
  obtain x2 where 2: "cb_blob cbs (blob_hash b) x1 (blob_name b) u = (Inr x2, u1)" "pos x2 d [] tail_bytes"
    using u1(1) [OF 1(2)] by blast
  have "length ([] :: bytes) < 1" by simp
  from dec_exact_end [OF 2(2) this] obtain x3 where
    3: "dec_read_exact dops x2 1 = (Inl UnexpectedEof, x3)" "pos x3 d [] tail_bytes" by blast
  have rest3: "rest (dec_into_inner dops x3) = tail_bytes" by (rule dec_inner [OF 3(2)])
  have "\<exists>s'. fetched ro dops fmt cbs (map fst bds)
      \<lparr>gx_rx = \<lparr>rx_reader = dec_into_inner dops x3, rx_buffer = []\<rparr>, gx_user = u1\<rparr>
      (map (\<lambda>(b, d). of_nat (length d)) bds) \<lparr>gx_rx = \<lparr>rx_reader = s', rx_buffer = []\<rparr>, gx_user = u'\<rparr>
    \<and> rest s' = rs"
    by (rule Cons.IH) (use Cons.prems(1) rest3 u1(2) in \<open>auto simp: tail_bytes_def\<close>)
  then obtain s' where rec: "fetched ro dops fmt cbs (map fst bds)
      \<lparr>gx_rx = \<lparr>rx_reader = dec_into_inner dops x3, rx_buffer = []\<rparr>, gx_user = u1\<rparr>
      (map (\<lambda>(b, d). of_nat (length d)) bds) \<lparr>gx_rx = \<lparr>rx_reader = s', rx_buffer = []\<rparr>, gx_user = u'\<rparr>"
    and rs: "rest s' = rs" by blast
  have "fetched ro dops fmt cbs (b # map fst bds)
      \<lparr>gx_rx = \<lparr>rx_reader = s, rx_buffer = []\<rparr>, gx_user = u\<rparr> (of_nat (length d) # map (\<lambda>(b, d). of_nat (length d)) bds)
      \<lparr>gx_rx = \<lparr>rx_reader = s', rx_buffer = []\<rparr>, gx_user = u'\<rparr>"
    by (rule fetched.one [where ?d0.0 = x0 and ?d1.0 = x1 and ?d2.0 = x2 and ?d3.0 = x3 and e = UnexpectedEof
          and rx = "\<lparr>rx_reader = s0, rx_buffer = []\<rparr>" and u = u1])
      (use 0 1 2 3 rec in \<open>simp_all add: data_stream_read_size_def data_stream_into_inner_def\<close>)
  with rs bd show ?case by auto
qed

lemma fetch_consuming:
  assumes cbs: "consumes pos cbs keep"
    and "\<And>b d. (b, d) \<in> set bds \<Longrightarrow> blob_hash b = Hash (root_hash bao d) \<and> length d < 2 ^ 64"
    and "rest s = concat (map (\<lambda>(b, d). response_bytes fmt rid Found @ bao_encoding bao d) bds) @ rs"
  shows "\<exists>s'. fetched ro dops fmt cbs (map fst bds)
      \<lparr>gx_rx = \<lparr>rx_reader = s, rx_buffer = []\<rparr>, gx_user = u\<rparr> (map (\<lambda>(b, d). of_nat (length d)) bds)
      \<lparr>gx_rx = \<lparr>rx_reader = s', rx_buffer = []\<rparr>,
       gx_user = foldl keep u (map (\<lambda>(b, d). (blob_hash b, d, blob_name b)) bds)\<rparr>
    \<and> rest s' = rs"
  using fetch_taking [OF assms(2,3) consumes_taken [OF cbs]] by blast

end

context exchange
begin

text \<open>
  A response to a request for a collection, as far as its blobs arrive: what is left to do
  is the loop over the later blobs, on what follows.
\<close>

lemma collection_response_taken:
  fixes cbs :: "('u, 'd) callbacks"
  assumes cbs: "taken pos cbs u (map (\<lambda>(b, d). (blob_hash b, d, blob_name b)) bds) u'"
      "cb_collection cbs c u0 = (Inr (), u)"
    and "rest s = response_bytes fmt rid (FoundCollection tot) @ bao_encoding bao data
      @ concat (map (\<lambda>(b, d). response_bytes fmt rid' Found @ bao_encoding bao d) bds) @ rs"
    and "length data < 2 ^ 64" and "collection_from_bytes fmt data = Ok c"
    and "coll_blobs c = map fst bds @ later"
    and "\<And>b d. (b, d) \<in> set bds \<Longrightarrow> blob_hash b = Hash (root_hash bao d)"
    and "tot \<le> MAX_DATA_SIZE" and "(\<Sum>(b, d)\<leftarrow>bds. length d) \<le> unat tot"
  shows "\<exists>s'. rest s' = rs \<and>
    read_response checks ro dops fmt cbs (Hash (root_hash bao data))
      \<lparr>gx_rx = \<lparr>rx_reader = s, rx_buffer = []\<rparr>, gx_user = u0\<rparr> =
    io_bind (receive_blobs checks ro dops fmt cbs tot later (tot - sum_list (map (\<lambda>(b, d). of_nat (length d)) bds)))
      (\<lambda>_. io_bind (shut_down_stream ro) (\<lambda>_. io_ret tot))
      \<lparr>gx_rx = \<lparr>rx_reader = s', rx_buffer = []\<rparr>, gx_user = u'\<rparr>"
proof -
  have MAX: "unat MAX_DATA_SIZE = 2 ^ 30" by (simp add: MAX_DATA_SIZE_def)
  have small: "length d \<le> 2 ^ 30" if "(b, d) \<in> set bds" for b d
  proof -
    have "length d \<le> (\<Sum>(b, d)\<leftarrow>bds. length d)"
      using that by (force intro: member_le_sum_list)
    with assms(8,9) MAX show ?thesis by (simp add: word_le_nat_alt)
  qed
  then have fits: "length d < 2 ^ 64" if "(b, d) \<in> set bds" for b d
    using that by fastforce
  let ?blobs = "concat (map (\<lambda>(b, d). response_bytes fmt rid' Found @ bao_encoding bao d) bds) @ rs"
  obtain s1 where 1: "read_lp_data ro \<lparr>rx_reader = s, rx_buffer = []\<rparr> =
        (Ok (Some (put_response fmt \<lparr>resp_id = rid, resp_data = FoundCollection tot\<rparr>)),
         \<lparr>rx_reader = s1, rx_buffer = []\<rparr>)"
      "rest s1 = bao_encoding bao data @ ?blobs"
    using response_frame [OF assms(3)] by blast
  obtain x where x: "dec_read_to_end dops (dec_new dops s1 (root_hash bao data)) = (Inr data, x)"
      "pos x data [] ?blobs"
    using dec_to_end [OF dec_start [OF assms(4) 1(2)]] by blast
  have 2: "read_bao_encoded dops (Hash (root_hash bao data)) s1 = (Ok data, dec_into_inner dops x)"
    using x(1) by (simp add: read_bao_encoded_def hash_to_blake3_def)
  have rest2: "rest (dec_into_inner dops x) = ?blobs" using dec_inner [OF x(2)] by simp
  obtain s3 where 3: "fetched ro dops fmt cbs (map fst bds)
        \<lparr>gx_rx = \<lparr>rx_reader = dec_into_inner dops x, rx_buffer = []\<rparr>, gx_user = u\<rparr>
        (map (\<lambda>(b, d). of_nat (length d)) bds)
        \<lparr>gx_rx = \<lparr>rx_reader = s3, rx_buffer = []\<rparr>, gx_user = u'\<rparr>" "rest s3 = rs"
    using fetch_taking [OF _ rest2 cbs(1)] fits assms(7) by auto
  have size: "unat (of_nat (length d) :: u64) = length d" if "(b, d) \<in> set bds" for b d
    using fits [OF that] by (simp add: unat_of_nat take_bit_eq_mod)
  have sizes: "list_all (\<lambda>sz. sz \<le> MAX_DATA_SIZE) (map (\<lambda>(b, d). of_nat (length d)) bds)"
    using small size MAX by (auto simp: list_all_iff word_le_nat_alt)
  have "(\<Sum>sz\<leftarrow>map (\<lambda>(b, d). of_nat (length d) :: u64) bds. unat sz) = (\<Sum>(b, d)\<leftarrow>bds. length d)"
    using size by (auto intro!: arg_cong [where f = sum_list] simp: comp_def)
  with assms(9) have total: "(\<Sum>sz\<leftarrow>map (\<lambda>(b, d). of_nat (length d) :: u64) bds. unat sz) \<le> unat tot"
    by simp
  note loop = fetched_receive_blobs_append [OF 3(1) sizes total, of checks tot later]
  have "receive_collection checks ro dops fmt cbs (Hash (root_hash bao data)) tot
      \<lparr>gx_rx = \<lparr>rx_reader = s1, rx_buffer = []\<rparr>, gx_user = u0\<rparr> =
    io_bind (receive_blobs checks ro dops fmt cbs tot later
        (tot - sum_list (map (\<lambda>(b, d). of_nat (length d)) bds))) (\<lambda>_. io_ret tot)
      \<lparr>gx_rx = \<lparr>rx_reader = s3, rx_buffer = []\<rparr>, gx_user = u'\<rparr>"
    using assms(5,8) loop
    by (simp add: receive_collection_def 2 cbs(2) Let_def assms(6) io_bind_def)
  note 6 = io_bind_continue [where m = "receive_collection checks ro dops fmt cbs (Hash (root_hash bao data)) tot",
      OF this, unfolded io_bind_ret]
  show ?thesis
    by (intro exI [of _ s3] conjI, rule 3(2))
      (simp add: read_response_def on_rx_def 1(1) response_decodes 6)
qed

lemma collection_response_prefix:
  fixes cbs :: "('u, 'd) callbacks"
  assumes cbs: "consumes pos cbs keep" "cb_collection cbs c u0 = (Inr (), u)"
    and "rest s = response_bytes fmt rid (FoundCollection tot) @ bao_encoding bao data
      @ concat (map (\<lambda>(b, d). response_bytes fmt rid' Found @ bao_encoding bao d) bds) @ rs"
    and "length data < 2 ^ 64" and "collection_from_bytes fmt data = Ok c"
    and "coll_blobs c = map fst bds @ later"
    and "\<And>b d. (b, d) \<in> set bds \<Longrightarrow> blob_hash b = Hash (root_hash bao d)"
    and "tot \<le> MAX_DATA_SIZE" and "(\<Sum>(b, d)\<leftarrow>bds. length d) \<le> unat tot"
  shows "\<exists>s' remaining. rest s' = rs \<and>
    read_response checks ro dops fmt cbs (Hash (root_hash bao data))
      \<lparr>gx_rx = \<lparr>rx_reader = s, rx_buffer = []\<rparr>, gx_user = u0\<rparr> =
    io_bind (receive_blobs checks ro dops fmt cbs tot later remaining)
      (\<lambda>_. io_bind (shut_down_stream ro) (\<lambda>_. io_ret tot))
      \<lparr>gx_rx = \<lparr>rx_reader = s', rx_buffer = []\<rparr>,
       gx_user = foldl keep u (map (\<lambda>(b, d). (blob_hash b, d, blob_name b)) bds)\<rparr>"
  using collection_response_taken [where checks = checks, OF consumes_taken [OF cbs(1)] cbs(2) assms(3-9)] by blast

lemma collection_response_served:
  assumes cbs: "taken pos cbs u (map (\<lambda>(b, d). (blob_hash b, d, blob_name b)) bds) u'"
      "cb_collection cbs c u0 = (Inr (), u)"
    and "rest s = response_bytes fmt rid (FoundCollection tot) @ bao_encoding bao data
      @ concat (map (\<lambda>(b, d). response_bytes fmt rid' Found @ bao_encoding bao d) bds)"
    and "length data < 2 ^ 64" and "collection_from_bytes fmt data = Ok c"
    and "coll_blobs c = map fst bds"
    and "\<And>b d. (b, d) \<in> set bds \<Longrightarrow> blob_hash b = Hash (root_hash bao d)"
    and "tot \<le> MAX_DATA_SIZE" and "(\<Sum>(b, d)\<leftarrow>bds. length d) \<le> unat tot"
  shows "\<exists>s'. read_response checks ro dops fmt cbs (Hash (root_hash bao data))
      \<lparr>gx_rx = \<lparr>rx_reader = s, rx_buffer = []\<rparr>, gx_user = u0\<rparr> =
    (Ok tot, \<lparr>gx_rx = \<lparr>rx_reader = s', rx_buffer = []\<rparr>, gx_user = u'\<rparr>)"
proof -
  obtain s3 where 1: "rest s3 = []"
      "read_response checks ro dops fmt cbs (Hash (root_hash bao data))
        \<lparr>gx_rx = \<lparr>rx_reader = s, rx_buffer = []\<rparr>, gx_user = u0\<rparr> =
      io_bind (receive_blobs checks ro dops fmt cbs tot [] (tot - sum_list (map (\<lambda>(b, d). of_nat (length d)) bds)))
        (\<lambda>_. io_bind (shut_down_stream ro) (\<lambda>_. io_ret tot))
        \<lparr>gx_rx = \<lparr>rx_reader = s3, rx_buffer = []\<rparr>, gx_user = u'\<rparr>"
    using collection_response_taken [where checks = checks and rs = "[]" and later = "[]", OF cbs, of s rid tot data rid'] assms(3-9) by auto
  obtain s4 where "recv_chunk ro s3 8 = (Inr None, s4)" using recv_chunk_end [OF 1(1)] by blast
  then show ?thesis
    by (intro exI [of _ s4]) (simp add: 1(2) shut_down_stream_def io_simps)
qed

end

context exchange
begin

lemma request_accepted:
  assumes "rest s = request_bytes fmt token h"
  shows "\<exists>rx1 rx2. read_handshake ro fmt token \<lparr>rx_reader = s, rx_buffer = []\<rparr> = (Ok (), rx1)
    \<and> read_request ro fmt rx1 = (Ok \<lparr>req_id = 1, req_name = h\<rparr>, rx2)"
proof -
  have "rest s = frame (put_handshake fmt (handshake_new token))
      @ frame (put_request fmt \<lparr>req_id = 1, req_name = h\<rparr>)"
    using assms by (simp add: request_bytes_def)
  from read_handshake_frame [OF postcard_axioms this, of token] obtain s1 where
    1: "read_handshake ro fmt token \<lparr>rx_reader = s, rx_buffer = []\<rparr> = (Ok (), \<lparr>rx_reader = s1, rx_buffer = []\<rparr>)"
      "rest s1 = frame (put_request fmt \<lparr>req_id = 1, req_name = h\<rparr>) @ []"
    by (auto simp: handshake_new_def)
  from read_request_frame [OF postcard_axioms 1(2)] 1(1) show ?thesis by auto
qed

lemma collection_served:
  assumes "rest s = request_bytes fmt token h"
    and "database_get db h = Some (Collection ob data)"
    and "bao_outboard bao data = (ob, hash_as_bytes h)" and "length data < 2 ^ 63"
    and "collection_from_bytes fmt data = Ok c"
    and "collection_wire fmt bao fs db 1 (bao_encoding bao data) c = Some (out, Sent)"
  shows "\<exists>w' buf. handle_stream ro wo fmt bao fs db token cid s w =
      (Ok (), \<lparr>tx_writer = w', tx_buffer = buf\<rparr>, [EvRequestReceived cid 1 h, EvTransferCompleted cid 1])
    \<and> sent w' = sent w @ out \<and> fin w'"
proof -
  obtain rx1 rx2 where 1: "read_handshake ro fmt token \<lparr>rx_reader = s, rx_buffer = []\<rparr> = (Ok (), rx1)"
      "read_request ro fmt rx1 = (Ok \<lparr>req_id = 1, req_name = h\<rparr>, rx2)"
    using request_accepted [OF assms(1)] by blast
  have "unat (of_nat (length data) :: u64) < 2 ^ 63"
    using assms(4) by (simp add: unat_of_nat take_bit_eq_mod)
  then have size: "bao_encoded_size bao (of_nat (length data)) < 2 ^ 64" by (rule encoded_size_fits)
  have dec: "from_bytes (get_collection fmt) data = Ok c"
    using assms(5) by (simp add: collection_from_bytes_def)
  from transfer_collection_refines [OF postcard_axioms eager_sink_axioms size slice_encoding [OF assms(3)]
      dec assms(6), of "\<lparr>tx_writer = w, tx_buffer = []\<rparr>"]
  obtain w' buf where "transfer_collection wo fmt bao fs db 1 ob data \<lparr>tx_writer = w, tx_buffer = []\<rparr> =
      (Ok Sent, \<lparr>tx_writer = w', tx_buffer = buf\<rparr>)" "sent w' = sent w @ out" "fin w'"
    by auto
  with 1 assms(2) show ?thesis by (simp add: handle_stream_def Let_def)
qed

end

section \<open>Delivery\<close>

fun source_path :: "data_source \<Rightarrow> path" where
  "source_path (File p) = p"
| "source_path (NamedFile p n) = p"

fun source_label :: "data_source \<Rightarrow> string" where
  "source_label (File p) = source_name p None"
| "source_label (NamedFile p n) = n"

definition source_content :: "fs_ops \<Rightarrow> data_source \<Rightarrow> bytes" where
  "source_content fs src = content_of fs (source_path src)"

lemma source_outboard_of:
  assumes "source_outboard bao fs src = Ok out"
  shows "out_content fs out = source_content fs src" and "blob_name (out_blob out) = source_label src"
proof -
  have "fst out = source_path src \<and> source_name (fst out) (fst (snd out)) = source_label src"
    using assms by (cases src) (auto simp: source_outboard_def source_name_def dest!: compute_outboard_Ok)
  then show "out_content fs out = source_content fs src" "blob_name (out_blob out) = source_label src"
    by (auto simp: out_content_def source_content_def out_blob_def)
qed

text \<open>What the caller of the getter is handed for a source: hash, contents and name.\<close>

definition delivered :: "bao_ops \<Rightarrow> fs_ops \<Rightarrow> data_source \<Rightarrow> hash \<times> bytes \<times> string" where
  "delivered bao fs src =
     (Hash (root_hash bao (source_content fs src)), source_content fs src, source_label src)"

text \<open>The collection that is made of sources.\<close>

definition shared_collection :: "bao_ops \<Rightarrow> fs_ops \<Rightarrow> data_source list \<Rightarrow> collection" where
  "shared_collection bao fs sources =
     \<lparr>coll_name = ''collection'',
      coll_blobs = map (\<lambda>src. \<lparr>blob_name = source_label src,
        blob_hash = Hash (root_hash bao (source_content fs src))\<rparr>) sources,
      coll_total_blobs_size = of_nat (sum_list (map (length \<circ> source_content fs) sources))\<rparr>"

text \<open>
  Assumptions on what is shared: names that Rust's strings can hold, at most 1 GiB in all,
  and no two different contents with the same hash among the sources and the collection.
\<close>

definition deliverable :: "bao_ops \<Rightarrow> fs_ops \<Rightarrow> data_source list \<Rightarrow> hash \<Rightarrow> bool" where
  "deliverable bao fs sources h \<longleftrightarrow>
     list_all (utf8_valid \<circ> source_label) sources
     \<and> sum_list (map (length \<circ> source_label) sources) < 2 ^ 62
     \<and> sum_list (map (length \<circ> source_content fs) sources) \<le> 2 ^ 30
     \<and> inj_on (root_hash bao) (set (map (source_content fs) sources))
     \<and> list_all (\<lambda>src. Hash (root_hash bao (source_content fs src)) \<noteq> h) sources"

context exchange
begin

lemma created_outboards:
  assumes "map (source_outboard bao fs) sources = map Ok outs"
  shows "map (out_content fs) outs = map (source_content fs) sources"
    and "map (blob_name \<circ> out_blob) outs = map source_label sources"
    and "map (\<lambda>out. (out_hash out, out_content fs out, blob_name (out_blob out))) outs = map (delivered bao fs) sources"
    and "map (\<lambda>out. unat (out_size out)) outs = map (\<lambda>src. length (source_content fs src) mod 2 ^ 64) sources"
proof -
  have len: "length sources = length outs" by (metis assms length_map)
  have out: "source_outboard bao fs (sources ! i) = Ok (outs ! i)" if "i < length outs" for i
    using arg_cong [OF assms, of "\<lambda>xs. xs ! i"] that len by simp
  show "map (out_content fs) outs = map (source_content fs) sources"
    by (rule nth_equalityI) (simp_all add: len source_outboard_of(1) [OF out])
  show "map (blob_name \<circ> out_blob) outs = map source_label sources"
    by (rule nth_equalityI) (simp_all add: len source_outboard_of(2) [OF out])
  have "out_hash (outs ! i) = Hash (root_hash bao (source_content fs (sources ! i)))" if "i < length outs" for i
    using source_root(2) [OF out [OF that]] source_outboard_of(1) [OF out [OF that]] hash.collapse by metis
  then show "map (\<lambda>out. (out_hash out, out_content fs out, blob_name (out_blob out))) outs = map (delivered bao fs) sources"
    by (intro nth_equalityI) (simp_all add: len delivered_def source_outboard_of [OF out])
  have "unat (out_size (outs ! i)) = length (source_content fs (sources ! i)) mod 2 ^ 64" if "i < length outs" for i
    using source_root(3) [OF out [OF that]] source_outboard_of(1) [OF out [OF that]]
    by (simp add: unat_of_nat take_bit_eq_mod)
  then show "map (\<lambda>out. unat (out_size out)) outs = map (\<lambda>src. length (source_content fs src) mod 2 ^ 64) sources"
    by (intro nth_equalityI) (simp_all add: len)
qed

lemma created_encoding:
  assumes "create_collection checks fmt bao fs sources = Ok (db, h)" and "deliverable bao fs sources h"
  obtains outs ob where "map (source_outboard bao fs) sources = map Ok outs"
    and "db = database_of fmt outs h ob"
    and "bao_outboard bao (put_collection fmt (collection_of outs)) = (ob, hash_as_bytes h)"
    and "length (put_collection fmt (collection_of outs)) < 2 ^ 63"
    and "collection_from_bytes fmt (put_collection fmt (collection_of outs)) = Ok (collection_of outs)"
proof -
  from assms(1) obtain outs ob where outs: "map (source_outboard bao fs) sources = map Ok outs"
    and len: "length (put_collection fmt (collection_of outs))
      \<le> (\<Sum>out\<leftarrow>outs. length (blob_name (out_blob out)) + 32) + 1034"
    and ob: "bao_outboard bao (put_collection fmt (collection_of outs)) = (ob, hash_as_bytes h)"
    and db: "db = database_of fmt outs h ob"
    by (rule create_collection_Ok)
  note names = created_outboards(2) [OF outs]
  have few: "length outs < 512"
    using create_collection_few [OF postcard_axioms assms(1)] outs by (metis length_map)
  have short: "sum_list (map length (map source_label sources)) < 2 ^ 62"
    using assms(2) by (simp add: deliverable_def comp_def)
  have "(\<Sum>out\<leftarrow>outs. length (blob_name (out_blob out)) + 32) =
      sum_list (map length (map (blob_name \<circ> out_blob) outs)) + 32 * length outs"
    by (induction outs) auto
  also have "\<dots> < 2 ^ 62 + 32 * 512"
    unfolding names using short few by (intro add_less_mono) simp_all
  finally have small: "length (put_collection fmt (collection_of outs)) < 2 ^ 63" using len by simp
  have "length n \<le> sum_list (map (length \<circ> source_label) sources)" if "n \<in> set (map source_label sources)" for n
    using that by (auto intro: member_le_sum_list)
  then have "list_all str_ok (map source_label sources)"
    using assms(2) by (fastforce simp: deliverable_def list_all_iff str_ok_def)
  then have "list_all (str_ok \<circ> blob_name) (map out_blob outs)"
    unfolding names [symmetric] by (simp add: list_all_iff)
  then have "collection_ok (collection_of outs)"
    using few by (simp add: collection_ok_def str_ok_def utf8_valid_def)
  from collection_round_trip [OF this, of "[]"] outs db ob small that show thesis by simp
qed

end

lemma outboard_source:
  assumes "map (source_outboard bao fs) sources = map Ok outs" and "out \<in> set outs"
  shows "\<exists>src \<in> set sources. source_outboard bao fs src = Ok out"
proof -
  from assms(2) have "Ok out \<in> set (map (source_outboard bao fs) sources)" by (simp add: assms(1))
  then show ?thesis by auto
qed

context exchange
begin

lemma created_total:
  assumes "map (source_outboard bao fs) sources = map Ok outs"
  shows "sum_list (map out_size outs) = of_nat (sum_list (map (length \<circ> source_content fs) sources))"
proof -
  have "out_size out = of_nat (length (out_content fs out))" if "out \<in> set outs" for out
    using outboard_source [OF assms(1) that] source_root(3) by blast
  then have "map out_size outs = map of_nat (map length (map (out_content fs) outs))" by simp
  also have "\<dots> = map of_nat (map (length \<circ> source_content fs) sources)"
    using created_outboards(1) [OF assms(1)] by simp
  finally have "map out_size outs = map of_nat (map (length \<circ> source_content fs) sources)" .
  moreover have "sum_list (map of_nat ns) = (of_nat (sum_list ns) :: u64)" for ns
    by (induction ns) simp_all
  ultimately show ?thesis by (simp only:)
qed

lemma created_collection:
  assumes "map (source_outboard bao fs) sources = map Ok outs"
  shows "collection_of outs = shared_collection bao fs sources"
proof -
  have "map out_blob outs = map (\<lambda>(h, d, n). \<lparr>blob_name = n, blob_hash = h\<rparr>)
      (map (\<lambda>out. (out_hash out, out_content fs out, blob_name (out_blob out))) outs)"
    by (simp add: out_blob_def comp_def)
  also have "\<dots> = map (\<lambda>(h, d, n). \<lparr>blob_name = n, blob_hash = h\<rparr>) (map (delivered bao fs) sources)"
    by (simp only: created_outboards(3) [OF assms])
  finally show ?thesis
    by (simp add: collection_of_def shared_collection_def created_total [OF assms] delivered_def comp_def)
qed

lemma created_hash:
  assumes "map (source_outboard bao fs) sources = map Ok outs" and "out \<in> set outs"
  shows "blob_hash (out_blob out) = Hash (root_hash bao (out_content fs out))"
proof -
  obtain src where "source_outboard bao fs src = Ok out"
    using outboard_source [OF assms] by blast
  then show ?thesis using source_root(2) hash.collapse by (metis blob.select_convs(2) out_blob_def)
qed

lemma created_total_small:
  assumes "map (source_outboard bao fs) sources = map Ok outs" and "deliverable bao fs sources h"
  shows "unat (sum_list (map out_size outs)) = sum_list (map length (map (out_content fs) outs))"
    and "sum_list (map out_size outs) \<le> MAX_DATA_SIZE"
proof -
  have small: "sum_list (map (length \<circ> source_content fs) sources) \<le> 2 ^ 30"
    using assms(2) by (simp add: deliverable_def)
  then have u: "unat (sum_list (map out_size outs)) = sum_list (map (length \<circ> source_content fs) sources)"
    by (simp add: created_total [OF assms(1)] unat_of_nat take_bit_eq_mod)
  then show "unat (sum_list (map out_size outs)) = sum_list (map length (map (out_content fs) outs))"
    unfolding created_outboards(1) [OF assms(1)] by (simp add: comp_def)
  show "sum_list (map out_size outs) \<le> MAX_DATA_SIZE"
    using u small by (simp add: word_le_nat_alt MAX_DATA_SIZE_def)
qed

lemma created_blobs_wire:
  assumes "map (source_outboard bao fs) sources = map Ok outs" and "deliverable bao fs sources h"
    and "set outs' \<subseteq> set outs"
  shows "blobs_wire fmt bao fs (database_of fmt outs h ob) rid (map out_blob outs') =
    Some (concat (map (\<lambda>(b, d). response_bytes fmt rid Found @ bao_encoding bao d)
        (map (\<lambda>out. (out_blob out, out_content fs out)) outs')), Sent)"
proof -
  note src = outboard_source [OF assms(1)]
  have "inj_on (root_hash bao) (out_content fs ` set outs)"
    using assms(2) created_outboards(1) [OF assms(1)] unfolding deliverable_def by (metis list.set_map)
  moreover have "out_hash out \<noteq> h" if m: "out \<in> set outs" for out
  proof -
    obtain src where s: "src \<in> set sources" "source_outboard bao fs src = Ok out" using src [OF m] by blast
    with assms(2) have "Hash (root_hash bao (source_content fs src)) \<noteq> h"
      by (simp add: deliverable_def list_all_iff)
    then show ?thesis
      using source_root(2) [OF s(2)] source_outboard_of(1) [OF s(2)] hash.collapse by metis
  qed
  ultimately have "blobs_wire fmt bao fs (database_of fmt outs h ob) rid (map out_blob outs') =
    Some (concat (map (\<lambda>out. response_bytes fmt rid Found @ bao_encoding bao (out_content fs out)) outs'), Sent)"
    using src assms(3) by (intro blobs_wire_created) blast+
  then show ?thesis by (simp add: comp_def)
qed

lemma created_wire:
  assumes "map (source_outboard bao fs) sources = map Ok outs" and "deliverable bao fs sources h"
  shows "collection_wire fmt bao fs (database_of fmt outs h ob) rid encoded (collection_of outs) =
    Some (response_bytes fmt rid (FoundCollection (sum_list (map out_size outs))) @ encoded
      @ concat (map (\<lambda>(b, d). response_bytes fmt rid Found @ bao_encoding bao d)
          (map (\<lambda>out. (out_blob out, out_content fs out)) outs)), Sent)"
  using created_blobs_wire [OF assms order_refl, of ob rid] by (simp add: collection_wire_def)

end

text \<open>
  A request is answered with all that the getter needs to hand over every source: the
  announcement, the collection, and for every source its blob.
\<close>

definition shared_size :: "fs_ops \<Rightarrow> data_source list \<Rightarrow> u64" where
  "shared_size fs sources = of_nat (sum_list (map (length \<circ> source_content fs) sources))"

definition response_parts ::
    "format \<Rightarrow> bao_ops \<Rightarrow> fs_ops \<Rightarrow> data_source list \<Rightarrow> hash \<Rightarrow> bytes \<Rightarrow> bytes \<Rightarrow> (blob \<times> bytes) list \<Rightarrow> bool" where
  "response_parts fmt bao fs sources h out data bds \<longleftrightarrow>
     out = response_bytes fmt 1 (FoundCollection (shared_size fs sources)) @ bao_encoding bao data
        @ concat (map (\<lambda>(b, d). response_bytes fmt 1 Found @ bao_encoding bao d) bds)
   \<and> Hash (root_hash bao data) = h \<and> length data < 2 ^ 64
   \<and> collection_from_bytes fmt data = Ok (shared_collection bao fs sources)
   \<and> coll_blobs (shared_collection bao fs sources) = map fst bds
   \<and> list_all (\<lambda>(b, d). blob_hash b = Hash (root_hash bao d)) bds
   \<and> shared_size fs sources \<le> MAX_DATA_SIZE
   \<and> (\<Sum>(b, d)\<leftarrow>bds. length d) = unat (shared_size fs sources)
   \<and> map (\<lambda>(b, d). (blob_hash b, d, blob_name b)) bds = map (delivered bao fs) sources"

text \<open>What remains of an announced total when some of its blobs have arrived covers the next one.\<close>

lemma remaining_covers:
  assumes "(\<Sum>(b, d)\<leftarrow>bds. length d) + n \<le> unat tot" and "tot \<le> MAX_DATA_SIZE"
  shows "(of_nat n :: u64) \<le> tot - sum_list (map (\<lambda>(b, d). of_nat (length d)) bds)"
    and "(of_nat n :: u64) \<le> MAX_DATA_SIZE" and "n < 2 ^ 64"
proof -
  have MAX: "unat MAX_DATA_SIZE = 2 ^ 30" by (simp add: MAX_DATA_SIZE_def)
  have small: "unat tot \<le> 2 ^ 30" using assms(2) MAX by (simp add: word_le_nat_alt)
  with assms(1) show "n < 2 ^ 64" by simp
  then have n: "unat (of_nat n :: u64) = n" by (simp add: unat_of_nat take_bit_nat_eq_self)
  have sum: "sum_list (map (\<lambda>(b, d). of_nat (length d)) bds) = (of_nat (\<Sum>(b, d)\<leftarrow>bds. length d) :: u64)"
    by (induction bds) auto
  have "unat (of_nat (\<Sum>(b, d)\<leftarrow>bds. length d) :: u64) = (\<Sum>(b, d)\<leftarrow>bds. length d)"
    using assms(1) small by (simp add: unat_of_nat take_bit_nat_eq_self)
  then show "(of_nat n :: u64) \<le> tot - sum_list (map (\<lambda>(b, d). of_nat (length d)) bds)" "(of_nat n :: u64) \<le> MAX_DATA_SIZE"
    using assms(1) small MAX by (simp_all add: sum word_le_nat_alt unat_sub_if_size n)
qed

context exchange
begin

lemma created_response:
  assumes "create_collection checks fmt bao fs sources = Ok (db, h)" and "deliverable bao fs sources h"
    and "rest s = request_bytes fmt token h" and "sent w = []"
  shows "\<exists>w' buf data bds. handle_stream ro wo fmt bao fs db token cid s w =
      (Ok (), \<lparr>tx_writer = w', tx_buffer = buf\<rparr>, [EvRequestReceived cid 1 h, EvTransferCompleted cid 1])
    \<and> fin w' \<and> response_parts fmt bao fs sources h (sent w') data bds"
proof -
  from assms(1,2) obtain outs ob where outs: "map (source_outboard bao fs) sources = map Ok outs"
    and db: "db = database_of fmt outs h ob"
    and ob: "bao_outboard bao (put_collection fmt (collection_of outs)) = (ob, hash_as_bytes h)"
    and len: "length (put_collection fmt (collection_of outs)) < 2 ^ 63"
    and dec: "collection_from_bytes fmt (put_collection fmt (collection_of outs)) = Ok (collection_of outs)"
    by (rule created_encoding)
  let ?data = "put_collection fmt (collection_of outs)"
  let ?tot = "sum_list (map out_size outs)"
  let ?bds = "map (\<lambda>out. (out_blob out, out_content fs out)) outs"
  have tot: "shared_size fs sources = ?tot" by (simp add: shared_size_def created_total [OF outs])
  have get: "database_get db h = Some (Collection ob ?data)" by (simp add: db database_of_get)
  from collection_served [OF assms(3) get ob len dec created_wire [OF outs assms(2), of ob, folded db], of cid w]
  obtain w' buf where 1: "handle_stream ro wo fmt bao fs db token cid s w =
      (Ok (), \<lparr>tx_writer = w', tx_buffer = buf\<rparr>, [EvRequestReceived cid 1 h, EvTransferCompleted cid 1])"
      "fin w'"
    and wire: "sent w' = response_bytes fmt 1 (FoundCollection ?tot) @ bao_encoding bao ?data
        @ concat (map (\<lambda>(b, d). response_bytes fmt 1 Found @ bao_encoding bao d) ?bds)"
    using assms(4) by auto
  have root: "Hash (root_hash bao ?data) = h"
    using ob hash.collapse by (metis root_hash_def snd_conv)
  have hashes: "list_all (\<lambda>(b, d). blob_hash b = Hash (root_hash bao d)) ?bds"
    using created_hash [OF outs] by (auto simp: list_all_iff)
  have sum: "(\<Sum>(b, d)\<leftarrow>?bds. length d) = unat ?tot"
    by (simp add: created_total_small(1) [OF outs assms(2)] comp_def)
  have items: "map (\<lambda>(b, d). (blob_hash b, d, blob_name b)) ?bds = map (delivered bao fs) sources"
    using created_outboards(3) [OF outs] by (simp add: out_blob_def comp_def)
  have blobs: "coll_blobs (shared_collection bao fs sources) = map fst ?bds"
    unfolding created_collection [OF outs, symmetric] by simp
  have dec': "collection_from_bytes fmt ?data = Ok (shared_collection bao fs sources)"
    using dec by (simp add: created_collection [OF outs])
  have "length ?data < 2 ^ 64" using len by simp
  then have "response_parts fmt bao fs sources h (sent w') ?data ?bds"
    unfolding response_parts_def tot
    by (intro conjI wire root hashes sum items blobs dec' created_total_small(2) [OF outs assms(2)])
  with 1 show ?thesis by blast
qed

lemma delivery:
  assumes "create_collection checks fmt bao fs sources = Ok (db, h)" and "deliverable bao fs sources h"
    and "rest s = request_bytes fmt token h" and "sent w = []"
    and cbs: "taken pos cbs u (map (delivered bao fs) sources) u'" "cb_collection cbs (shared_collection bao fs sources) u0 = (Inr (), u)"
  shows "\<exists>w' buf. handle_stream ro wo fmt bao fs db token cid s w =
      (Ok (), \<lparr>tx_writer = w', tx_buffer = buf\<rparr>, [EvRequestReceived cid 1 h, EvTransferCompleted cid 1])
    \<and> fin w'
    \<and> (\<forall>s'. rest s' = sent w' \<longrightarrow>
        (\<exists>g. read_response checks' ro dops fmt cbs h
            \<lparr>gx_rx = \<lparr>rx_reader = s', rx_buffer = []\<rparr>, gx_user = u0\<rparr> =
          (Ok (of_nat (sum_list (map (length \<circ> source_content fs) sources))), g)
         \<and> gx_user g = u'))"
proof -
  let ?tot = "shared_size fs sources"
  from created_response [OF assms(1-4), of cid] obtain w' buf data bds where 1: "handle_stream ro wo fmt bao fs db token cid s w =
      (Ok (), \<lparr>tx_writer = w', tx_buffer = buf\<rparr>, [EvRequestReceived cid 1 h, EvTransferCompleted cid 1])" "fin w'"
    and wire: "sent w' = response_bytes fmt 1 (FoundCollection ?tot) @ bao_encoding bao data
        @ concat (map (\<lambda>(b, d). response_bytes fmt 1 Found @ bao_encoding bao d) bds)"
    and root: "Hash (root_hash bao data) = h" and len: "length data < 2 ^ 64"
    and dec: "collection_from_bytes fmt data = Ok (shared_collection bao fs sources)"
    and blobs: "coll_blobs (shared_collection bao fs sources) = map fst bds"
    and all_hashes: "list_all (\<lambda>(b, d). blob_hash b = Hash (root_hash bao d)) bds"
    and max: "?tot \<le> MAX_DATA_SIZE" and sum: "(\<Sum>(b, d)\<leftarrow>bds. length d) = unat ?tot"
    and items: "map (\<lambda>(b, d). (blob_hash b, d, blob_name b)) bds = map (delivered bao fs) sources"
    unfolding response_parts_def by blast
  have hashes: "blob_hash b = Hash (root_hash bao d)" if "(b, d) \<in> set bds" for b d
    using all_hashes that by (auto simp: list_all_iff)
  have "\<exists>g. read_response checks' ro dops fmt cbs h
        \<lparr>gx_rx = \<lparr>rx_reader = s', rx_buffer = []\<rparr>, gx_user = u0\<rparr> = (Ok ?tot, g)
      \<and> gx_user g = u'" if s': "rest s' = sent w'" for s'
    using collection_response_served [OF cbs [folded items] s' [unfolded wire] len dec blobs hashes max eq_refl [OF sum], of checks']
    unfolding root by fastforce
  with 1 show ?thesis unfolding shared_size_def by blast
qed

text \<open>
  A caller that leaves a part of a blob unread, after it has taken the sources before it:
  the getter ends with an error, though all of it was sent.
\<close>

lemma unread_response:
  fixes cbs :: "('u, 'd) callbacks"
  assumes wire: "rest s = response_bytes fmt 1 (FoundCollection tot) @ bao_encoding bao data
        @ concat (map (\<lambda>(b, d). response_bytes fmt 1 Found @ bao_encoding bao d) bds)
        @ response_bytes fmt 1 Found @ bao_encoding bao d @ rs"
    and "length data < 2 ^ 64" and "collection_from_bytes fmt data = Ok c"
    and "coll_blobs c = map fst bds @ b # later"
    and hashes: "\<And>b d. (b, d) \<in> set bds \<Longrightarrow> blob_hash b = Hash (root_hash bao d)"
    and max: "tot \<le> MAX_DATA_SIZE" and sum: "(\<Sum>(b, d)\<leftarrow>bds. length d) + length d \<le> unat tot"
    and "blob_hash b = Hash (root_hash bao d)"
    and cbs: "taken pos cbs u (map (\<lambda>(b, d). (blob_hash b, d, blob_name b)) bds) u1" "cb_collection cbs c u0 = (Inr (), u)"
    and unread: "\<And>x rs. pos x d d rs \<Longrightarrow>
      \<exists>x' lft. cb_blob cbs (blob_hash b) x (blob_name b) u1 = (Inr x', u2) \<and> pos x' d lft rs \<and> lft \<noteq> []"
  shows "\<exists>g. read_response checks ro dops fmt cbs (Hash (root_hash bao data))
      \<lparr>gx_rx = \<lparr>rx_reader = s, rx_buffer = []\<rparr>, gx_user = u0\<rparr> = (Err BlobNotFullyRead, g) \<and> gx_user g = u2"
proof -
  let ?rem = "tot - sum_list (map (\<lambda>(b, d). of_nat (length d)) bds)"
  note le = remaining_covers [OF sum max]
  have sum1: "(\<Sum>(b, d)\<leftarrow>bds. length d) \<le> unat tot" using sum by simp
  from collection_response_taken [OF cbs wire assms(2-4) hashes max sum1, of checks] obtain s1 where
    s1: "rest s1 = response_bytes fmt 1 Found @ bao_encoding bao d @ rs"
      "read_response checks ro dops fmt cbs (Hash (root_hash bao data))
        \<lparr>gx_rx = \<lparr>rx_reader = s, rx_buffer = []\<rparr>, gx_user = u0\<rparr> =
        io_bind (receive_blobs checks ro dops fmt cbs tot (b # later) ?rem)
          (\<lambda>_. io_bind (shut_down_stream ro) (\<lambda>_. io_ret tot))
          \<lparr>gx_rx = \<lparr>rx_reader = s1, rx_buffer = []\<rparr>, gx_user = u1\<rparr>" by blast
  from blob_response_found [OF s1(1) le(3)] obtain x0 s2 where
    0: "handle_blob_response ro dops fmt (blob_hash b) \<lparr>rx_reader = s1, rx_buffer = []\<rparr> =
      (Ok x0, \<lparr>rx_reader = s2, rx_buffer = []\<rparr>)" "pos x0 d d rs" using assms(8) by metis
  obtain x1 where 2: "dec_read_size dops x0 = (Inr (of_nat (length d)), x1)" "pos x1 d d rs"
    using dec_size [OF 0(2)] by blast
  obtain x2 lft where 3: "cb_blob cbs (blob_hash b) x1 (blob_name b) u1 = (Inr x2, u2)" "pos x2 d lft rs" "lft \<noteq> []"
    using unread [OF 2(2)] by blast
  have "1 \<le> length lft" using 3(3) by (simp add: Suc_le_eq)
  from dec_exact [OF 3(2) this] obtain x3 where "dec_read_exact dops x2 1 = (Inr (take 1 lft), x3)" by blast
  with 0(1) 2(1) 3(1) le(1,2) s1(2) show ?thesis
    by (simp add: data_stream_read_size_def io_bind_def)
qed

lemma unread_delivery:
  assumes "create_collection checks fmt bao fs sources = Ok (db, h)" and "deliverable bao fs sources h"
    and "rest s = request_bytes fmt token h" and "sent w = []"
    and "sources = before @ src # later"
    and cbs: "taken pos cbs u (map (delivered bao fs) before) u1" "cb_collection cbs (shared_collection bao fs sources) u0 = (Inr (), u)"
    and unread: "\<And>x rs. pos x (source_content fs src) (source_content fs src) rs \<Longrightarrow>
      \<exists>x' lft. cb_blob cbs (Hash (root_hash bao (source_content fs src))) x (source_label src) u1 = (Inr x', u2)
        \<and> pos x' (source_content fs src) lft rs \<and> lft \<noteq> []"
  shows "\<exists>w' buf. handle_stream ro wo fmt bao fs db token cid s w =
      (Ok (), \<lparr>tx_writer = w', tx_buffer = buf\<rparr>, [EvRequestReceived cid 1 h, EvTransferCompleted cid 1])
    \<and> fin w'
    \<and> (\<forall>s'. rest s' = sent w' \<longrightarrow>
        (\<exists>g. read_response checks' ro dops fmt cbs h
            \<lparr>gx_rx = \<lparr>rx_reader = s', rx_buffer = []\<rparr>, gx_user = u0\<rparr> = (Err BlobNotFullyRead, g)
         \<and> gx_user g = u2))"
proof -
  let ?tot = "shared_size fs sources"
  from created_response [OF assms(1-4), of cid] obtain w' buf data bds where 1: "handle_stream ro wo fmt bao fs db token cid s w =
      (Ok (), \<lparr>tx_writer = w', tx_buffer = buf\<rparr>, [EvRequestReceived cid 1 h, EvTransferCompleted cid 1])" "fin w'"
    and wire: "sent w' = response_bytes fmt 1 (FoundCollection ?tot) @ bao_encoding bao data
        @ concat (map (\<lambda>(b, d). response_bytes fmt 1 Found @ bao_encoding bao d) bds)"
    and root: "Hash (root_hash bao data) = h" and len: "length data < 2 ^ 64"
    and dec: "collection_from_bytes fmt data = Ok (shared_collection bao fs sources)"
    and blobs: "coll_blobs (shared_collection bao fs sources) = map fst bds"
    and all_hashes: "list_all (\<lambda>(b, d). blob_hash b = Hash (root_hash bao d)) bds"
    and max: "?tot \<le> MAX_DATA_SIZE" and sum: "(\<Sum>(b, d)\<leftarrow>bds. length d) = unat ?tot"
    and items: "map (\<lambda>(b, d). (blob_hash b, d, blob_name b)) bds = map (delivered bao fs) sources"
    unfolding response_parts_def by blast
  from items assms(5) obtain bds1 b d bds2 where bds: "bds = bds1 @ (b, d) # bds2"
    and items1: "map (\<lambda>(b, d). (blob_hash b, d, blob_name b)) bds1 = map (delivered bao fs) before"
    and item: "(blob_hash b, d, blob_name b) = delivered bao fs src"
    by (auto simp: map_eq_append_conv map_eq_Cons_conv)
  have b: "d = source_content fs src" "blob_hash b = Hash (root_hash bao d)" "blob_name b = source_label src"
    using item by (auto simp: delivered_def)
  have later: "coll_blobs (shared_collection bao fs sources) = map fst bds1 @ b # map fst bds2" by (simp add: blobs bds)
  have h1: "blob_hash b = Hash (root_hash bao d)" if "(b, d) \<in> set bds1" for b d
    using all_hashes that by (auto simp: bds list_all_iff)
  have sum1: "(\<Sum>(b, d)\<leftarrow>bds1. length d) + length d \<le> unat ?tot" using sum bds by simp
  have "\<exists>g. read_response checks' ro dops fmt cbs h
      \<lparr>gx_rx = \<lparr>rx_reader = s', rx_buffer = []\<rparr>, gx_user = u0\<rparr> = (Err BlobNotFullyRead, g) \<and> gx_user g = u2"
    if "rest s' = sent w'" for s'
    unfolding root [symmetric]
  proof (rule unread_response [OF _ len dec later h1 max sum1 b(2) cbs(1) [folded items1] cbs(2)])
    show "rest s' = response_bytes fmt 1 (FoundCollection ?tot) @ bao_encoding bao data
        @ concat (map (\<lambda>(b, d). response_bytes fmt 1 Found @ bao_encoding bao d) bds1) @ response_bytes fmt 1 Found
        @ bao_encoding bao d @ concat (map (\<lambda>(b, d). response_bytes fmt 1 Found @ bao_encoding bao d) bds2)"
      using that by (simp add: wire bds)
  qed (use unread b in auto)
  with 1 show ?thesis by blast
qed

end

text \<open>
  The whole exchange for any callbacks that take the sources in order: what the getter
  sends, what the provider does with it, what the getter makes of the answer.
\<close>

lemma exchange_taken:
  assumes "exchange fmt bao ro rest dops pos wo sent fin"
    and "create_collection checks fmt bao fs sources = Ok (db, h)"
    and "deliverable bao fs sources h"
    and "sent wc = []" and "sent wp = []"
    and keep: "taken pos cbs u (map (delivered bao fs) sources) u'"
    and coll: "cb_collection cbs (shared_collection bao fs sources) u1 = (Inr (), u)"
    and conn: "cb_connected cbs u0 = (Inr (), u1)"
  shows "\<exists>wc'. send_request wo fmt token h wc = (Ok (), wc') \<and> fin wc'
    \<and> (\<forall>s. rest s = sent wc' \<longrightarrow>
        (\<exists>wp' buf. handle_stream ro wo fmt bao fs db token cid s wp =
            (Ok (), \<lparr>tx_writer = wp', tx_buffer = buf\<rparr>, [EvRequestReceived cid 1 h, EvTransferCompleted cid 1])
          \<and> fin wp'
          \<and> (\<forall>s'. rest s' = sent wp' \<longrightarrow>
              run checks' (\<lambda>opts. Ok (wc, s')) ro wo dops fmt cbs h token opts elapsed u0 =
                (Ok \<lparr>st_data_len = of_nat (sum_list (map (length \<circ> source_content fs) sources)),
                     st_elapsed = elapsed\<rparr>, Some wc', u'))))"
proof -
  have fmt: "postcard fmt" and sink: "byte_sink wo sent fin"
    using assms(1) by (simp_all add: exchange_def eager_sink_def)
  obtain wc' where 1: "send_request wo fmt token h wc = (Ok (), wc')"
      "sent wc' = request_bytes fmt token h" "fin wc'"
    using send_request_ok [OF fmt sink, of token h wc] assms(4) by auto
  have "\<exists>wp' buf. handle_stream ro wo fmt bao fs db token cid s wp =
        (Ok (), \<lparr>tx_writer = wp', tx_buffer = buf\<rparr>, [EvRequestReceived cid 1 h, EvTransferCompleted cid 1])
      \<and> fin wp'
      \<and> (\<forall>s'. rest s' = sent wp' \<longrightarrow>
          run checks' (\<lambda>opts. Ok (wc, s')) ro wo dops fmt cbs h token opts elapsed u0 =
            (Ok \<lparr>st_data_len = of_nat (sum_list (map (length \<circ> source_content fs) sources)),
                 st_elapsed = elapsed\<rparr>, Some wc', u'))"
    if s: "rest s = sent wc'" for s
    using exchange.delivery [OF assms(1-3) s [unfolded 1(2)] assms(5) keep coll, of cid checks']
    by (elim exE conjE) (fastforce simp: run_def conn 1(1))
  with 1 show ?thesis by blast
qed

lemma exchange_delivers:
  assumes "exchange fmt bao ro rest dops pos wo sent fin"
    and "create_collection checks fmt bao fs sources = Ok (db, h)"
    and "deliverable bao fs sources h"
    and "sent wc = []" and "sent wp = []"
    and keep: "consumes pos cbs keep"
    and coll: "cb_collection cbs (shared_collection bao fs sources) u1 = (Inr (), u)"
    and conn: "cb_connected cbs u0 = (Inr (), u1)"
  shows "\<exists>wc'. send_request wo fmt token h wc = (Ok (), wc') \<and> fin wc'
    \<and> (\<forall>s. rest s = sent wc' \<longrightarrow>
        (\<exists>wp' buf. handle_stream ro wo fmt bao fs db token cid s wp =
            (Ok (), \<lparr>tx_writer = wp', tx_buffer = buf\<rparr>, [EvRequestReceived cid 1 h, EvTransferCompleted cid 1])
          \<and> fin wp'
          \<and> (\<forall>s'. rest s' = sent wp' \<longrightarrow>
              run checks' (\<lambda>opts. Ok (wc, s')) ro wo dops fmt cbs h token opts elapsed u0 =
                (Ok \<lparr>st_data_len = of_nat (sum_list (map (length \<circ> source_content fs) sources)),
                     st_elapsed = elapsed\<rparr>, Some wc', foldl keep u (map (delivered bao fs) sources)))))"
  by (rule exchange_taken [OF assms(1-5) consumes_taken [OF keep] coll conn])

section \<open>A stream and its two ends\<close>

text \<open>
  A stream between a getter and a task of the provider: what the getter writes for its
  request is what the task reads, and what the task writes is what the getter reads. The
  getter's end is \<open>(w, s)\<close>, the task's \<open>(sp, wp)\<close>.
\<close>

definition stream_pair ::
    "'s recv_ops \<Rightarrow> 'w send_ops \<Rightarrow> format \<Rightarrow> bao_ops \<Rightarrow> fs_ops \<Rightarrow> ('s \<Rightarrow> bytes) \<Rightarrow> ('w \<Rightarrow> bytes)
       \<Rightarrow> database \<Rightarrow> auth_token \<Rightarrow> u64 \<Rightarrow> auth_token \<Rightarrow> hash \<Rightarrow> 'w \<times> 's \<Rightarrow> 's \<times> 'w \<Rightarrow> bool" where
  "stream_pair ro wo fmt bao fs rest sent db provider_token cid token h =
     (\<lambda>(w, s) (sp, wp). sent w = [] \<and> sent wp = []
        \<and> rest sp = sent (snd (send_request wo fmt token h w))
        \<and> rest s = sent (tx_writer (fst (snd (handle_stream ro wo fmt bao fs db provider_token cid sp wp)))))"

lemma stream_pair_served:
  assumes "exchange fmt bao ro rest dops pos wo sent fin"
    and "create_collection checks fmt bao fs sources = Ok (db, h)"
    and "deliverable bao fs sources h"
    and "stream_pair ro wo fmt bao fs rest sent db token cid token h (w, s) (sp, wp)"
    and keep: "taken pos cbs u (map (delivered bao fs) sources) u'"
    and coll: "cb_collection cbs (shared_collection bao fs sources) u1 = (Inr (), u)"
    and conn: "cb_connected cbs u0 = (Inr (), u1)"
    and "net_open opts = Ok (w, s)"
  shows "run checks' net_open ro wo dops fmt cbs h token opts elapsed u0 =
      (Ok \<lparr>st_data_len = of_nat (sum_list (map (length \<circ> source_content fs) sources)), st_elapsed = elapsed\<rparr>,
       Some (snd (send_request wo fmt token h w)), u')"
    and "fst (handle_stream ro wo fmt bao fs db token cid sp wp) = Ok ()"
    and "snd (snd (handle_stream ro wo fmt bao fs db token cid sp wp)) =
      [EvRequestReceived cid 1 h, EvTransferCompleted cid 1]"
proof -
  from assms(4) have p: "sent w = []" "sent wp = []" "rest sp = sent (snd (send_request wo fmt token h w))"
      "rest s = sent (tx_writer (fst (snd (handle_stream ro wo fmt bao fs db token cid sp wp))))"
    by (simp_all add: stream_pair_def)
  from exchange_taken [OF assms(1-3) p(1,2) keep coll conn, of token cid checks' opts elapsed] p(3)
  obtain wc' wp' buf where 1: "send_request wo fmt token h w = (Ok (), wc')"
    and 2: "handle_stream ro wo fmt bao fs db token cid sp wp =
        (Ok (), \<lparr>tx_writer = wp', tx_buffer = buf\<rparr>, [EvRequestReceived cid 1 h, EvTransferCompleted cid 1])"
    and 3: "\<forall>s'. rest s' = sent wp' \<longrightarrow> run checks' (\<lambda>opts. Ok (w, s')) ro wo dops fmt cbs h token opts elapsed u0 =
        (Ok \<lparr>st_data_len = of_nat (sum_list (map (length \<circ> source_content fs) sources)), st_elapsed = elapsed\<rparr>, Some wc', u')"
    by auto
  have "run checks' net_open ro wo dops fmt cbs h token opts elapsed u0 =
      run checks' (\<lambda>opts. Ok (w, s)) ro wo dops fmt cbs h token opts elapsed u0"
    by (simp add: run_def assms(8))
  with 1 2 3 p(4) show "run checks' net_open ro wo dops fmt cbs h token opts elapsed u0 =
      (Ok \<lparr>st_data_len = of_nat (sum_list (map (length \<circ> source_content fs) sources)), st_elapsed = elapsed\<rparr>,
       Some (snd (send_request wo fmt token h w)), u')" by simp
  from 2 show "fst (handle_stream ro wo fmt bao fs db token cid sp wp) = Ok ()"
    "snd (snd (handle_stream ro wo fmt bao fs db token cid sp wp)) =
      [EvRequestReceived cid 1 h, EvTransferCompleted cid 1]" by simp_all
qed

lemma stream_pair_unread:
  assumes "exchange fmt bao ro rest dops pos wo sent fin"
    and "create_collection checks fmt bao fs sources = Ok (db, h)"
    and "deliverable bao fs sources h"
    and "stream_pair ro wo fmt bao fs rest sent db token cid token h (w, s) (sp, wp)"
    and "sources = before @ src # later"
    and taken: "taken pos cbs u (map (delivered bao fs) before) u'"
    and coll: "cb_collection cbs (shared_collection bao fs sources) u1 = (Inr (), u)"
    and conn: "cb_connected cbs u0 = (Inr (), u1)"
    and unread: "\<And>x rs. pos x (source_content fs src) (source_content fs src) rs \<Longrightarrow>
      \<exists>x' lft. cb_blob cbs (Hash (root_hash bao (source_content fs src))) x (source_label src) u' = (Inr x', u2)
        \<and> pos x' (source_content fs src) lft rs \<and> lft \<noteq> []"
    and "net_open opts = Ok (w, s)"
  shows "run checks' net_open ro wo dops fmt cbs h token opts elapsed u0 =
      (Err BlobNotFullyRead, Some (snd (send_request wo fmt token h w)), u2)"
    and "snd (snd (handle_stream ro wo fmt bao fs db token cid sp wp)) =
      [EvRequestReceived cid 1 h, EvTransferCompleted cid 1]"
proof -
  from assms(4) have p: "sent w = []" "sent wp = []" "rest sp = sent (snd (send_request wo fmt token h w))"
      "rest s = sent (tx_writer (fst (snd (handle_stream ro wo fmt bao fs db token cid sp wp))))"
    by (simp_all add: stream_pair_def)
  have fmt: "postcard fmt" and sink: "byte_sink wo sent fin"
    using assms(1) by (simp_all add: exchange_def eager_sink_def)
  obtain w1 where 1: "send_request wo fmt token h w = (Ok (), w1)" "sent w1 = request_bytes fmt token h"
    using send_request_ok [OF fmt sink, of token h w] p(1) by auto
  have "rest sp = request_bytes fmt token h" using p(3) 1 by simp
  from exchange.unread_delivery [OF assms(1-3) this p(2) assms(5) taken coll unread, of cid checks'] p(4)
  obtain g where 2: "read_response checks' ro dops fmt cbs h
      \<lparr>gx_rx = \<lparr>rx_reader = s, rx_buffer = []\<rparr>, gx_user = u1\<rparr> = (Err BlobNotFullyRead, g)" "gx_user g = u2"
    and 3: "snd (snd (handle_stream ro wo fmt bao fs db token cid sp wp)) =
      [EvRequestReceived cid 1 h, EvTransferCompleted cid 1]"
    by auto
  from 1(1) 2 show "run checks' net_open ro wo dops fmt cbs h token opts elapsed u0 =
      (Err BlobNotFullyRead, Some (snd (send_request wo fmt token h w)), u2)"
    by (simp add: run_def assms(10) conn)
  from 3 show "snd (snd (handle_stream ro wo fmt bao fs db token cid sp wp)) =
      [EvRequestReceived cid 1 h, EvTransferCompleted cid 1]" .
qed

end
