(* ===== verification/Samples.thy ===== *)
theory Samples
  imports Exchange
begin

text \<open>
  A concrete provider for the witnesses: two small files, their collection and the plain
  encoder, with the properties of collections applied to them.
\<close>

definition two_files :: fs_ops where
  "two_files =
     \<lparr>fs_is_file = (\<lambda>p. True),
      fs_open = (\<lambda>p. let d = (if p = ''/data/a.txt'' then [1, 2, 3] else [4, 5]) in
        Inr \<lparr>file_len = Inr (of_nat (length d)), file_read = Inr d\<rparr>)\<rparr>"

definition two_sources :: "data_source list" where
  "two_sources = [File ''/data/a.txt'', NamedFile ''/data/b.txt'' ''b'']"

lemma digest_eq: "digest a = digest b \<longleftrightarrow> take 32 (a @ replicate 32 0) = take 32 (b @ replicate 32 0)"
  unfolding digest_def by (subst Bytes32_inject) simp_all


lemma two_outboards:
  "map (source_outboard plain_bao two_files) two_sources = map Ok
     [(''/data/a.txt'', None, Hash (digest [1, 2, 3]), u64_to_le_bytes 3),
      (''/data/b.txt'', Some ''b'', Hash (digest [4, 5]), u64_to_le_bytes 2)]"
  by (simp add: two_sources_def two_files_def plain_bao_def source_outboard_def compute_outboard_def Let_def)

lemma two_names: "source_name ''/data/a.txt'' None = ''a.txt''"
  by code_simp

lemma utf8_names [simp]: "utf8_valid ''a.txt''" "utf8_valid ''b''"
  by code_simp+


definition two_collection :: collection where
  "two_collection = \<lparr>coll_name = ''collection'',
     coll_blobs = [\<lparr>blob_name = ''a.txt'', blob_hash = Hash (digest [1, 2, 3])\<rparr>,
                   \<lparr>blob_name = ''b'', blob_hash = Hash (digest [4, 5])\<rparr>],
     coll_total_blobs_size = 5\<rparr>"

lemma two_collection_length: "length (put_collection wire_format two_collection) \<le> 1104"
  by (simp add: two_collection_def put_collection_def put_vec_def put_blob_def wire.length_put_hash)
    (simp add: wire_format_def varint_small)

lemma two_created:
  "\<exists>db. create_collection True wire_format plain_bao two_files two_sources =
     Ok (db, Hash (digest (put_collection wire_format two_collection)))"
proof -
  have "source_name ''/data/b.txt'' (Some ''b'') = ''b''" by (simp add: source_name_def)
  with two_collection_length show ?thesis
    unfolding create_collection_def two_outboards
    by (simp add: insert_outboard_def slice_to_def building_new_def add_u64_def two_names Let_def
        to_slice_def two_collection_def [symmetric] plain_bao_def)
qed


lemma two_hash: "c \<noteq> 10 \<Longrightarrow> digest (c # cs) \<noteq> digest (put_collection wire_format two_collection)"
proof -
  have "\<exists>rs. put_collection wire_format two_collection = 10 # rs"
    by (simp add: two_collection_def put_collection_def wire_format_def varint_small)
  moreover assume "c \<noteq> 10"
  ultimately show ?thesis by (auto simp: digest_eq)
qed

lemma digests_differ: "digest [1, 2, 3] \<noteq> digest [4, 5]"
  by (simp add: digest_eq)

lemma two_deliverable:
  "deliverable plain_bao two_files two_sources (Hash (digest (put_collection wire_format two_collection)))"
  by (simp add: deliverable_def two_sources_def two_names source_content_def content_of_def two_files_def
      root_hash_def plain_bao_def two_hash digests_differ Let_def)

section \<open>The properties of created collections, applied\<close>


theorem create_collection_total_witness:
  "\<exists>db c ob. create_collection True wire_format plain_bao two_files two_sources =
      Ok (db, Hash (digest (put_collection wire_format two_collection)))
    \<and> database_get db (Hash (digest (put_collection wire_format two_collection))) =
        Some (Collection ob (put_collection wire_format c))
    \<and> coll_total_blobs_size c = 5"
proof -
  obtain db where db: "create_collection True wire_format plain_bao two_files two_sources =
      Ok (db, Hash (digest (put_collection wire_format two_collection)))"
    using two_created by blast
  from create_collection_total [OF db] obtain c ob outs where
    1: "database_get db (Hash (digest (put_collection wire_format two_collection))) =
          Some (Collection ob (put_collection wire_format c))"
    and 2: "map (source_outboard plain_bao two_files) two_sources = map Ok outs"
      "coll_total_blobs_size c = sum_list (map out_size outs)"
    by blast
  have inj: "inj (Ok :: outboard_result \<Rightarrow> (outboard_result, provide_error) outcome)"
    by (simp add: inj_def)
  from 2(1) have "outs = [(''/data/a.txt'', None, Hash (digest [1, 2, 3]), u64_to_le_bytes 3),
      (''/data/b.txt'', Some ''b'', Hash (digest [4, 5]), u64_to_le_bytes 2)]"
    unfolding two_outboards inj_map_eq_map [OF inj] by simp
  with 2(2) have "coll_total_blobs_size c = 5" by (simp add: out_size_def)
  with db 1 show ?thesis by blast
qed

theorem database_listing_witness:
  "\<exists>db. create_collection True wire_format plain_bao two_files two_sources =
      Ok (db, Hash (digest (put_collection wire_format two_collection)))
    \<and> distinct (map fst (database_blobs db))"
  using two_created database_listing by blast

theorem create_collection_too_many_witness:
  "\<forall>db h. create_collection True wire_format plain_bao two_files (replicate 512 (File ''/data/a.txt'')) \<noteq> Ok (db, h)"
  by (intro allI create_collection_too_many [OF wire.postcard_axioms]) simp

section \<open>The getter on concrete streams\<close>

text \<open>A caller that notes its calls and reads every blob to the end.\<close>

definition noting :: "('s, 'd) decoder_ops \<Rightarrow> ((hash \<times> string) list, 'd) callbacks" where
  "noting dops =
     \<lparr>cb_connected = (\<lambda>u. (Inr (), u)),
      cb_collection = (\<lambda>c u. (Inr (), u)),
      cb_blob = (\<lambda>h d n u. (Inr (snd (dec_read_to_end dops d)), u @ [(h, n)]))\<rparr>"

definition one_blob_stream :: chunk_stream where
  "one_blob_stream = [response_bytes wire_format 1 Found @ bao_encoding plain_bao [1, 2, 3]]"

lemma one_blob_received:
  "\<exists>g'. receive_blobs True chunk_ops plain_dec_ops wire_format (noting plain_dec_ops) 3
      [\<lparr>blob_name = ''a'', blob_hash = Hash (digest [1, 2, 3])\<rparr>] 3
      \<lparr>gx_rx = \<lparr>rx_reader = one_blob_stream, rx_buffer = []\<rparr>, gx_user = []\<rparr> = (Ok (), g')"
proof -
  let ?d = "[1, 2, 3] :: bytes"
  have "concat one_blob_stream = response_bytes wire_format 1 Found @ bao_encoding plain_bao ?d @ []"
    by (simp add: one_blob_stream_def)
  then obtain x s' where 1: "handle_blob_response chunk_ops plain_dec_ops wire_format (Hash (root_hash plain_bao ?d))
      \<lparr>rx_reader = one_blob_stream, rx_buffer = []\<rparr> = (Ok x, \<lparr>rx_reader = s', rx_buffer = []\<rparr>)" "plain_pos x ?d ?d []"
    using plain_exchange.blob_response_found [of one_blob_stream 1 ?d "[]"] by auto
  obtain x1 where 2: "dec_read_size plain_dec_ops x = (Inr (of_nat (length ?d)), x1)" "plain_pos x1 ?d ?d []"
    using plain_transfer.dec_size [OF 1(2)] by blast
  obtain x2 where 3: "dec_read_to_end plain_dec_ops x1 = (Inr ?d, x2)" "plain_pos x2 ?d [] []"
    using plain_transfer.dec_to_end [OF 2(2)] by blast
  obtain x3 where 4: "dec_read_exact plain_dec_ops x2 1 = (Inl UnexpectedEof, x3)"
    using plain_transfer.dec_exact_end [OF 3(2), of 1] by auto
  have "root_hash plain_bao ?d = digest ?d" by (simp add: root_hash_def plain_bao_def)
  with 1(1) 2(1) 3(1) 4 show ?thesis
    by (simp add: data_stream_read_size_def noting_def MAX_DATA_SIZE_def io_ret_def)
qed

theorem blob_callbacks_in_order_witness:
  "\<exists>g'. receive_blobs True chunk_ops plain_dec_ops wire_format (noting plain_dec_ops) 3
      [\<lparr>blob_name = ''a'', blob_hash = Hash (digest [1, 2, 3])\<rparr>] 3
      \<lparr>gx_rx = \<lparr>rx_reader = one_blob_stream, rx_buffer = []\<rparr>, gx_user = []\<rparr> = (Ok (), g')
    \<and> gx_user g' = [(Hash (digest [1, 2, 3]), ''a'')]"
proof -
  obtain g' where g': "receive_blobs True chunk_ops plain_dec_ops wire_format (noting plain_dec_ops) 3
      [\<lparr>blob_name = ''a'', blob_hash = Hash (digest [1, 2, 3])\<rparr>] 3
      \<lparr>gx_rx = \<lparr>rx_reader = one_blob_stream, rx_buffer = []\<rparr>, gx_user = []\<rparr> = (Ok (), g')"
    using one_blob_received by blast
  have "snd (cb_blob (noting plain_dec_ops) h d n u) = u @ [(h, n)]" for h d n u
    by (simp add: noting_def)
  from blob_callbacks_in_order [OF this g'] g' show ?thesis by auto
qed

theorem read_response_panics_witness:
  "\<exists>g'. read_response True chunk_ops plain_dec_ops wire_format (noting plain_dec_ops) (Hash (fill32 0))
      \<lparr>gx_rx = \<lparr>rx_reader = [u64_to_le_bytes 5, [1]], rx_buffer = []\<rparr>, gx_user = []\<rparr> =
    (Panic SplitOutOfRange, g')"
proof -
  let ?g = "\<lparr>gx_rx = \<lparr>rx_reader = [u64_to_le_bytes 5, [1]], rx_buffer = []\<rparr>, gx_user = []\<rparr>"
  have "concat [u64_to_le_bytes 5, [1]] = u64_to_le_bytes 5 @ [1]" by simp
  then obtain rx where "read_lp_data chunk_ops \<lparr>rx_reader = [u64_to_le_bytes 5, [1]], rx_buffer = []\<rparr> = (Panic SplitOutOfRange, rx)"
    using loopback.read_lp_data_truncated [of "[u64_to_le_bytes 5, [1]]" 5 "[1]"]
    by (cases "read_lp_data chunk_ops \<lparr>rx_reader = [u64_to_le_bytes 5, [1]], rx_buffer = []\<rparr>") auto
  then obtain p g' where p: "read_response True chunk_ops plain_dec_ops wire_format (noting plain_dec_ops) (Hash (fill32 0)) ?g = (Panic p, g')"
    by (auto simp: read_response_def on_rx_def)
  from read_response_panics [OF this] p show ?thesis by auto
qed

end
