(* ===== verification/Certificate.thy ===== *)
theory Certificate
  imports Identity
begin

text \<open>
  \<^verbatim>\<open>src/tls/certificate.rs\<close>: generating, parsing and verifying the self-signed
  certificates that carry a peer's identity. DER and X.509 (x509_parser, der), signature
  verification (ring, ed25519_dalek), certificate generation (rcgen) and the registry of
  object identifiers (oid_registry) are parameters.
\<close>

section \<open>Parameters\<close>

type_synonym oid = "nat list"

record extension =
  ext_oid :: oid
  ext_value :: bytes
  ext_critical :: bool

text \<open>
  \<open>alg_parameters\<close>: absent, there but not an object identifier (\<^verbatim>\<open>as_oid\<close> fails), or the
  object identifier.
\<close>

record algorithm_id =
  alg_oid :: oid
  alg_parameters :: "oid option option"

text \<open>\<open>x_valid\<close> is \<^verbatim>\<open>validity().is_valid()\<close> at the time of the check.\<close>

record x509 =
  x_extensions :: "extension list"
  x_tbs_raw :: bytes
  x_valid :: bool
  x_spki_raw :: bytes
  x_spki_key :: bytes
  x_spki_algorithm :: algorithm_id
  x_signature_algorithm :: algorithm_id
  x_signature_value :: bytes

record oid_registry =
  OID_KEY_TYPE_EC_PUBLIC_KEY :: oid
  OID_EC_P256 :: oid
  OID_NIST_EC_P384 :: oid
  OID_NIST_EC_P521 :: oid
  OID_SIG_ECDSA_WITH_SHA256 :: oid
  OID_SIG_ECDSA_WITH_SHA384 :: oid
  OID_SIG_ECDSA_WITH_SHA512 :: oid
  OID_SIG_ED25519 :: oid
  OID_SIG_ED448 :: oid

datatype verification_algorithm = ECDSA_P256_SHA256_ASN1 | ECDSA_P384_SHA384_ASN1 | RING_ED25519

record x509_ops =
  x509_from_der :: "bytes \<Rightarrow> x509 option"
  signed_key_from_der :: "bytes \<Rightarrow> (bytes \<times> bytes) option"
  signed_key_to_vec :: "bytes \<times> bytes \<Rightarrow> bytes"
  ring_verify :: "verification_algorithm \<Rightarrow> bytes \<Rightarrow> bytes \<Rightarrow> bytes \<Rightarrow> bool"
  oids :: oid_registry

text \<open>rcgen: a key pair for the certificate, and the certificate with one custom extension.\<close>

record ('ck, 'ge) rcgen_ops =
  rcgen_generate :: "'ge + 'ck"
  ck_serialize_der :: "'ck \<Rightarrow> bytes"
  ck_public_key_der :: "'ck \<Rightarrow> bytes"
  rcgen_certificate :: "'ck \<Rightarrow> extension list \<Rightarrow> 'ge + bytes"

datatype signature_scheme =
    RSA_PKCS1_SHA1
  | ECDSA_SHA1_Legacy
  | RSA_PKCS1_SHA256
  | ECDSA_NISTP256_SHA256
  | RSA_PKCS1_SHA384
  | ECDSA_NISTP384_SHA384
  | RSA_PKCS1_SHA512
  | ECDSA_NISTP521_SHA512
  | RSA_PSS_SHA256
  | RSA_PSS_SHA384
  | RSA_PSS_SHA512
  | ED25519
  | ED448
  | UnknownScheme u16

datatype webpki_error =
    BadDer
  | ExtensionValueInvalid
  | UnknownIssuer
  | UnsupportedCriticalExtension
  | UnsupportedSignatureAlgorithm
  | UnsupportedSignatureAlgorithmForPublicKey
  | InvalidCertValidity
  | SignatureAlgorithmMismatch
  | InvalidSignatureForPublicKey

section \<open>Constants and types\<close>

definition P2P_EXT_OID :: oid where
  "P2P_EXT_OID = [1, 3, 6, 1, 4, 1, 53594, 1, 1]"

definition P2P_SIGNING_PREFIX :: bytes where
  "P2P_SIGNING_PREFIX = str_bytes ''libp2p-tls-handshake:''"

record ('pk, 'sg) p2p_extension =
  px_public_key :: 'pk
  px_signature :: 'sg

record ('pk, 'sg) p2p_certificate =
  pc_certificate :: x509
  pc_extension :: "('pk, 'sg) p2p_extension"

datatype parse_error = ParseError webpki_error

datatype verification_error = VerificationError webpki_error

datatype 'ge gen_error = GenError 'ge

section \<open>Parsing\<close>

definition parse_signed_key ::
    "x509_ops \<Rightarrow> ('pk, 'sk, 'sg, 'ke) ed25519_ops \<Rightarrow> bytes
       \<Rightarrow> (('pk, 'sg) p2p_extension, webpki_error) outcome" where
  "parse_signed_key xo ed v =
     and_then (ok_or ExtensionValueInvalid (signed_key_from_der xo v)) (\<lambda>(pk_bytes, sig_bytes).
     and_then (of_sum (\<lambda>_. UnknownIssuer) (pk_from_bytes ed pk_bytes)) (\<lambda>public_key.
     and_then (of_sum (\<lambda>_. UnknownIssuer) (sig_from_bytes ed sig_bytes)) (\<lambda>signature.
     Ok \<lparr>px_public_key = public_key, px_signature = signature\<rparr>)))"

text \<open>The loop over the extensions; the accumulator is \<^verbatim>\<open>libp2p_extension\<close>.\<close>

fun parse_extensions ::
    "x509_ops \<Rightarrow> ('pk, 'sk, 'sg, 'ke) ed25519_ops \<Rightarrow> extension list \<Rightarrow> ('pk, 'sg) p2p_extension option
       \<Rightarrow> (('pk, 'sg) p2p_extension option, webpki_error) outcome" where
  "parse_extensions xo ed [] acc = Ok acc"
| "parse_extensions xo ed (e # es) acc =
     (if ext_oid e = P2P_EXT_OID \<and> acc \<noteq> None then Err BadDer
      else if ext_oid e = P2P_EXT_OID then
        and_then (parse_signed_key xo ed (ext_value e)) (\<lambda>x. parse_extensions xo ed es (Some x))
      else if ext_critical e then Err UnsupportedCriticalExtension
      else parse_extensions xo ed es acc)"

definition parse_unverified ::
    "x509_ops \<Rightarrow> ('pk, 'sk, 'sg, 'ke) ed25519_ops \<Rightarrow> bytes
       \<Rightarrow> (('pk, 'sg) p2p_certificate, webpki_error) outcome" where
  "parse_unverified xo ed der_input =
     and_then (ok_or BadDer (x509_from_der xo der_input)) (\<lambda>x.
     and_then (parse_extensions xo ed (x_extensions x) None) (\<lambda>libp2p_extension.
     and_then (ok_or BadDer libp2p_extension) (\<lambda>ext.
     Ok \<lparr>pc_certificate = x, pc_extension = ext\<rparr>)))"

section \<open>Signature schemes\<close>

definition cert_signature_scheme ::
    "x509_ops \<Rightarrow> ('pk, 'sg) p2p_certificate \<Rightarrow> (signature_scheme, webpki_error) outcome" where
  "cert_signature_scheme xo c =
     (let sig_alg = x_signature_algorithm (pc_certificate c);
          pki_alg = x_spki_algorithm (pc_certificate c);
          r = oids xo
      in if alg_oid pki_alg = OID_KEY_TYPE_EC_PUBLIC_KEY r then
           and_then (ok_or BadDer (alg_parameters pki_alg)) (\<lambda>any.
           and_then (ok_or BadDer any) (\<lambda>param.
             if param = OID_EC_P256 r \<and> alg_oid sig_alg = OID_SIG_ECDSA_WITH_SHA256 r
             then Ok ECDSA_NISTP256_SHA256
             else if param = OID_NIST_EC_P384 r \<and> alg_oid sig_alg = OID_SIG_ECDSA_WITH_SHA384 r
             then Ok ECDSA_NISTP384_SHA384
             else if param = OID_NIST_EC_P521 r \<and> alg_oid sig_alg = OID_SIG_ECDSA_WITH_SHA512 r
             then Ok ECDSA_NISTP521_SHA512
             else Err UnsupportedSignatureAlgorithm))
         else if alg_oid sig_alg = OID_SIG_ED25519 r then Ok ED25519
         else if alg_oid sig_alg = OID_SIG_ED448 r then Ok ED448
         else Err UnsupportedSignatureAlgorithm)"

fun scheme_algorithm :: "signature_scheme \<Rightarrow> (verification_algorithm, webpki_error) outcome" where
  "scheme_algorithm ECDSA_NISTP256_SHA256 = Ok ECDSA_P256_SHA256_ASN1"
| "scheme_algorithm ECDSA_NISTP384_SHA384 = Ok ECDSA_P384_SHA384_ASN1"
| "scheme_algorithm ED25519 = Ok RING_ED25519"
| "scheme_algorithm _ = Err UnsupportedSignatureAlgorithm"

definition cert_public_key ::
    "x509_ops \<Rightarrow> ('pk, 'sg) p2p_certificate \<Rightarrow> signature_scheme
       \<Rightarrow> (verification_algorithm \<times> bytes, webpki_error) outcome" where
  "cert_public_key xo c scheme =
     and_then (cert_signature_scheme xo c) (\<lambda>current.
     and_then (ensure (scheme = current) UnsupportedSignatureAlgorithmForPublicKey) (\<lambda>_.
     and_then (scheme_algorithm scheme) (\<lambda>alg.
     Ok (alg, x_spki_key (pc_certificate c)))))"

definition verify_signature ::
    "x509_ops \<Rightarrow> ('pk, 'sg) p2p_certificate \<Rightarrow> signature_scheme \<Rightarrow> bytes \<Rightarrow> bytes
       \<Rightarrow> (unit, verification_error) outcome" where
  "verify_signature xo c scheme message signature =
     map_err VerificationError
       (and_then (cert_public_key xo c scheme) (\<lambda>(alg, key).
        ensure (ring_verify xo alg key message signature) InvalidSignatureForPublicKey))"

definition cert_peer_id :: "('pk, 'sg) p2p_certificate \<Rightarrow> 'pk peer_id" where
  "cert_peer_id c = PeerId (px_public_key (pc_extension c))"

section \<open>Verifying\<close>

definition cert_verify ::
    "x509_ops \<Rightarrow> ('pk, 'sk, 'sg, 'ke) ed25519_ops \<Rightarrow> ('pk, 'sg) p2p_certificate
       \<Rightarrow> (unit, webpki_error) outcome" where
  "cert_verify xo ed c =
     and_then (ensure (x_valid (pc_certificate c)) InvalidCertValidity) (\<lambda>_.
     and_then (cert_signature_scheme xo c) (\<lambda>scheme.
     and_then
       (map_err (\<lambda>_. SignatureAlgorithmMismatch)
         (verify_signature xo c scheme (x_tbs_raw (pc_certificate c)) (x_signature_value (pc_certificate c)))) (\<lambda>_.
     let msg = P2P_SIGNING_PREFIX @ x_spki_raw (pc_certificate c) in
     ensure (ed_verify ed (px_public_key (pc_extension c)) msg (px_signature (pc_extension c))) UnknownIssuer)))"

definition parse ::
    "x509_ops \<Rightarrow> ('pk, 'sk, 'sg, 'ke) ed25519_ops \<Rightarrow> bytes
       \<Rightarrow> (('pk, 'sg) p2p_certificate, parse_error) outcome" where
  "parse xo ed certificate =
     map_err ParseError
       (and_then (parse_unverified xo ed certificate) (\<lambda>c.
        and_then (cert_verify xo ed c) (\<lambda>_. Ok c)))"

section \<open>Generating\<close>

definition make_libp2p_extension ::
    "x509_ops \<Rightarrow> ('pk, 'sk, 'sg, 'ke) ed25519_ops \<Rightarrow> ('ck, 'ge) rcgen_ops \<Rightarrow> ('pk, 'sk) keypair \<Rightarrow> 'ck
       \<Rightarrow> (extension, 'ge) outcome" where
  "make_libp2p_extension xo ed rc identity_keypair certificate_keypair =
     (let signature = keypair_sign ed identity_keypair (P2P_SIGNING_PREFIX @ ck_public_key_der rc certificate_keypair);
          public_key = keypair_public identity_keypair;
          content = signed_key_to_vec xo (bytes_of (pk_as_bytes ed public_key), sig_to_bytes ed signature)
      in Ok \<lparr>ext_oid = P2P_EXT_OID, ext_value = content, ext_critical = True\<rparr>)"

definition generate ::
    "x509_ops \<Rightarrow> ('pk, 'sk, 'sg, 'ke) ed25519_ops \<Rightarrow> ('ck, 'ge) rcgen_ops \<Rightarrow> ('pk, 'sk) keypair
       \<Rightarrow> (bytes \<times> bytes, 'ge gen_error) outcome" where
  "generate xo ed rc identity_keypair =
     map_err GenError
       (and_then (of_sum id (rcgen_generate rc)) (\<lambda>certificate_keypair.
        let rustls_key = ck_serialize_der rc certificate_keypair in
        and_then (make_libp2p_extension xo ed rc identity_keypair certificate_keypair) (\<lambda>ext.
        and_then (of_sum id (rcgen_certificate rc certificate_keypair [ext])) (\<lambda>certificate.
        Ok (certificate, rustls_key)))))"

section \<open>What parsing accepts\<close>

abbreviation p2p_exts :: "extension list \<Rightarrow> extension list" where
  "p2p_exts es \<equiv> filter (\<lambda>e. ext_oid e = P2P_EXT_OID) es"

abbreviation no_critical :: "extension list \<Rightarrow> bool" where
  "no_critical es \<equiv> list_all (\<lambda>e. ext_oid e \<noteq> P2P_EXT_OID \<longrightarrow> \<not> ext_critical e) es"

lemma parse_extensions_some:
  "parse_extensions xo ed es (Some x) = Ok r \<longleftrightarrow> r = Some x \<and> p2p_exts es = [] \<and> no_critical es"
  by (induction es) auto

lemma parse_extensions_none:
  "parse_extensions xo ed es None = Ok (Some x) \<longleftrightarrow>
   (\<exists>e. p2p_exts es = [e] \<and> parse_signed_key xo ed (ext_value e) = Ok x) \<and> no_critical es"
  by (induction es) (auto simp: and_then_eq_Ok parse_extensions_some)

lemma parse_signed_key_Ok:
  "parse_signed_key xo ed v = Ok x \<longleftrightarrow>
   (\<exists>k s. signed_key_from_der xo v = Some (k, s) \<and> pk_from_bytes ed k = Inr (px_public_key x)
      \<and> sig_from_bytes ed s = Inr (px_signature x))"
proof -
  have sum: "of_sum g r = Ok y \<longleftrightarrow> r = Inr y" for g r y by (cases r) auto
  show ?thesis by (cases x) (auto simp: parse_signed_key_def and_then_eq_Ok sum)
qed

lemma parse_unverified_Ok:
  "parse_unverified xo ed der = Ok c \<longleftrightarrow>
   (\<exists>e. x509_from_der xo der = Some (pc_certificate c)
      \<and> p2p_exts (x_extensions (pc_certificate c)) = [e]
      \<and> no_critical (x_extensions (pc_certificate c))
      \<and> parse_signed_key xo ed (ext_value e) = Ok (pc_extension c))"
  by (cases c) (auto simp: parse_unverified_def and_then_eq_Ok parse_extensions_none)

lemma verify_signature_Ok:
  "verify_signature xo c scheme msg s = Ok u \<longleftrightarrow>
   (\<exists>alg. cert_signature_scheme xo c = Ok scheme \<and> scheme_algorithm scheme = Ok alg
      \<and> ring_verify xo alg (x_spki_key (pc_certificate c)) msg s)"
  by (auto simp: verify_signature_def cert_public_key_def and_then_eq_Ok)

lemma cert_verify_Ok:
  "cert_verify xo ed c = Ok u \<longleftrightarrow>
   x_valid (pc_certificate c)
   \<and> (\<exists>scheme alg. cert_signature_scheme xo c = Ok scheme \<and> scheme_algorithm scheme = Ok alg
        \<and> ring_verify xo alg (x_spki_key (pc_certificate c)) (x_tbs_raw (pc_certificate c))
            (x_signature_value (pc_certificate c)))
   \<and> ed_verify ed (px_public_key (pc_extension c)) (P2P_SIGNING_PREFIX @ x_spki_raw (pc_certificate c))
       (px_signature (pc_extension c))"
  by (auto simp: cert_verify_def and_then_eq_Ok verify_signature_Ok)

lemma parse_Ok: "parse xo ed der = Ok c \<longleftrightarrow> parse_unverified xo ed der = Ok c \<and> cert_verify xo ed c = Ok ()"
  by (auto simp: parse_def and_then_eq_Ok)

section \<open>Certificates that are generated\<close>

text \<open>
  What is relied on: a signed key survives its DER form, and a generated certificate parses
  back with the one extension, the public key it was made for, a current validity and a
  P-256 self-signature that ring accepts.
\<close>

locale certificates = ed25519 ed genuine
  for ed :: "('pk, 'sk, 'sg, 'ke) ed25519_ops" and genuine :: "('pk, 'sk) keypair \<Rightarrow> bool" +
  fixes xo :: x509_ops and rc :: "('ck, 'ge) rcgen_ops"
  assumes signed_key_round_trip: "length k = 32 \<Longrightarrow> signed_key_from_der xo (signed_key_to_vec xo (k, s)) = Some (k, s)"
    and generated_parses:
      "rcgen_certificate rc ck [\<lparr>ext_oid = P2P_EXT_OID, ext_value = v, ext_critical = True\<rparr>] = Inr der \<Longrightarrow>
       \<exists>x. x509_from_der xo der = Some x
         \<and> x_extensions x = [\<lparr>ext_oid = P2P_EXT_OID, ext_value = v, ext_critical = True\<rparr>]
         \<and> x_spki_raw x = ck_public_key_der rc ck \<and> x_valid x
         \<and> alg_oid (x_spki_algorithm x) = OID_KEY_TYPE_EC_PUBLIC_KEY (oids xo)
         \<and> alg_parameters (x_spki_algorithm x) = Some (Some (OID_EC_P256 (oids xo)))
         \<and> alg_oid (x_signature_algorithm x) = OID_SIG_ECDSA_WITH_SHA256 (oids xo)
         \<and> ring_verify xo ECDSA_P256_SHA256_ASN1 (x_spki_key x) (x_tbs_raw x) (x_signature_value x)"
begin

lemma generated_certificate:
  assumes "generate xo ed rc kp = Ok (der, key)" and "genuine kp"
  shows "\<exists>c. parse xo ed der = Ok c \<and> cert_peer_id c = PeerId (keypair_public kp)"
proof -
  have sum: "of_sum id r = Ok y \<longleftrightarrow> r = Inr y" for r :: "'ge + 'y" and y by (cases r) auto
  from assms(1) obtain ck where ck: "rcgen_generate rc = Inr ck"
    by (auto simp: generate_def and_then_eq_Ok sum)
  define s where "s = keypair_sign ed kp (P2P_SIGNING_PREFIX @ ck_public_key_der rc ck)"
  define v where "v = signed_key_to_vec xo (bytes_of (pk_as_bytes ed (keypair_public kp)), sig_to_bytes ed s)"
  let ?ext = "\<lparr>ext_oid = P2P_EXT_OID, ext_value = v, ext_critical = True\<rparr>"
  have "rcgen_certificate rc ck [?ext] = Inr der"
    using assms(1) ck
    by (auto simp: generate_def and_then_eq_Ok sum make_libp2p_extension_def s_def v_def Let_def)
  from generated_parses [OF this] obtain x where x: "x509_from_der xo der = Some x" "x_extensions x = [?ext]"
      "x_spki_raw x = ck_public_key_der rc ck" "x_valid x"
    and alg: "alg_oid (x_spki_algorithm x) = OID_KEY_TYPE_EC_PUBLIC_KEY (oids xo)"
      "alg_parameters (x_spki_algorithm x) = Some (Some (OID_EC_P256 (oids xo)))"
      "alg_oid (x_signature_algorithm x) = OID_SIG_ECDSA_WITH_SHA256 (oids xo)"
    and self: "ring_verify xo ECDSA_P256_SHA256_ASN1 (x_spki_key x) (x_tbs_raw x) (x_signature_value x)"
    by blast
  let ?px = "\<lparr>px_public_key = keypair_public kp, px_signature = s\<rparr>"
  let ?c = "\<lparr>pc_certificate = x, pc_extension = ?px\<rparr>"
  have "parse_signed_key xo ed v = Ok ?px"
    by (simp add: parse_signed_key_Ok v_def signed_key_round_trip pk_round_trip sig_round_trip)
  with x have "parse_unverified xo ed der = Ok ?c"
    by (simp add: parse_unverified_Ok)
  moreover have "cert_signature_scheme xo ?c = Ok ECDSA_NISTP256_SHA256"
    by (simp add: cert_signature_scheme_def Let_def alg)
  moreover have "ed_verify ed (keypair_public kp) (P2P_SIGNING_PREFIX @ x_spki_raw x) s"
    unfolding x(3) s_def keypair_public_def keypair_sign_def by (rule verify_sign [OF assms(2)])
  ultimately have "parse xo ed der = Ok ?c"
    using x(4) self by (simp add: parse_Ok cert_verify_Ok)
  then show ?thesis by (intro exI [of _ ?c]) (simp add: cert_peer_id_def)
qed

end

section \<open>An instance\<close>

text \<open>
  The object identifiers of RFC 5480, 5758 and 8410; certificates whose bytes are the key
  that signs them, followed by the value of their one extension.
\<close>

definition rfc_oids :: oid_registry where
  "rfc_oids =
     \<lparr>OID_KEY_TYPE_EC_PUBLIC_KEY = [1, 2, 840, 10045, 2, 1],
      OID_EC_P256 = [1, 2, 840, 10045, 3, 1, 7],
      OID_NIST_EC_P384 = [1, 3, 132, 0, 34],
      OID_NIST_EC_P521 = [1, 3, 132, 0, 35],
      OID_SIG_ECDSA_WITH_SHA256 = [1, 2, 840, 10045, 4, 3, 2],
      OID_SIG_ECDSA_WITH_SHA384 = [1, 2, 840, 10045, 4, 3, 3],
      OID_SIG_ECDSA_WITH_SHA512 = [1, 2, 840, 10045, 4, 3, 4],
      OID_SIG_ED25519 = [1, 3, 101, 112],
      OID_SIG_ED448 = [1, 3, 101, 113]\<rparr>"

definition plain_x509 :: x509_ops where
  "plain_x509 =
     \<lparr>x509_from_der = (\<lambda>bs. if length bs < 32 then None else Some
        \<lparr>x_extensions = [\<lparr>ext_oid = P2P_EXT_OID, ext_value = drop 32 bs, ext_critical = True\<rparr>],
         x_tbs_raw = bs, x_valid = True, x_spki_raw = take 32 bs, x_spki_key = take 32 bs,
         x_spki_algorithm = \<lparr>alg_oid = OID_KEY_TYPE_EC_PUBLIC_KEY rfc_oids, alg_parameters = Some (Some (OID_EC_P256 rfc_oids))\<rparr>,
         x_signature_algorithm = \<lparr>alg_oid = OID_SIG_ECDSA_WITH_SHA256 rfc_oids, alg_parameters = None\<rparr>,
         x_signature_value = take 32 bs @ bs\<rparr>),
      signed_key_from_der = (\<lambda>bs. if length bs < 32 then None else Some (take 32 bs, drop 32 bs)),
      signed_key_to_vec = (\<lambda>(k, s). k @ s),
      ring_verify = (\<lambda>alg key msg s. s = key @ msg),
      oids = rfc_oids\<rparr>"

definition plain_rcgen :: "bytes32 \<Rightarrow> (bytes32, unit) rcgen_ops" where
  "plain_rcgen ck =
     \<lparr>rcgen_generate = Inr ck, ck_serialize_der = bytes_of, ck_public_key_der = bytes_of,
      rcgen_certificate = (\<lambda>k es. case es of [e] \<Rightarrow> Inr (bytes_of k @ ext_value e) | _ \<Rightarrow> Inl ())\<rparr>"

interpretation plain_certificates: certificates plain_ed plain_genuine plain_x509 "plain_rcgen ck" for ck
  by unfold_locales (auto simp: plain_x509_def plain_rcgen_def)

section \<open>Properties of certificates\<close>

text \<open>
  C31: a certificate is accepted exactly when it decodes, has exactly one
  extension of the libp2p kind and no other critical one, the extension holds a public key
  and a signature, the certificate is within its validity, its own signature verifies under
  its own key with one of the three supported schemes, and the extension's key signed the
  certificate's public key.
\<close>

theorem parse_certificate_iff:
  "parse xo ed der = Ok c \<longleftrightarrow>
     (\<exists>e k s scheme alg.
        x509_from_der xo der = Some (pc_certificate c)
      \<and> p2p_exts (x_extensions (pc_certificate c)) = [e]
      \<and> ext_oid ` set (filter ext_critical (x_extensions (pc_certificate c))) \<subseteq> {P2P_EXT_OID}
      \<and> signed_key_from_der xo (ext_value e) = Some (k, s)
      \<and> pk_from_bytes ed k = Inr (px_public_key (pc_extension c))
      \<and> sig_from_bytes ed s = Inr (px_signature (pc_extension c))
      \<and> x_valid (pc_certificate c)
      \<and> cert_signature_scheme xo c = Ok scheme
      \<and> (scheme, alg) \<in> {(ECDSA_NISTP256_SHA256, ECDSA_P256_SHA256_ASN1),
          (ECDSA_NISTP384_SHA384, ECDSA_P384_SHA384_ASN1), (ED25519, RING_ED25519)}
      \<and> ring_verify xo alg (x_spki_key (pc_certificate c)) (x_tbs_raw (pc_certificate c))
          (x_signature_value (pc_certificate c))
      \<and> ed_verify ed (px_public_key (pc_extension c)) (P2P_SIGNING_PREFIX @ x_spki_raw (pc_certificate c))
          (px_signature (pc_extension c)))"
proof -
  have alg: "scheme_algorithm scheme = Ok alg \<longleftrightarrow>
      (scheme, alg) \<in> {(ECDSA_NISTP256_SHA256, ECDSA_P256_SHA256_ASN1),
        (ECDSA_NISTP384_SHA384, ECDSA_P384_SHA384_ASN1), (ED25519, RING_ED25519)}" for scheme alg
    by (cases scheme) auto
  show ?thesis
    unfolding parse_Ok parse_unverified_Ok cert_verify_Ok parse_signed_key_Ok alg
    by (auto simp: list_all_iff)
qed

end
