(* ===== verification/Verifier.thy ===== *)
theory Verifier
  imports Certificate
begin

text \<open>
  \<^verbatim>\<open>src/tls/verifier.rs\<close> and the TLS configurations of \<^verbatim>\<open>src/tls.rs\<close>: which certificates
  and handshake signatures the two sides of a connection accept. The TLS protocol itself
  (rustls) is not modelled; it calls the functions of this theory.
\<close>

section \<open>Errors\<close>

text \<open>\<^verbatim>\<open>rustls::Error\<close>, as far as the verifier makes one; a message is the error in it.\<close>

datatype rustls_error =
    General string
  | PeerMisbehavedError string
  | InvalidCertificateEncoding
  | InvalidCertificateSignature
  | InvalidCertificateSignatureType
  | InvalidCertificateData webpki_error

fun rustls_of_parse_error :: "parse_error \<Rightarrow> rustls_error" where
  "rustls_of_parse_error (ParseError BadDer) = InvalidCertificateEncoding"
| "rustls_of_parse_error (ParseError e) = InvalidCertificateData e"

fun rustls_of_verification_error :: "verification_error \<Rightarrow> rustls_error" where
  "rustls_of_verification_error (VerificationError InvalidSignatureForPublicKey) = InvalidCertificateSignature"
| "rustls_of_verification_error (VerificationError UnsupportedSignatureAlgorithm) = InvalidCertificateSignatureType"
| "rustls_of_verification_error (VerificationError UnsupportedSignatureAlgorithmForPublicKey) = InvalidCertificateSignatureType"
| "rustls_of_verification_error (VerificationError e) = InvalidCertificateData e"

section \<open>The verifier\<close>

datatype protocol_version = TLS12 | TLS13

datatype cipher_suite =
    TLS13_CHACHA20_POLY1305_SHA256
  | TLS13_AES_256_GCM_SHA384
  | TLS13_AES_128_GCM_SHA256

definition PROTOCOL_VERSIONS :: "protocol_version list" where
  "PROTOCOL_VERSIONS = [TLS13]"

definition CIPHERSUITES :: "cipher_suite list" where
  "CIPHERSUITES = [TLS13_CHACHA20_POLY1305_SHA256, TLS13_AES_256_GCM_SHA384, TLS13_AES_128_GCM_SHA256]"

record 'pk cert_verifier =
  remote_peer_id :: "'pk peer_id option"

definition verifier_new :: "'pk cert_verifier" where
  "verifier_new = \<lparr>remote_peer_id = None\<rparr>"

definition with_remote_peer_id :: "'pk peer_id option \<Rightarrow> 'pk cert_verifier" where
  "with_remote_peer_id p = \<lparr>remote_peer_id = p\<rparr>"

definition verification_schemes :: "signature_scheme list" where
  "verification_schemes = [ECDSA_NISTP384_SHA384, ECDSA_NISTP256_SHA256, ED25519]"

definition verify_presented_certs ::
    "x509_ops \<Rightarrow> ('pk, 'sk, 'sg, 'ke) ed25519_ops \<Rightarrow> bytes \<Rightarrow> bytes list
       \<Rightarrow> ('pk peer_id, rustls_error) outcome" where
  "verify_presented_certs xo ed end_entity intermediates =
     and_then (ensure (intermediates = []) (General ''libp2p-tls requires exactly one certificate'')) (\<lambda>_.
     and_then (map_err rustls_of_parse_error (parse xo ed end_entity)) (\<lambda>cert.
     Ok (cert_peer_id cert)))"

definition verify_server_cert ::
    "x509_ops \<Rightarrow> ('pk, 'sk, 'sg, 'ke) ed25519_ops \<Rightarrow> 'pk cert_verifier \<Rightarrow> bytes \<Rightarrow> bytes list
       \<Rightarrow> (unit, rustls_error) outcome" where
  "verify_server_cert xo ed self end_entity intermediates =
     and_then (verify_presented_certs xo ed end_entity intermediates) (\<lambda>peer_id.
     case remote_peer_id self of
       Some remote \<Rightarrow>
         if remote \<noteq> peer_id then Err (PeerMisbehavedError ''Wrong peer ID in p2p extension'')
         else Ok ()
     | None \<Rightarrow> Ok ())"

definition verify_client_cert ::
    "x509_ops \<Rightarrow> ('pk, 'sk, 'sg, 'ke) ed25519_ops \<Rightarrow> 'pk cert_verifier \<Rightarrow> bytes \<Rightarrow> bytes list
       \<Rightarrow> (unit, rustls_error) outcome" where
  "verify_client_cert xo ed self end_entity intermediates =
     and_then (verify_presented_certs xo ed end_entity intermediates) (\<lambda>_. Ok ())"

definition verify_tls13_signature ::
    "x509_ops \<Rightarrow> ('pk, 'sk, 'sg, 'ke) ed25519_ops \<Rightarrow> bytes \<Rightarrow> signature_scheme \<Rightarrow> bytes \<Rightarrow> bytes
       \<Rightarrow> (unit, rustls_error) outcome" where
  "verify_tls13_signature xo ed cert scheme message signature =
     and_then (map_err rustls_of_parse_error (parse xo ed cert)) (\<lambda>c.
     map_err rustls_of_verification_error (verify_signature xo c scheme message signature))"

definition verify_tls12_signature :: "bytes \<Rightarrow> bytes \<Rightarrow> (unit, rustls_error) outcome" where
  "verify_tls12_signature message cert = Panic UnreachableCode"

definition offer_client_auth :: bool where
  "offer_client_auth = True"

definition client_auth_root_subjects :: "bytes list option" where
  "client_auth_root_subjects = Some []"

definition supported_verify_schemes :: "signature_scheme list" where
  "supported_verify_schemes = verification_schemes"

text \<open>
  The same verifier serves both ends: the methods of the two traits for a signature over the
  handshake pass on what rustls gives them.
\<close>

record signed_struct =
  dss_scheme :: signature_scheme
  dss_signature :: bytes

definition server_verify_tls13_signature ::
    "x509_ops \<Rightarrow> ('pk, 'sk, 'sg, 'ke) ed25519_ops \<Rightarrow> 'pk cert_verifier \<Rightarrow> bytes \<Rightarrow> bytes \<Rightarrow> signed_struct
       \<Rightarrow> (unit, rustls_error) outcome" where
  "server_verify_tls13_signature xo ed self message cert dss =
     verify_tls13_signature xo ed cert (dss_scheme dss) message (dss_signature dss)"

definition client_verify_tls13_signature ::
    "x509_ops \<Rightarrow> ('pk, 'sk, 'sg, 'ke) ed25519_ops \<Rightarrow> 'pk cert_verifier \<Rightarrow> bytes \<Rightarrow> bytes \<Rightarrow> signed_struct
       \<Rightarrow> (unit, rustls_error) outcome" where
  "client_verify_tls13_signature xo ed self message cert dss =
     verify_tls13_signature xo ed cert (dss_scheme dss) message (dss_signature dss)"

definition client_verify_tls12_signature :: "bytes \<Rightarrow> bytes \<Rightarrow> (unit, rustls_error) outcome" where
  "client_verify_tls12_signature message cert = Panic UnreachableCode"

definition client_supported_verify_schemes :: "signature_scheme list" where
  "client_supported_verify_schemes = verification_schemes"

section \<open>The configurations\<close>

definition P2P_ALPN :: bytes where
  "P2P_ALPN = str_bytes ''n0/iroh/1''"

record 'pk tls_config =
  tls_cipher_suites :: "cipher_suite list"
  tls_versions :: "protocol_version list"
  tls_verifier :: "'pk cert_verifier"
  tls_certs :: "bytes list"
  tls_key :: bytes
  tls_alpn :: "bytes list"
  tls_keylog :: bool

text \<open>
  rustls checks the versions against the cipher suites, and the certificate's private key;
  the code expects both checks to succeed.
\<close>

record rustls_ops =
  rl_versions_ok :: "cipher_suite list \<Rightarrow> protocol_version list \<Rightarrow> bool"
  rl_cert_ok :: "bytes list \<Rightarrow> bytes \<Rightarrow> bool"

definition build_config ::
    "rustls_ops \<Rightarrow> 'pk cert_verifier \<Rightarrow> bytes \<Rightarrow> bytes \<Rightarrow> bool \<Rightarrow> ('pk tls_config, 'e) outcome" where
  "build_config rl v certificate private_key keylog =
     (if \<not> rl_versions_ok rl CIPHERSUITES PROTOCOL_VERSIONS then Panic UnwrapFailed
      else if \<not> rl_cert_ok rl [certificate] private_key then Panic UnwrapFailed
      else Ok \<lparr>tls_cipher_suites = CIPHERSUITES, tls_versions = PROTOCOL_VERSIONS, tls_verifier = v,
               tls_certs = [certificate], tls_key = private_key, tls_alpn = [P2P_ALPN],
               tls_keylog = keylog\<rparr>)"

definition make_client_config ::
    "x509_ops \<Rightarrow> ('pk, 'sk, 'sg, 'ke) ed25519_ops \<Rightarrow> ('ck, 'ge) rcgen_ops \<Rightarrow> rustls_ops
       \<Rightarrow> ('pk, 'sk) keypair \<Rightarrow> 'pk peer_id option \<Rightarrow> bool \<Rightarrow> ('pk tls_config, 'ge gen_error) outcome" where
  "make_client_config xo ed rc rl kp remote keylog =
     and_then (generate xo ed rc kp) (\<lambda>(certificate, private_key).
     build_config rl (with_remote_peer_id remote) certificate private_key keylog)"

definition make_server_config ::
    "x509_ops \<Rightarrow> ('pk, 'sk, 'sg, 'ke) ed25519_ops \<Rightarrow> ('ck, 'ge) rcgen_ops \<Rightarrow> rustls_ops
       \<Rightarrow> ('pk, 'sk) keypair \<Rightarrow> bool \<Rightarrow> ('pk tls_config, 'ge gen_error) outcome" where
  "make_server_config xo ed rc rl kp keylog =
     and_then (generate xo ed rc kp) (\<lambda>(certificate, private_key).
     build_config rl verifier_new certificate private_key keylog)"

section \<open>What is accepted\<close>

lemma verify_presented_certs_Ok:
  "verify_presented_certs xo ed ee ints = Ok p \<longleftrightarrow> ints = [] \<and> (\<exists>c. parse xo ed ee = Ok c \<and> p = cert_peer_id c)"
  by (auto simp: verify_presented_certs_def and_then_eq_Ok)

lemma build_config_Ok:
  "build_config rl v cert key keylog = Ok cfg \<Longrightarrow>
   tls_verifier cfg = v \<and> tls_certs cfg = [cert] \<and> tls_key cfg = key \<and> tls_versions cfg = [TLS13]
   \<and> tls_alpn cfg = [P2P_ALPN] \<and> tls_keylog cfg = keylog"
  by (auto simp: build_config_def PROTOCOL_VERSIONS_def split: if_splits)

section \<open>Properties of the verifier\<close>

text \<open>
  A server's certificate is accepted exactly when it comes alone, is
  an acceptable certificate, and, if a peer id is expected, names that peer.
\<close>

theorem verify_server_cert_iff:
  "verify_server_cert xo ed (with_remote_peer_id remote) end_entity intermediates = Ok () \<longleftrightarrow>
     intermediates = [] \<and> (\<exists>c. parse xo ed end_entity = Ok c \<and> remote \<in> {None, Some (cert_peer_id c)})"
  by (cases remote)
    (auto simp: verify_server_cert_def and_then_eq_Ok verify_presented_certs_Ok with_remote_peer_id_def)

text \<open>
  C32: either end accepts a handshake signature exactly when the
  certificate is accepted, the scheme is that of the certificate, and ring verifies the
  signature under the certificate's key; only the schemes that the verifier announces are
  ever accepted, so neither RSA nor SHA-1.
\<close>

theorem verify_tls13_signature_iff:
  "(server_verify_tls13_signature xo ed self message cert dss = Ok () \<longleftrightarrow>
      dss_scheme dss \<in> set supported_verify_schemes
    \<and> (\<exists>c alg. parse xo ed cert = Ok c \<and> cert_signature_scheme xo c = Ok (dss_scheme dss)
         \<and> scheme_algorithm (dss_scheme dss) = Ok alg
         \<and> ring_verify xo alg (x_spki_key (pc_certificate c)) message (dss_signature dss)))
   \<and> client_verify_tls13_signature xo ed self message cert dss = server_verify_tls13_signature xo ed self message cert dss
   \<and> client_supported_verify_schemes = supported_verify_schemes"
proof -
  have "scheme \<in> set supported_verify_schemes" if "scheme_algorithm scheme = Ok alg" for scheme alg
    using that by (cases scheme) (simp_all add: supported_verify_schemes_def verification_schemes_def)
  then have "server_verify_tls13_signature xo ed self message cert dss = Ok () \<longleftrightarrow>
      dss_scheme dss \<in> set supported_verify_schemes
    \<and> (\<exists>c alg. parse xo ed cert = Ok c \<and> cert_signature_scheme xo c = Ok (dss_scheme dss)
         \<and> scheme_algorithm (dss_scheme dss) = Ok alg
         \<and> ring_verify xo alg (x_spki_key (pc_certificate c)) message (dss_signature dss))"
    by (auto simp: server_verify_tls13_signature_def verify_tls13_signature_def and_then_eq_Ok verify_signature_Ok)
  then show ?thesis
    by (simp add: server_verify_tls13_signature_def client_verify_tls13_signature_def
        client_supported_verify_schemes_def supported_verify_schemes_def)
qed

text \<open>
  Between a provider and a getter with the configurations the code
  makes, the getter accepts the provider's certificate exactly when it expects the
  provider's peer id, and the provider accepts the getter's certificate, whoever it is.
\<close>

theorem configs_authenticate:
  assumes "certificates ed genuine xo rc" and "genuine kp" and "genuine kp'"
    and "make_server_config xo ed rc rl kp keylog = Ok server"
    and "make_client_config xo ed rc rl kp' (Some expected) keylog' = Ok client"
  shows "(verify_server_cert xo ed (tls_verifier client) (hd (tls_certs server)) (tl (tls_certs server)) = Ok ()
       \<longleftrightarrow> expected = PeerId (keypair_public kp))
    \<and> verify_client_cert xo ed (tls_verifier server) (hd (tls_certs client)) (tl (tls_certs client)) = Ok ()
    \<and> tls_versions server = [TLS13] \<and> tls_versions client = [TLS13]"
proof -
  from assms(4) obtain cert key where 1: "generate xo ed rc kp = Ok (cert, key)"
      "build_config rl verifier_new cert key keylog = (Ok server :: ('a tls_config, 'f gen_error) outcome)"
    by (auto simp: make_server_config_def and_then_eq_Ok)
  from assms(5) obtain cert' key' where 2: "generate xo ed rc kp' = Ok (cert', key')"
      "build_config rl (with_remote_peer_id (Some expected)) cert' key' keylog' = (Ok client :: ('a tls_config, 'f gen_error) outcome)"
    by (auto simp: make_client_config_def and_then_eq_Ok)
  obtain c where c: "parse xo ed cert = Ok c" "cert_peer_id c = PeerId (keypair_public kp)"
    using certificates.generated_certificate [OF assms(1) 1(1) assms(2)] by blast
  obtain c' where c': "parse xo ed cert' = Ok c'"
    using certificates.generated_certificate [OF assms(1) 2(1) assms(3)] by blast
  from build_config_Ok [OF 1(2)] build_config_Ok [OF 2(2)] c c' show ?thesis
    by (auto simp: verify_server_cert_def verify_client_cert_def verify_presented_certs_def with_remote_peer_id_def)
qed

definition plain_rustls :: rustls_ops where
  "plain_rustls = \<lparr>rl_versions_ok = (\<lambda>cs vs. cs \<noteq> [] \<and> vs = [TLS13]), rl_cert_ok = (\<lambda>cs k. length cs = 1)\<rparr>"

theorem configs_authenticate_witness:
  "\<exists>server client.
     make_server_config plain_x509 plain_ed (plain_rcgen (fill32 3)) plain_rustls
       \<lparr>kp_public = fill32 5, kp_secret = fill32 5\<rparr> False = Ok server
   \<and> make_client_config plain_x509 plain_ed (plain_rcgen (fill32 3)) plain_rustls
       \<lparr>kp_public = fill32 6, kp_secret = fill32 6\<rparr> (Some (PeerId (fill32 7))) True = Ok client
   \<and> verify_server_cert plain_x509 plain_ed (tls_verifier client) (hd (tls_certs server)) (tl (tls_certs server)) \<noteq> Ok ()
   \<and> verify_client_cert plain_x509 plain_ed (tls_verifier server) (hd (tls_certs client)) (tl (tls_certs client)) = Ok ()"
proof -
  let ?s = "\<lparr>kp_public = fill32 5, kp_secret = fill32 5\<rparr> :: (bytes32, bytes32) keypair"
  let ?c = "\<lparr>kp_public = fill32 6, kp_secret = fill32 6\<rparr> :: (bytes32, bytes32) keypair"
  obtain server where s: "make_server_config plain_x509 plain_ed (plain_rcgen (fill32 3)) plain_rustls ?s False = Ok server"
    by (simp add: make_server_config_def generate_def plain_rcgen_def make_libp2p_extension_def Let_def
        build_config_def plain_rustls_def CIPHERSUITES_def PROTOCOL_VERSIONS_def)
  obtain client where c: "make_client_config plain_x509 plain_ed (plain_rcgen (fill32 3)) plain_rustls ?c
      (Some (PeerId (fill32 7))) True = Ok client"
    by (simp add: make_client_config_def generate_def plain_rcgen_def make_libp2p_extension_def Let_def
        build_config_def plain_rustls_def CIPHERSUITES_def PROTOCOL_VERSIONS_def)
  have "plain_genuine ?s" "plain_genuine ?c" by (simp_all add: plain_genuine_def)
  from configs_authenticate [OF plain_certificates.certificates_axioms this s c] s c show ?thesis
    by (auto simp: keypair_public_def)
qed

end
