(* ===== verification/Server.thy ===== *)
theory Server
  imports Serve Ticket Verifier "HOL-Library.Multiset"
begin

text \<open>
  \<^verbatim>\<open>src/provider.rs\<close>, third part: building and spawning the provider, the accept loop, the
  connections with their concurrent streams, and what the \<^verbatim>\<open>Provider\<close> handle offers. The
  QUIC endpoint (quinn) and the cancellation token (tokio_util) are parameters; freshly
  generated keys and tokens are arguments.
\<close>

section \<open>The builder\<close>

definition MAX_CONNECTIONS :: nat where
  "MAX_CONNECTIONS = 1024"

definition MAX_STREAMS :: u64 where
  "MAX_STREAMS = 10"

record ('pk, 'sk) builder =
  bd_bind_addr :: socket_addr
  bd_keypair :: "('pk, 'sk) keypair"
  bd_auth_token :: auth_token
  bd_db :: database
  bd_keylog :: bool

definition with_db :: "('pk, 'sk) keypair \<Rightarrow> auth_token \<Rightarrow> database \<Rightarrow> ('pk, 'sk) builder" where
  "with_db generated_keypair generated_token db =
     \<lparr>bd_bind_addr = SocketAddr (V4 0x7F000001) 4433, bd_keypair = generated_keypair,
      bd_auth_token = generated_token, bd_db = db, bd_keylog = False\<rparr>"

definition bind_addr :: "socket_addr \<Rightarrow> ('pk, 'sk) builder \<Rightarrow> ('pk, 'sk) builder" where
  "bind_addr addr b = b\<lparr>bd_bind_addr := addr\<rparr>"

definition with_keypair :: "('pk, 'sk) keypair \<Rightarrow> ('pk, 'sk) builder \<Rightarrow> ('pk, 'sk) builder" where
  "with_keypair kp b = b\<lparr>bd_keypair := kp\<rparr>"

definition with_auth_token :: "auth_token \<Rightarrow> ('pk, 'sk) builder \<Rightarrow> ('pk, 'sk) builder" where
  "with_auth_token t b = b\<lparr>bd_auth_token := t\<rparr>"

definition with_keylog :: "bool \<Rightarrow> ('pk, 'sk) builder \<Rightarrow> ('pk, 'sk) builder" where
  "with_keylog k b = b\<lparr>bd_keylog := k\<rparr>"

section \<open>Spawning\<close>

record 'pk server_config =
  sc_tls :: "'pk tls_config"
  sc_max_bidi_streams :: u64
  sc_max_uni_streams :: u64
  sc_max_connections :: nat

text \<open>\<open>pv_cancelled\<close> is the cancellation token that the handle shares with the task.\<close>

record ('pk, 'sk) provider =
  pv_listen_addr :: socket_addr
  pv_keypair :: "('pk, 'sk) keypair"
  pv_auth_token :: auth_token
  pv_cancelled :: bool

datatype 'ge spawn_error = SpawnGen "'ge gen_error" | SpawnBind io_error

text \<open>
  \<open>listen\<close> binds the endpoint and gives the local address. The database and the token go to
  the task with the handle's token; the configuration to the endpoint.
\<close>

definition spawn ::
    "x509_ops \<Rightarrow> ('pk, 'sk, 'sg, 'ke) ed25519_ops \<Rightarrow> ('ck, 'ge) rcgen_ops \<Rightarrow> rustls_ops
       \<Rightarrow> ('pk server_config \<Rightarrow> socket_addr \<Rightarrow> io_error + socket_addr) \<Rightarrow> ('pk, 'sk) builder
       \<Rightarrow> (('pk, 'sk) provider \<times> 'pk server_config, 'ge spawn_error) outcome" where
  "spawn xo ed rc rl listen b =
     and_then (map_err SpawnGen (make_server_config xo ed rc rl (bd_keypair b) (bd_keylog b))) (\<lambda>tls_server_config.
     let server_config =
       \<lparr>sc_tls = tls_server_config, sc_max_bidi_streams = MAX_STREAMS, sc_max_uni_streams = 0,
        sc_max_connections = MAX_CONNECTIONS\<rparr> in
     and_then (of_sum SpawnBind (listen server_config (bd_bind_addr b))) (\<lambda>listen_addr.
     Ok (\<lparr>pv_listen_addr = listen_addr, pv_keypair = bd_keypair b, pv_auth_token = bd_auth_token b,
          pv_cancelled = False\<rparr>, server_config)))"

section \<open>The handle\<close>

definition provider_peer_id :: "('pk, 'sk) provider \<Rightarrow> 'pk peer_id" where
  "provider_peer_id pv = PeerId (keypair_public (pv_keypair pv))"

definition provider_ticket :: "('pk, 'sk) provider \<Rightarrow> hash \<Rightarrow> 'pk ticket" where
  "provider_ticket pv h =
     \<lparr>tk_hash = h, tk_peer = provider_peer_id pv, tk_addr = pv_listen_addr pv, tk_token = pv_auth_token pv\<rparr>"

definition provider_builder :: "('pk, 'sk) keypair \<Rightarrow> auth_token \<Rightarrow> database \<Rightarrow> ('pk, 'sk) builder" where
  [simp]: "provider_builder generated_keypair generated_token db = with_db generated_keypair generated_token db"

definition provider_listen_addr :: "('pk, 'sk) provider \<Rightarrow> socket_addr" where
  [simp]: "provider_listen_addr pv = pv_listen_addr pv"

definition provider_auth_token :: "('pk, 'sk) provider \<Rightarrow> auth_token" where
  [simp]: "provider_auth_token pv = pv_auth_token pv"

definition provider_shutdown :: "('pk, 'sk) provider \<Rightarrow> ('pk, 'sk) provider" where
  "provider_shutdown pv = pv\<lparr>pv_cancelled := True\<rparr>"

section \<open>The accept loop\<close>

text \<open>
  One turn of \<^verbatim>\<open>select!\<close> polls the cancellation first (\<^verbatim>\<open>biased\<close>) and then the endpoint.
  When \<^verbatim>\<open>accept\<close> yields \<^verbatim>\<open>None\<close> its branch is disabled, but the branch of the cancellation
  stays enabled, so the turn waits: the \<^verbatim>\<open>else\<close> branch would need both disabled. The input
  is what the polls give, turn by turn; the result is the connections handed to tasks of
  their own and, when the loop has ended, what the endpoint was closed with.
\<close>

datatype 'c accept_poll = Accepted 'c | Exhausted | NotReady

fun provider_run :: "(bool \<times> 'c accept_poll) list \<Rightarrow> 'c list \<times> (u64 \<times> string) option" where
  "provider_run [] = ([], None)"
| "provider_run ((cancelled, poll) # polls) =
     (if cancelled then ([], Some (closed_to_varint ProviderTerminating, closed_reason ProviderTerminating))
      else case poll of
          Accepted c \<Rightarrow> (case provider_run polls of (cs, close) \<Rightarrow> (c # cs, close))
        | Exhausted \<Rightarrow> provider_run polls
        | NotReady \<Rightarrow> provider_run polls)"

section \<open>Connections\<close>

text \<open>
  A connection's streams are handled by concurrent tasks that share only the channel for
  events and the database, which does not change. The state of a connection: the streams
  still to be accepted, for each task the events it has yet to send, and what was sent.
\<close>

type_synonym ('s, 'w) conn_state = "('s \<times> 'w) list \<times> event list list \<times> event list"

definition stream_events ::
    "'s recv_ops \<Rightarrow> 'w send_ops \<Rightarrow> format \<Rightarrow> bao_ops \<Rightarrow> fs_ops \<Rightarrow> database \<Rightarrow> auth_token \<Rightarrow> u64
       \<Rightarrow> 's \<times> 'w \<Rightarrow> event list" where
  "stream_events ro wo fmt bao fs db token cid =
     (\<lambda>(s, w). snd (snd (handle_stream ro wo fmt bao fs db token cid s w)))"

inductive connection_step ::
    "('s \<times> 'w \<Rightarrow> event list) \<Rightarrow> u64 \<Rightarrow> ('s, 'w) conn_state \<Rightarrow> ('s, 'w) conn_state \<Rightarrow> bool"
  for events cid where
  accept: "connection_step events cid (x # streams, tasks, sent)
     (streams, tasks @ [events x], sent @ [EvClientConnected cid])"
| emit: "i < length tasks \<Longrightarrow> tasks ! i = e # es \<Longrightarrow>
     connection_step events cid (streams, tasks, sent) (streams, tasks[i := es], sent @ [e])"

inductive_cases connection_stepE: "connection_step events cid st st'"

text \<open>
  \<^verbatim>\<open>handle_connection\<close>: nothing when connecting fails, else the loop over the streams that
  \<^verbatim>\<open>accept_bi\<close> gives, until it fails.
\<close>

definition handle_connection :: "io_error + u64 \<times> ('s \<times> 'w) list \<Rightarrow> (u64 \<times> ('s, 'w) conn_state) option" where
  "handle_connection connecting =
     (case connecting of Inl e \<Rightarrow> None | Inr (cid, streams) \<Rightarrow> Some (cid, (streams, [], [])))"

section \<open>The events of one stream\<close>

lemma transfer_event_cases:
  "snd (snd (handle_stream ro wo fmt bao fs db token cid s w)) = events \<Longrightarrow>
   fst (handle_stream ro wo fmt bao fs db token cid s w) = r \<Longrightarrow>
   (events = [] \<and> (\<exists>p. r = Panic p))
 \<or> (events = [EvTransferAborted cid None] \<and> (\<exists>e. r = Err e))
 \<or> (\<exists>rid h. events = [EvRequestReceived cid rid h] \<and> (\<exists>p. r = Panic p))
 \<or> (\<exists>rid h. events = [EvRequestReceived cid rid h, EvTransferAborted cid (Some rid)])
 \<or> (\<exists>rid h. events = [EvRequestReceived cid rid h, EvTransferCompleted cid rid] \<and> r = Ok ())"
  by (auto simp: handle_stream_def notify_transfer_aborted_def Let_def
      split: prod.splits outcome.splits option.splits blob_or_collection.splits sent_status.splits)

text \<open>Every stream's tasks send, in some order, what their streams' events are.\<close>

definition conn_total :: "('s \<times> 'w \<Rightarrow> event list) \<Rightarrow> u64 \<Rightarrow> ('s, 'w) conn_state \<Rightarrow> event multiset" where
  "conn_total events cid = (\<lambda>(streams, tasks, sent).
     mset sent + \<Sum>\<^sub># (mset (map mset tasks))
       + \<Sum>\<^sub># (mset (map (\<lambda>x. mset (EvClientConnected cid # events x)) streams)))"

lemma sum_mset_update:
  "i < length ts \<Longrightarrow> \<Sum>\<^sub># (mset (map mset (ts[i := es]))) + mset (ts ! i) = \<Sum>\<^sub># (mset (map mset ts)) + mset es"
proof (induction ts arbitrary: i)
  case (Cons t ts)
  then show ?case by (cases i) (auto simp: ac_simps)
qed simp

lemma conn_total_step:
  assumes "connection_step events cid st st'"
  shows "conn_total events cid st' = conn_total events cid st"
  using assms
proof (cases rule: connection_step.cases)
  case (accept x streams tasks sent)
  then show ?thesis by (simp add: conn_total_def)
next
  case (emit i tasks e es streams sent)
  from sum_mset_update [OF emit(3), of es] emit(4)
  have "\<Sum>\<^sub># (mset (map mset (tasks[i := es]))) + {#e#} = \<Sum>\<^sub># (mset (map mset tasks))" by simp
  with emit(1,2) show ?thesis by (simp add: conn_total_def)
qed

lemma conn_total_steps:
  "(connection_step events cid)\<^sup>*\<^sup>* st st' \<Longrightarrow> conn_total events cid st' = conn_total events cid st"
  by (induction rule: rtranclp_induct) (simp_all add: conn_total_step)

text \<open>The events of one task stay in order: what it sent and what it has left.\<close>

definition projects :: "('s \<times> 'w \<Rightarrow> event list) \<Rightarrow> ('s \<times> 'w) list \<Rightarrow> ('s, 'w) conn_state \<Rightarrow> bool" where
  "projects events all_streams = (\<lambda>(streams, tasks, sent).
     \<exists>k. streams = drop k all_streams \<and> length tasks = k \<and> k \<le> length all_streams
       \<and> (\<forall>i < k. \<exists>done. events (all_streams ! i) = done @ tasks ! i \<and> set done \<subseteq> set sent))"

lemma projects_step:
  assumes "connection_step events cid st st'" and "projects events xs st"
  shows "projects events xs st'"
  using assms(1)
proof (cases rule: connection_step.cases)
  case (accept x streams tasks sent)
  with assms(2) obtain k where k: "x # streams = drop k xs" "length tasks = k" "k \<le> length xs"
      "\<forall>i < k. \<exists>done. events (xs ! i) = done @ tasks ! i \<and> set done \<subseteq> set sent"
    by (auto simp: projects_def)
  have "k < length xs" using k(1) by (metis drop_all list.distinct(1) not_le)
  moreover have "streams = drop (Suc k) xs" "xs ! k = x"
    using k(1) calculation by (metis Cons_nth_drop_Suc list.inject)+
  moreover have "\<exists>done. events (xs ! i) = done @ (tasks @ [events x]) ! i \<and> set done \<subseteq> set (sent @ [EvClientConnected cid])"
    if "i < Suc k" for i
  proof (cases "i = k")
    case True
    then show ?thesis using k(2) \<open>xs ! k = x\<close> by (intro exI [of _ "[]"]) (simp add: nth_append)
  next
    case False
    with that have "i < k" by simp
    with k(2,4) show ?thesis by (fastforce simp: nth_append)
  qed
  ultimately show ?thesis unfolding accept projects_def using k(2)
    by (auto intro!: exI [of _ "Suc k"])
next
  case (emit i tasks e es streams sent)
  with assms(2) obtain k where k: "streams = drop k xs" "length tasks = k" "k \<le> length xs"
      "\<forall>i < k. \<exists>done. events (xs ! i) = done @ tasks ! i \<and> set done \<subseteq> set sent"
    by (auto simp: projects_def)
  have "\<exists>done. events (xs ! j) = done @ tasks[i := es] ! j \<and> set done \<subseteq> set (sent @ [e])" if "j < k" for j
  proof (cases "j = i")
    case True
    from k(4) that obtain dn where "events (xs ! j) = dn @ tasks ! j" "set dn \<subseteq> set sent" by blast
    with True emit(3,4) show ?thesis by (intro exI [of _ "dn @ [e]"]) auto
  next
    case False
    with k(4) that show ?thesis by fastforce
  qed
  with k show ?thesis unfolding emit projects_def by auto
qed


lemma projects_start: "projects events xs (xs, [], [])"
  by (simp add: projects_def)

lemma projects_steps:
  "(connection_step events cid)\<^sup>*\<^sup>* (xs, [], []) st \<Longrightarrow> projects events xs st"
  by (induction rule: rtranclp_induct) (auto intro: projects_start projects_step)

text \<open>An event that a task has yet to send comes after the events the task has sent.\<close>

lemma sent_split:
  assumes "(connection_step events cid)\<^sup>*\<^sup>* (xs, [], []) (rest, tasks, sent)"
    and "sent = l1 @ e # l2" and "e \<noteq> EvClientConnected cid"
  shows "\<exists>x done more. x \<in> set xs \<and> events x = done @ e # more \<and> set done \<subseteq> set l1 \<and> EvClientConnected cid \<in> set l1"
proof -
  have "\<forall>l1 l2. snd (snd st) = l1 @ e # l2 \<longrightarrow>
      (\<exists>x done more. x \<in> set xs \<and> events x = done @ e # more \<and> set done \<subseteq> set l1 \<and> EvClientConnected cid \<in> set l1)"
    if "(connection_step events cid)\<^sup>*\<^sup>* (xs, [], []) st" for st
    using that
  proof (induction rule: rtranclp_induct)
    case (step y z)
    have connected: "EvClientConnected cid \<in> set (snd (snd y)) \<or> fst (snd y) = []"
      if "(connection_step events cid)\<^sup>*\<^sup>* (xs, [], []) y" for y
      using that by (induction rule: rtranclp_induct) (auto elim!: connection_step.cases)
    have proj: "projects events xs y" using step(1) by (rule projects_steps)
    have conn: "EvClientConnected cid \<in> set (snd (snd y)) \<or> fst (snd y) = []" using connected [OF step(1)] .
    show ?case
    proof (intro allI impI)
      fix l1 l2
      assume z: "snd (snd z) = l1 @ e # l2"
      from step(2) show "\<exists>x done more. x \<in> set xs \<and> events x = done @ e # more \<and> set done \<subseteq> set l1
          \<and> EvClientConnected cid \<in> set l1"
      proof (cases rule: connection_step.cases)
        case (accept x streams tasks sent)
        with z assms(3) obtain l2' where "sent = l1 @ e # l2'"
          by (cases l2 rule: rev_cases) auto
        with step.IH accept show ?thesis by auto
      next
        case (emit i tasks e' es streams sent)
        show ?thesis
        proof (cases l2 rule: rev_cases)
          case Nil
          with emit z have e': "e' = e" "sent = l1" by auto
          from proj emit obtain dn where "events (xs ! i) = dn @ tasks ! i" "set dn \<subseteq> set l1" "i < length xs"
            unfolding projects_def e' by fastforce
          moreover have "EvClientConnected cid \<in> set l1" using conn emit e' by auto
          ultimately show ?thesis using emit(4) e' by (intro exI [of _ "xs ! i"]) auto
        next
          case (snoc l2' last)
          with emit z have "sent = l1 @ e # l2'" by auto
          with step.IH emit show ?thesis by auto
        qed
      qed
    qed
  qed simp
  from this [OF assms(1)] assms(2) show ?thesis by simp
qed

section \<open>Properties of the server\<close>

text \<open>
  What a stream reports. An error while reading is one abort without
  a request id; a request that was read is reported and followed by exactly one completion
  or abort with its id, the completion only if the result is \<open>Ok\<close>; only a panic leaves the
  report unfinished.
\<close>

theorem handle_stream_events:
  "(case handle_stream ro wo fmt bao fs db token cid s w of (r, tx, events) \<Rightarrow>
      (events = [] \<and> (\<exists>p. r = Panic p))
    \<or> (events = [EvTransferAborted cid None] \<and> (\<exists>e. r = Err e))
    \<or> (\<exists>rid h. events = [EvRequestReceived cid rid h] \<and> (\<exists>p. r = Panic p))
    \<or> (\<exists>rid h. events = [EvRequestReceived cid rid h, EvTransferAborted cid (Some rid)])
    \<or> (\<exists>rid h. events = [EvRequestReceived cid rid h, EvTransferCompleted cid rid] \<and> r = Ok ()))"
  using transfer_event_cases [OF refl refl, of ro wo fmt bao fs db token cid s w]
  by (cases "handle_stream ro wo fmt bao fs db token cid s w") auto

text \<open>
  The accept loop hands on exactly the connections that come before
  the first turn that finds the provider cancelled (a connection that is ready in that turn
  is dropped), and closes the endpoint then, and only then, with the code and reason of
  \<open>ProviderTerminating\<close>.
\<close>

theorem provider_run_accepts:
  "provider_run polls =
     (concat (map (\<lambda>(cancelled, poll). case poll of Accepted c \<Rightarrow> [c] | _ \<Rightarrow> [])
        (takeWhile (\<lambda>(cancelled, poll). \<not> cancelled) polls)),
      if \<exists>turn \<in> set polls. fst turn then Some (1, ''provider terminating'') else None)"
  by (induction polls rule: provider_run.induct)
    (auto simp: closed_to_varint_def split: accept_poll.splits)


text \<open>
  However the streams of a connection interleave, a transfer is
  reported as completed only after its request was reported as received and a client as
  connected.
\<close>

theorem connection_events_ordered:
  assumes "(connection_step (stream_events ro wo fmt bao fs db token cid) cid)\<^sup>*\<^sup>* (streams, [], []) (rest, tasks, sent)"
    and "sent = before @ EvTransferCompleted cid rid # later"
  shows "EvClientConnected cid \<in> set before \<and> (\<exists>h. EvRequestReceived cid rid h \<in> set before)"
proof -
  from sent_split [OF assms] obtain x dn more where
    x: "stream_events ro wo fmt bao fs db token cid x = dn @ EvTransferCompleted cid rid # more"
    and before: "set dn \<subseteq> set before" "EvClientConnected cid \<in> set before"
    by auto
  have "\<exists>h. dn = [EvRequestReceived cid rid h]"
    using transfer_event_cases [OF refl refl, of ro wo fmt bao fs db token cid "fst x" "snd x"] x
    by (auto simp: stream_events_def Cons_eq_append_conv append_eq_Cons_conv split: prod.splits)
  with before show ?thesis by auto
qed

end
