(* ===== verification/Service.thy ===== *)
theory Service
  imports Samples Server
begin

text \<open>
  What a provider does with the streams of well-behaved and other clients: authentication,
  requests it refuses, missing blobs, truncated messages, partial writes; and the witnesses
  for the properties of the server.
\<close>

section \<open>Authentication\<close>

lemma read_handshake_Ok:
  assumes "read_handshake ro fmt token rx = (Ok (), rx')"
  shows "\<exists>hs n rx1. read_lp ro (get_handshake fmt) rx = (Ok (Some (hs, n)), rx1)
    \<and> hs_version hs = VERSION \<and> hs_token hs = token"
proof -
  from assms obtain m rx1 where 1: "read_lp ro (get_handshake fmt) rx = (Ok m, rx1)"
    by (auto simp: read_handshake_def io_bind_eq_Ok)
  with assms obtain hs n where m: "m = Some (hs, n)"
    by (cases m) (auto simp: read_handshake_def io_simps)
  have "hs_version hs = VERSION" using assms 1 m
    by (auto simp: read_handshake_def io_bind_def io_simps ensure_def split: if_splits)
  moreover have "hs_token hs = token" using assms 1 m calculation
    by (auto simp: read_handshake_def io_bind_def io_simps ensure_def split: if_splits)
  ultimately show ?thesis using 1 m by blast
qed

text \<open>
  C9: unless the stream opens with a handshake that has the current
  version and the provider's token, nothing is written to it, no request is reported, and
  the call does not succeed.
\<close>

theorem authentication_required:
  "(\<exists>hs n rx. read_lp ro (get_handshake fmt) \<lparr>rx_reader = s, rx_buffer = []\<rparr> = (Ok (Some (hs, n)), rx)
      \<and> hs_version hs = VERSION \<and> hs_token hs = token)
   \<or> (case handle_stream ro wo fmt bao fs db token cid s w of (r, tx, events) \<Rightarrow>
        tx_writer tx = w \<and> set events \<subseteq> {EvTransferAborted cid None} \<and> r \<noteq> Ok ())"
proof (cases "read_handshake ro fmt token \<lparr>rx_reader = s, rx_buffer = []\<rparr>")
  case (Pair r rx)
  show ?thesis
  proof (cases r)
    case (Ok u)
    with Pair read_handshake_Ok [of ro fmt token _ rx] show ?thesis by fastforce
  next
    case (Err e)
    with Pair show ?thesis by (simp add: handle_stream_def Let_def notify_transfer_aborted_def)
  next
    case (Panic p)
    with Pair show ?thesis by (simp add: handle_stream_def Let_def)
  qed
qed

lemma rejected_handshake:
  assumes "postcard fmt" and "byte_stream ro rest"
    and "rest s = frame (put_handshake fmt hs) @ rs"
    and "hs_version hs \<noteq> VERSION \<or> hs_token hs \<noteq> token"
  shows "handle_stream ro wo fmt bao fs db token cid s w =
    (Err (if hs_version hs \<noteq> VERSION then VersionMismatch (hs_version hs) else TokenMismatch),
     \<lparr>tx_writer = w, tx_buffer = []\<rparr>, [EvTransferAborted cid None])"
proof -
  obtain rx where "read_handshake ro fmt token \<lparr>rx_reader = s, rx_buffer = []\<rparr> =
      (Err (if hs_version hs \<noteq> VERSION then VersionMismatch (hs_version hs) else TokenMismatch), rx)"
    using byte_stream.read_handshake_frame [OF assms(2,1,3), of token] assms(4) by (auto split: if_splits)
  then show ?thesis by (simp add: handle_stream_def Let_def notify_transfer_aborted_def)
qed

text \<open>
  A handshake with another version or another token is answered with
  nothing; the stream ends in the matching error and one abort is reported, whatever
  follows the handshake.
\<close>

theorem handshake_rejected:
  assumes "postcard fmt" and "byte_stream ro rest"
    and "rest s = frame (put_handshake fmt hs) @ rs"
    and "hs_version hs \<noteq> VERSION \<or> hs_token hs \<noteq> token"
  shows "handle_stream ro wo fmt bao fs db token cid s w =
    (Err (if hs_version hs \<noteq> VERSION then VersionMismatch (hs_version hs) else TokenMismatch),
     \<lparr>tx_writer = w, tx_buffer = []\<rparr>, [EvTransferAborted cid None])"
  by (rule rejected_handshake [OF assms])

text \<open>
  A stream that ends inside its first message (fewer bytes than
  the length prefix announces) makes the task panic with a slice out of range: no error is
  returned, and no abort is reported, although the client has been reported as connected.
\<close>

theorem truncated_handshake_panics:
  assumes "byte_stream ro rest" and "rest s = u64_to_le_bytes n @ body" and "length body < unat n"
  shows "handle_stream ro wo fmt bao fs db token cid s w =
    (Panic SliceOutOfRange, \<lparr>tx_writer = w, tx_buffer = []\<rparr>, [])"
proof -
  obtain rx where "read_lp ro (get_handshake fmt) \<lparr>rx_reader = s, rx_buffer = []\<rparr> = (Panic SliceOutOfRange, rx)"
    using byte_stream.read_lp_truncated [OF assms, of "get_handshake fmt"]
    by (cases "read_lp ro (get_handshake fmt) \<lparr>rx_reader = s, rx_buffer = []\<rparr>") auto
  then show ?thesis by (simp add: handle_stream_def read_handshake_def Let_def)
qed

section \<open>Requests\<close>

lemma request_read:
  assumes "postcard fmt" and "byte_stream ro rest" and "rest s = request_bytes fmt token h"
  shows "\<exists>rx1 rx2. read_handshake ro fmt token \<lparr>rx_reader = s, rx_buffer = []\<rparr> = (Ok (), rx1)
    \<and> read_request ro fmt rx1 = (Ok \<lparr>req_id = 1, req_name = h\<rparr>, rx2)"
proof -
  have "rest s = frame (put_handshake fmt (handshake_new token))
      @ frame (put_request fmt \<lparr>req_id = 1, req_name = h\<rparr>)"
    using assms(3) by (simp add: request_bytes_def)
  from byte_stream.read_handshake_frame [OF assms(2,1) this, of token] obtain s1 where
    1: "read_handshake ro fmt token \<lparr>rx_reader = s, rx_buffer = []\<rparr> = (Ok (), \<lparr>rx_reader = s1, rx_buffer = []\<rparr>)"
      "rest s1 = frame (put_request fmt \<lparr>req_id = 1, req_name = h\<rparr>) @ []"
    by (auto simp: handshake_new_def)
  from byte_stream.read_request_frame [OF assms(2,1) 1(2)] 1(1) show ?thesis by auto
qed

text \<open>
  An authenticated request for a hash that is not that of a
  collection (nothing, or a single blob) is answered with \<open>NotFound\<close> alone, the stream is
  finished, and the transfer is reported as aborted; the call itself succeeds.
\<close>

theorem only_collections_served:
  assumes "postcard fmt" and "byte_stream ro rest" and "byte_sink wo sent fin"
    and "rest s = request_bytes fmt token h"
    and "\<nexists>ob data. database_get db h = Some (Collection ob data)"
  shows "\<exists>w' buf. handle_stream ro wo fmt bao fs db token cid s w =
      (Ok (), \<lparr>tx_writer = w', tx_buffer = buf\<rparr>, [EvRequestReceived cid 1 h, EvTransferAborted cid (Some 1)])
    \<and> sent w' = sent w @ response_bytes fmt 1 NotFound \<and> fin w'"
proof -
  obtain rx1 rx2 where 1: "read_handshake ro fmt token \<lparr>rx_reader = s, rx_buffer = []\<rparr> = (Ok (), rx1)"
      "read_request ro fmt rx1 = (Ok \<lparr>req_id = 1, req_name = h\<rparr>, rx2)"
    using request_read [OF assms(1,2,4)] by blast
  obtain w1 buf where 2: "write_response wo fmt 1 NotFound \<lparr>tx_writer = w, tx_buffer = []\<rparr> =
        (Ok (), \<lparr>tx_writer = w1, tx_buffer = buf\<rparr>)" "sent w1 = sent w @ response_bytes fmt 1 NotFound"
    using write_response_ok [OF assms(1,3), of 1 NotFound "\<lparr>tx_writer = w, tx_buffer = []\<rparr>"] by auto
  obtain w2 where 3: "finish wo \<lparr>tx_writer = w1, tx_buffer = buf\<rparr> = (Ok (), \<lparr>tx_writer = w2, tx_buffer = buf\<rparr>)"
      "sent w2 = sent w1" "fin w2"
    using finish_ok [OF assms(3), of "\<lparr>tx_writer = w1, tx_buffer = buf\<rparr>"] by auto
  have io: "io_bind (write_response wo fmt 1 NotFound) (\<lambda>_. finish wo) \<lparr>tx_writer = w, tx_buffer = []\<rparr> =
      (Ok (), \<lparr>tx_writer = w2, tx_buffer = buf\<rparr>)"
    by (simp add: 2(1) 3(1))
  have "handle_stream ro wo fmt bao fs db token cid s w =
      (Ok (), \<lparr>tx_writer = w2, tx_buffer = buf\<rparr>, [EvRequestReceived cid 1 h, EvTransferAborted cid (Some 1)])"
    using assms(5) 1 by (cases "database_get db h" rule: option.exhaust)
      (auto simp: handle_stream_def Let_def io notify_transfer_aborted_def split: blob_or_collection.splits)
  with 2 3 show ?thesis by auto
qed

section \<open>Transfers\<close>

lemma transfer_collection_writes:
  assumes "postcard fmt" and sink: "byte_sink wo sent fin"
    and "bao_encoded_size bao (of_nat (length data)) < 2 ^ 64"
    and "bao_slice bao (Inr data) outboard 0 (of_nat (length data)) = (encoded, None)"
    and "from_bytes (get_collection fmt) data = Ok c"
    and "blobs_wire fmt bao fs db rid (coll_blobs c) = Some (bout, status)"
    and "\<And>w. fst (send_buf wo w encoded) = Inr (min limit (length encoded))"
  shows "\<exists>w' buf'. transfer_collection wo fmt bao fs db rid outboard data tx =
      (Ok status, \<lparr>tx_writer = w', tx_buffer = buf'\<rparr>)
    \<and> sent w' = sent (tx_writer tx) @ response_bytes fmt rid (FoundCollection (coll_total_blobs_size c))
        @ take limit encoded @ bout
    \<and> fin w'"
proof -
  obtain w1 buf1 where 1: "write_response wo fmt rid (FoundCollection (coll_total_blobs_size c)) tx =
        (Ok (), \<lparr>tx_writer = w1, tx_buffer = buf1\<rparr>)"
      "sent w1 = sent (tx_writer tx) @ response_bytes fmt rid (FoundCollection (coll_total_blobs_size c))"
      "1024 \<le> length buf1"
    using write_response_ok [OF assms(1) sink] by blast
  obtain n w2 where 2: "send_buf wo w1 encoded = (Inr n, w2)" "sent w2 = sent w1 @ take n encoded"
    using byte_sink.send_buf_ok [OF sink] by blast
  with assms(7) [of w1] have n: "take n encoded = take limit encoded" by (auto simp: min_def)
  from send_blobs_refines [OF assms(1) sink assms(6), of "\<lparr>tx_writer = w2, tx_buffer = buf1\<rparr>"] 1(3)
  obtain w3 buf3 where 3: "send_blobs wo fmt bao fs db rid (coll_blobs c) \<lparr>tx_writer = w2, tx_buffer = buf1\<rparr> =
        (Ok status, \<lparr>tx_writer = w3, tx_buffer = buf3\<rparr>)"
      "sent w3 = sent w2 @ bout" "status = SentNotFound \<longrightarrow> fin w3"
    by auto
  obtain w4 where 4: "finish wo \<lparr>tx_writer = w3, tx_buffer = buf3\<rparr> = (Ok (), \<lparr>tx_writer = w4, tx_buffer = buf3\<rparr>)"
      "sent w4 = sent w3" "fin w4"
    using finish_ok [OF sink, of "\<lparr>tx_writer = w3, tx_buffer = buf3\<rparr>"] by auto
  have buf: "on_writer (io_await (\<lambda>w. send_buf wo w encoded)) \<lparr>tx_writer = w1, tx_buffer = buf1\<rparr> =
      (Ok n, \<lparr>tx_writer = w2, tx_buffer = buf1\<rparr>)"
    using 2 by (simp add: on_writer_def)
  have "transfer_collection wo fmt bao fs db rid outboard data tx =
      (if status = SentNotFound then (Ok status, \<lparr>tx_writer = w3, tx_buffer = buf3\<rparr>)
       else (Ok Sent, \<lparr>tx_writer = w4, tx_buffer = buf3\<rparr>))"
    using assms(3-5) by (simp add: transfer_collection_def 1(1) buf 3(1) 4(1) io_ret_def)
  with 1 2 3 4 n show ?thesis by (cases status) auto
qed

definition status_event :: "u64 \<Rightarrow> u64 \<Rightarrow> sent_status \<Rightarrow> event" where
  "status_event cid rid status =
     (case status of Sent \<Rightarrow> EvTransferCompleted cid rid | SentNotFound \<Rightarrow> EvTransferAborted cid (Some rid))"

text \<open>
  C8: an authenticated request for a collection is answered with
  \<open>FoundCollection\<close> and the total size, then the encoded collection as far as a single
  \<^verbatim>\<open>write_buf\<close> takes it (at most \<open>limit\<close> bytes), then the blobs, each as \<open>Found\<close> and
  its encoding; the stream is finished and the outcome reported. The transfer counts as
  completed even if the encoded collection was cut short.
\<close>

theorem collection_requests_served:
  assumes "postcard fmt" and "byte_stream ro rest" and "byte_sink wo sent fin"
    and "\<And>w. fst (send_buf wo w encoded) = Inr (min limit (length encoded))"
    and "rest s = request_bytes fmt token h"
    and "database_get db h = Some (Collection outboard data)"
    and "bao_encoded_size bao (of_nat (length data)) < 2 ^ 64"
    and "bao_slice bao (Inr data) outboard 0 (of_nat (length data)) = (encoded, None)"
    and "from_bytes (get_collection fmt) data = Ok c"
    and "blobs_wire fmt bao fs db 1 (coll_blobs c) = Some (blobs_out, status)"
  shows "\<exists>w' buf. handle_stream ro wo fmt bao fs db token cid s w =
      (Ok (), \<lparr>tx_writer = w', tx_buffer = buf\<rparr>, [EvRequestReceived cid 1 h, status_event cid 1 status])
    \<and> sent w' = sent w @ response_bytes fmt 1 (FoundCollection (coll_total_blobs_size c))
        @ take limit encoded @ blobs_out
    \<and> fin w'"
proof -
  obtain rx1 rx2 where 1: "read_handshake ro fmt token \<lparr>rx_reader = s, rx_buffer = []\<rparr> = (Ok (), rx1)"
      "read_request ro fmt rx1 = (Ok \<lparr>req_id = 1, req_name = h\<rparr>, rx2)"
    using request_read [OF assms(1,2,5)] by blast
  from transfer_collection_writes [OF assms(1,3,7,8,9,10,4), of "\<lparr>tx_writer = w, tx_buffer = []\<rparr>"]
  obtain w' buf where "transfer_collection wo fmt bao fs db 1 outboard data \<lparr>tx_writer = w, tx_buffer = []\<rparr> =
      (Ok status, \<lparr>tx_writer = w', tx_buffer = buf\<rparr>)"
      "sent w' = sent w @ response_bytes fmt 1 (FoundCollection (coll_total_blobs_size c))
        @ take limit encoded @ blobs_out" "fin w'"
    by auto
  with 1 assms(6) show ?thesis
    by (cases status) (simp_all add: handle_stream_def Let_def notify_transfer_aborted_def status_event_def)
qed

lemma blobs_wire_missing:
  assumes "blobs_wire fmt bao fs db rid bs = Some (out, Sent)"
    and "\<nexists>d. database_get db (blob_hash b) = Some (Blob d)"
  shows "blobs_wire fmt bao fs db rid (bs @ b # bs') =
    Some (out @ response_bytes fmt rid NotFound @ response_bytes fmt rid NotFound, SentNotFound)"
  using assms(1)
proof (induction bs arbitrary: out)
  case Nil
  then show ?case using blobs_wire_Cons_missing [OF assms(2)] by simp
next
  case (Cons b0 bs)
  then show ?case
    by (auto split: option.splits blob_or_collection.splits prod.splits)
qed

lemma missing_blob_answered:
  assumes "postcard fmt" and "byte_stream ro rest" and "eager_sink wo sent fin"
    and "rest s = request_bytes fmt token h"
    and "database_get db h = Some (Collection outboard data)"
    and "bao_encoded_size bao (of_nat (length data)) < 2 ^ 64"
    and "bao_slice bao (Inr data) outboard 0 (of_nat (length data)) = (encoded, None)"
    and "from_bytes (get_collection fmt) data = Ok c"
    and "coll_blobs c = before @ b # later"
    and "blobs_wire fmt bao fs db 1 before = Some (before_out, Sent)"
    and "\<nexists>d. database_get db (blob_hash b) = Some (Blob d)"
  shows "\<exists>w' buf. handle_stream ro wo fmt bao fs db token cid s w =
      (Ok (), \<lparr>tx_writer = w', tx_buffer = buf\<rparr>, [EvRequestReceived cid 1 h, EvTransferAborted cid (Some 1)])
    \<and> sent w' = sent w @ response_bytes fmt 1 (FoundCollection (coll_total_blobs_size c)) @ encoded @ before_out
        @ response_bytes fmt 1 NotFound @ response_bytes fmt 1 NotFound
    \<and> fin w'"
proof -
  have sink: "byte_sink wo sent fin" using assms(3) by (simp add: eager_sink_def)
  have "fst (send_buf wo w encoded) = Inr (min (length encoded) (length encoded))" for w
    using eager_sink.send_buf_whole [OF assms(3)] by simp
  moreover have "blobs_wire fmt bao fs db 1 (coll_blobs c) =
      Some (before_out @ response_bytes fmt 1 NotFound @ response_bytes fmt 1 NotFound, SentNotFound)"
    unfolding assms(9) by (rule blobs_wire_missing [OF assms(10,11)])
  ultimately have wire: "blobs_wire fmt bao fs db 1 (coll_blobs c) =
        Some (before_out @ response_bytes fmt 1 NotFound @ response_bytes fmt 1 NotFound, SentNotFound)"
    and all: "\<And>w. fst (send_buf wo w encoded) = Inr (min (length encoded) (length encoded))"
    by blast+
  from transfer_collection_writes [OF assms(1) sink assms(6-8) wire all, of "\<lparr>tx_writer = w, tx_buffer = []\<rparr>"]
  obtain w' buf where 2: "transfer_collection wo fmt bao fs db 1 outboard data \<lparr>tx_writer = w, tx_buffer = []\<rparr> =
      (Ok SentNotFound, \<lparr>tx_writer = w', tx_buffer = buf\<rparr>)"
      "sent w' = sent w @ response_bytes fmt 1 (FoundCollection (coll_total_blobs_size c)) @ encoded @ before_out
        @ response_bytes fmt 1 NotFound @ response_bytes fmt 1 NotFound" "fin w'"
    by auto
  obtain rx1 rx2 where 1: "read_handshake ro fmt token \<lparr>rx_reader = s, rx_buffer = []\<rparr> = (Ok (), rx1)"
      "read_request ro fmt rx1 = (Ok \<lparr>req_id = 1, req_name = h\<rparr>, rx2)"
    using request_read [OF assms(1,2,4)] by blast
  from 1 2 assms(5) show ?thesis
    by (simp add: handle_stream_def Let_def notify_transfer_aborted_def)
qed

text \<open>
  When a blob of the collection is not in the database, the
  blobs before it are sent, then \<open>NotFound\<close> is written twice; the stream is finished, the
  transfer is reported as aborted, and the blobs after it are not sent.
\<close>

theorem missing_blob_not_found_twice:
  assumes "postcard fmt" and "byte_stream ro rest" and "eager_sink wo sent fin"
    and "rest s = request_bytes fmt token h"
    and "database_get db h = Some (Collection outboard data)"
    and "bao_encoded_size bao (of_nat (length data)) < 2 ^ 64"
    and "bao_slice bao (Inr data) outboard 0 (of_nat (length data)) = (encoded, None)"
    and "from_bytes (get_collection fmt) data = Ok c"
    and "coll_blobs c = before @ b # later"
    and "blobs_wire fmt bao fs db 1 before = Some (before_out, Sent)"
    and "\<nexists>d. database_get db (blob_hash b) = Some (Blob d)"
  shows "\<exists>w' buf. handle_stream ro wo fmt bao fs db token cid s w =
      (Ok (), \<lparr>tx_writer = w', tx_buffer = buf\<rparr>, [EvRequestReceived cid 1 h, EvTransferAborted cid (Some 1)])
    \<and> sent w' = sent w @ response_bytes fmt 1 (FoundCollection (coll_total_blobs_size c)) @ encoded @ before_out
        @ response_bytes fmt 1 NotFound @ response_bytes fmt 1 NotFound
    \<and> fin w'"
  by (rule missing_blob_answered [OF assms])

section \<open>The properties applied\<close>

definition two_data :: bytes where
  "two_data = put_collection wire_format two_collection"

definition two_h :: hash where
  "two_h = Hash (digest two_data)"

text \<open>The database of the two files, and one that has lost its blobs.\<close>

definition two_db :: database where
  "two_db =
     [(two_h, Collection (u64_to_le_bytes (of_nat (length two_data))) two_data),
      (Hash (digest [1, 2, 3]), Blob \<lparr>data_outboard = u64_to_le_bytes 3, data_path = ''/data/a.txt'', data_size = 3\<rparr>),
      (Hash (digest [4, 5]), Blob \<lparr>data_outboard = u64_to_le_bytes 2, data_path = ''/data/b.txt'', data_size = 2\<rparr>)]"

definition lost_db :: database where
  "lost_db = [(two_h, Collection (u64_to_le_bytes (of_nat (length two_data))) two_data)]"

definition two_encoded :: bytes where
  "two_encoded = u64_to_le_bytes (of_nat (length two_data)) @ two_data"

definition sample_token :: auth_token where
  "sample_token = AuthToken (fill32 7)"

lemma two_h_other [simp]: "Hash (digest [1, 2, 3]) \<noteq> two_h" "Hash (digest [4, 5]) \<noteq> two_h"
  "Hash (digest [1, 2, 3]) \<noteq> Hash (digest [4, 5])"
  using two_hash [of 1 "[2, 3]"] two_hash [of 4 "[5]"] digests_differ by (simp_all add: two_h_def two_data_def)

lemma two_db_get [simp]:
  "database_get two_db two_h = Some (Collection (u64_to_le_bytes (of_nat (length two_data))) two_data)"
  "database_get lost_db two_h = Some (Collection (u64_to_le_bytes (of_nat (length two_data))) two_data)"
  "database_get two_db (Hash (digest [1, 2, 3])) =
     Some (Blob \<lparr>data_outboard = u64_to_le_bytes 3, data_path = ''/data/a.txt'', data_size = 3\<rparr>)"
  "database_get two_db (Hash (digest [4, 5])) =
     Some (Blob \<lparr>data_outboard = u64_to_le_bytes 2, data_path = ''/data/b.txt'', data_size = 2\<rparr>)"
  "database_get lost_db (Hash (digest [1, 2, 3])) = None"
  using two_h_other by (auto simp: two_db_def lost_db_def database_get_def)

lemma two_data_small: "length two_data \<le> 1104"
  using two_collection_length by (simp add: two_data_def)

lemma two_size: "bao_encoded_size plain_bao (of_nat (length two_data)) < 2 ^ 64"
proof -
  have "unat (of_nat (length two_data) :: u64) = length two_data"
    using two_data_small by (simp add: unat_of_nat take_bit_nat_eq_self)
  then show ?thesis using two_data_small by (simp add: plain_bao_def)
qed

lemma two_slice:
  "bao_slice plain_bao (Inr two_data) (u64_to_le_bytes (of_nat (length two_data))) 0 (of_nat (length two_data)) =
    (two_encoded, None)"
  by (simp add: plain_bao_def two_encoded_def)

lemma two_decodes: "from_bytes (get_collection wire_format) two_data = Ok two_collection"
proof -
  have "utf8_valid ''collection''" by code_simp
  then have "collection_ok two_collection"
    by (simp add: collection_ok_def str_ok_def two_collection_def)
  from wire.collection_round_trip [OF this, of "[]"] show ?thesis
    by (simp add: two_data_def collection_from_bytes_def)
qed

lemma two_wire:
  "blobs_wire wire_format plain_bao two_files two_db 1 (coll_blobs two_collection) =
    Some (response_bytes wire_format 1 Found @ u64_to_le_bytes 3 @ [1, 2, 3]
      @ response_bytes wire_format 1 Found @ u64_to_le_bytes 2 @ [4, 5], Sent)"
  by (simp add: two_collection_def blob_slice_def two_files_def plain_bao_def Let_def)

theorem handshake_rejected_witness:
  "handle_stream chunk_ops mem_eager_ops wire_format plain_bao two_files two_db sample_token 9
      [frame (put_handshake wire_format \<lparr>hs_version = 2, hs_token = sample_token\<rparr>)] \<lparr>mem_sent = [], mem_finished = False\<rparr> =
    (Err (VersionMismatch 2), \<lparr>tx_writer = \<lparr>mem_sent = [], mem_finished = False\<rparr>, tx_buffer = []\<rparr>, [EvTransferAborted 9 None])"
  using handshake_rejected [OF wire.postcard_axioms loopback.byte_stream_axioms,
      of "[frame (put_handshake wire_format \<lparr>hs_version = 2, hs_token = sample_token\<rparr>)]"
        "\<lparr>hs_version = 2, hs_token = sample_token\<rparr>" "[]"]
  by (simp add: VERSION_def)

theorem truncated_handshake_panics_witness:
  "handle_stream chunk_ops mem_eager_ops wire_format plain_bao two_files two_db sample_token 9
      [u64_to_le_bytes 33, [1]] \<lparr>mem_sent = [], mem_finished = False\<rparr> =
    (Panic SliceOutOfRange, \<lparr>tx_writer = \<lparr>mem_sent = [], mem_finished = False\<rparr>, tx_buffer = []\<rparr>, [])"
  by (rule truncated_handshake_panics [OF loopback.byte_stream_axioms, of _ 33 "[1]"]) simp_all

theorem only_collections_served_witness:
  "\<exists>w' buf. handle_stream chunk_ops mem_eager_ops wire_format plain_bao two_files two_db sample_token 9
      [request_bytes wire_format sample_token (Hash (digest [1, 2, 3]))] \<lparr>mem_sent = [], mem_finished = False\<rparr> =
      (Ok (), \<lparr>tx_writer = w', tx_buffer = buf\<rparr>,
       [EvRequestReceived 9 1 (Hash (digest [1, 2, 3])), EvTransferAborted 9 (Some 1)])
    \<and> mem_sent w' = response_bytes wire_format 1 NotFound \<and> mem_finished w'"
  using only_collections_served [OF wire.postcard_axioms loopback.byte_stream_axioms mem_eager.byte_sink_axioms,
      of "[request_bytes wire_format sample_token (Hash (digest [1, 2, 3]))]" sample_token
        "Hash (digest [1, 2, 3])" two_db plain_bao two_files 9 "\<lparr>mem_sent = [], mem_finished = False\<rparr>"]
  by simp

theorem collection_requests_served_witness:
  "\<exists>w' buf. handle_stream chunk_ops (mem_ops 3) wire_format plain_bao two_files two_db sample_token 9
      [request_bytes wire_format sample_token two_h] \<lparr>mem_sent = [], mem_finished = False\<rparr> =
      (Ok (), \<lparr>tx_writer = w', tx_buffer = buf\<rparr>, [EvRequestReceived 9 1 two_h, EvTransferCompleted 9 1])
    \<and> mem_sent w' = response_bytes wire_format 1 (FoundCollection 5) @ take 3 two_encoded
        @ response_bytes wire_format 1 Found @ u64_to_le_bytes 3 @ [1, 2, 3]
        @ response_bytes wire_format 1 Found @ u64_to_le_bytes 2 @ [4, 5]
    \<and> mem_finished w'"
proof -
  have limit: "fst (send_buf (mem_ops 3) w two_encoded) = Inr (min 3 (length two_encoded))" for w
    by (simp add: mem_ops_def Let_def)
  have s: "concat [request_bytes wire_format sample_token two_h] = request_bytes wire_format sample_token two_h"
    by simp
  from collection_requests_served [OF wire.postcard_axioms loopback.byte_stream_axioms mem.byte_sink_axioms limit s
      two_db_get(1) two_size two_slice two_decodes two_wire, of 9 "\<lparr>mem_sent = [], mem_finished = False\<rparr>"]
  show ?thesis by (simp add: status_event_def two_collection_def)
qed

theorem missing_blob_not_found_twice_witness:
  "\<exists>w' buf. handle_stream chunk_ops mem_eager_ops wire_format plain_bao two_files lost_db sample_token 9
      [request_bytes wire_format sample_token two_h] \<lparr>mem_sent = [], mem_finished = False\<rparr> =
      (Ok (), \<lparr>tx_writer = w', tx_buffer = buf\<rparr>, [EvRequestReceived 9 1 two_h, EvTransferAborted 9 (Some 1)])
    \<and> mem_sent w' = response_bytes wire_format 1 (FoundCollection 5) @ two_encoded
        @ response_bytes wire_format 1 NotFound @ response_bytes wire_format 1 NotFound
    \<and> mem_finished w'"
proof -
  let ?b = "\<lparr>blob_name = ''a.txt'', blob_hash = Hash (digest [1, 2, 3])\<rparr>"
  have s: "concat [request_bytes wire_format sample_token two_h] = request_bytes wire_format sample_token two_h"
    by simp
  have blobs: "coll_blobs two_collection = [] @ ?b # tl (coll_blobs two_collection)"
    by (simp add: two_collection_def)
  have none: "blobs_wire wire_format plain_bao two_files lost_db 1 [] = Some ([], Sent)" by simp
  have lost: "\<nexists>d. database_get lost_db (blob_hash ?b) = Some (Blob d)" by simp
  from missing_blob_not_found_twice [OF wire.postcard_axioms loopback.byte_stream_axioms mem_eager.eager_sink_axioms s
      two_db_get(2) two_size two_slice two_decodes blobs none lost, of 9 "\<lparr>mem_sent = [], mem_finished = False\<rparr>"]
  show ?thesis by (simp add: two_collection_def)
qed


lemma two_stream_events:
  "stream_events chunk_ops mem_eager_ops wire_format plain_bao two_files two_db sample_token 9
     ([request_bytes wire_format sample_token two_h], \<lparr>mem_sent = [], mem_finished = False\<rparr>) =
   [EvRequestReceived 9 1 two_h, EvTransferCompleted 9 1]"
proof -
  have s: "concat [request_bytes wire_format sample_token two_h] = request_bytes wire_format sample_token two_h"
    by simp
  have limit: "fst (send_buf mem_eager_ops w two_encoded) = Inr (min (length two_encoded) (length two_encoded))" for w
    by (simp add: mem_eager_ops_def)
  obtain rx1 rx2 where r: "read_handshake chunk_ops wire_format sample_token
        \<lparr>rx_reader = [request_bytes wire_format sample_token two_h], rx_buffer = []\<rparr> = (Ok (), rx1)"
      "read_request chunk_ops wire_format rx1 = (Ok \<lparr>req_id = 1, req_name = two_h\<rparr>, rx2)"
    using request_read [OF wire.postcard_axioms loopback.byte_stream_axioms s] by blast
  from transfer_collection_writes [OF wire.postcard_axioms mem_eager.byte_sink_axioms two_size two_slice two_decodes
      two_wire limit, of "\<lparr>tx_writer = \<lparr>mem_sent = [], mem_finished = False\<rparr>, tx_buffer = []\<rparr>"]
  show ?thesis
    using r by (auto simp: stream_events_def handle_stream_def Let_def)
qed

theorem connection_events_ordered_witness:
  "\<exists>sent. (connection_step (stream_events chunk_ops mem_eager_ops wire_format plain_bao two_files two_db sample_token 9) 9)\<^sup>*\<^sup>*
      ([([request_bytes wire_format sample_token two_h], \<lparr>mem_sent = [], mem_finished = False\<rparr>)], [], []) ([], [[]], sent @ [EvTransferCompleted 9 1])
    \<and> EvClientConnected 9 \<in> set sent \<and> (\<exists>h. EvRequestReceived 9 1 h \<in> set sent)"
proof -
  let ?ev = "stream_events chunk_ops mem_eager_ops wire_format plain_bao two_files two_db sample_token 9"
  let ?x = "([request_bytes wire_format sample_token two_h], \<lparr>mem_sent = [], mem_finished = False\<rparr>) :: chunk_stream \<times> mem_sink"
  have ev: "?ev ?x = [EvRequestReceived 9 1 two_h, EvTransferCompleted 9 1]" by (rule two_stream_events)
  have 1: "connection_step ?ev 9 ([?x], [], []) ([], [[EvRequestReceived 9 1 two_h, EvTransferCompleted 9 1]], [EvClientConnected 9])"
    using connection_step.accept [of ?ev 9 ?x "[]" "[]" "[]"] by (simp add: ev)
  have 2: "connection_step ?ev 9 ([], [[EvRequestReceived 9 1 two_h, EvTransferCompleted 9 1]], [EvClientConnected 9])
      ([], [[EvTransferCompleted 9 1]], [EvClientConnected 9, EvRequestReceived 9 1 two_h])"
    using connection_step.emit [of 0 "[[EvRequestReceived 9 1 two_h, EvTransferCompleted 9 1]]"
        "EvRequestReceived 9 1 two_h" "[EvTransferCompleted 9 1]" ?ev 9 "[]" "[EvClientConnected 9]"]
    by simp
  have 3: "connection_step ?ev 9 ([], [[EvTransferCompleted 9 1]], [EvClientConnected 9, EvRequestReceived 9 1 two_h])
      ([], [[]], [EvClientConnected 9, EvRequestReceived 9 1 two_h] @ [EvTransferCompleted 9 1])"
    using connection_step.emit [of 0 "[[EvTransferCompleted 9 1]]"
        "EvTransferCompleted 9 1" "[]" ?ev 9 "[]" "[EvClientConnected 9, EvRequestReceived 9 1 two_h]"]
    by simp
  from 1 2 3 have steps: "(connection_step ?ev 9)\<^sup>*\<^sup>* ([?x], [], [])
      ([], [[]], [EvClientConnected 9, EvRequestReceived 9 1 two_h] @ [EvTransferCompleted 9 1])"
    by (meson converse_rtranclp_into_rtranclp r_into_rtranclp)
  from connection_events_ordered [OF this, of "[EvClientConnected 9, EvRequestReceived 9 1 two_h]" 1 "[]"] steps
  show ?thesis by (intro exI [of _ "[EvClientConnected 9, EvRequestReceived 9 1 two_h]"]) simp
qed

end
