(* ===== verification/Guarantees.thy ===== *)
theory Guarantees
  imports Service
begin

text \<open>
  What the protocol guarantees to both sides: messages that round-trip, what happens to
  messages that are too long or cut short, close codes, and the integrity of what a getter
  receives from a provider it need not trust.
\<close>

section \<open>Messages\<close>

text \<open>
  C34: a message that is written with a length prefix is read back exactly,
  with what follows left on the stream and nothing left in the buffer, however the
  transport splits it; a message of 100 MiB or more is refused before anything is written.
\<close>

theorem framing_round_trip:
  assumes "byte_sink wo sent fin" and "byte_stream ro rest"
  shows "(length data < 100 * 1024 * 1024 \<longrightarrow>
      (\<exists>w'. write_lp wo data w = (Ok (), w')
        \<and> (\<forall>before s later. sent w' = sent w @ before \<longrightarrow> rest s = before @ later \<longrightarrow>
             (\<exists>s'. read_lp_data ro \<lparr>rx_reader = s, rx_buffer = []\<rparr> = (Ok (Some data), \<lparr>rx_reader = s', rx_buffer = []\<rparr>)
                \<and> rest s' = later))))
    \<and> (100 * 1024 * 1024 \<le> length data \<longrightarrow> write_lp wo data w = (Err MessageTooLarge, w))"
proof (intro conjI impI)
  assume True: "length data < 100 * 1024 * 1024"
  then have "length data < MAX_MESSAGE_SIZE" by (simp add: MAX_MESSAGE_SIZE_def)
  then obtain w' where w': "write_lp wo data w = (Ok (), w')" "sent w' = sent w @ frame data"
    using byte_sink.write_lp_ok [OF assms(1)] by blast
  have "\<exists>s'. read_lp_data ro \<lparr>rx_reader = s, rx_buffer = []\<rparr> = (Ok (Some data), \<lparr>rx_reader = s', rx_buffer = []\<rparr>) \<and> rest s' = later"
    if "rest s = frame data @ later" for s later
    using byte_stream.read_lp_data_frame [OF assms(2) that] True by simp
  with w' show "\<exists>w'. write_lp wo data w = (Ok (), w')
      \<and> (\<forall>before s later. sent w' = sent w @ before \<longrightarrow> rest s = before @ later \<longrightarrow>
           (\<exists>s'. read_lp_data ro \<lparr>rx_reader = s, rx_buffer = []\<rparr> = (Ok (Some data), \<lparr>rx_reader = s', rx_buffer = []\<rparr>)
              \<and> rest s' = later))"
    by auto
qed (simp add: write_lp_def MAX_MESSAGE_SIZE_def)

theorem framing_round_trip_witness:
  "\<exists>w'. write_lp mem_eager_ops [1, 2, 3] \<lparr>mem_sent = [9], mem_finished = False\<rparr> = (Ok (), w')"
  using framing_round_trip [OF mem_eager.byte_sink_axioms loopback.byte_stream_axioms, of "[1, 2, 3]"
      "\<lparr>mem_sent = [9], mem_finished = False\<rparr>"] by auto

text \<open>
  C35: what one side serialises, the other deserialises: handshakes, requests,
  responses and collections, with any bytes after them left over.
\<close>

theorem message_round_trips:
  assumes "postcard fmt" and "collection_ok c"
  shows "get_handshake fmt (put_handshake fmt hs @ rs) = Some (hs, rs)
    \<and> get_request fmt (put_request fmt q @ rs) = Some (q, rs)
    \<and> get_response fmt (put_response fmt p @ rs) = Some (p, rs)
    \<and> get_collection fmt (put_collection fmt c @ rs) = Some (c, rs)"
  using postcard.get_put_handshake [OF assms(1)] postcard.get_put_request [OF assms(1)]
    postcard.get_put_response [OF assms(1)] postcard.get_put_collection [OF assms] by blast

theorem message_round_trips_witness:
  "get_collection wire_format (put_collection wire_format
      \<lparr>coll_name = ''c'', coll_blobs = [\<lparr>blob_name = ''b'', blob_hash = Hash (fill32 1)\<rparr>], coll_total_blobs_size = 300\<rparr> @ [7]) =
    Some (\<lparr>coll_name = ''c'', coll_blobs = [\<lparr>blob_name = ''b'', blob_hash = Hash (fill32 1)\<rparr>], coll_total_blobs_size = 300\<rparr>, [7])"
proof -
  have "utf8_valid ''c''" by code_simp
  then have "collection_ok \<lparr>coll_name = ''c'', coll_blobs = [\<lparr>blob_name = ''b'', blob_hash = Hash (fill32 1)\<rparr>], coll_total_blobs_size = 300\<rparr>"
    by (simp add: collection_ok_def str_ok_def)
  from message_round_trips [OF wire.postcard_axioms this] show ?thesis by blast
qed

text \<open>
  The limit of 100 MiB holds for writing only: a peer that announces
  a longer message is not refused, the reader takes in all of it.
\<close>

theorem oversized_messages_read:
  assumes "byte_stream ro rest" and "rest s = u64_to_le_bytes n @ body @ later" and "length body = unat n"
  shows "\<exists>s'. read_lp_data ro \<lparr>rx_reader = s, rx_buffer = []\<rparr> = (Ok (Some body), \<lparr>rx_reader = s', rx_buffer = []\<rparr>)
    \<and> rest s' = later"
proof (rule byte_stream.read_lp_data_frame [OF assms(1)])
  show "rest s = frame body @ later" using assms(2,3) by (simp add: frame_def)
  show "length body < 2 ^ 64" using assms(3) unsigned_less [where w = n and 'a = nat] by simp
qed

theorem oversized_messages_read_witness:
  "\<exists>s'. read_lp_data chunk_ops \<lparr>rx_reader = [u64_to_le_bytes (2 ^ 30), replicate (2 ^ 30) 0], rx_buffer = []\<rparr> =
      (Ok (Some (replicate (2 ^ 30) 0)), \<lparr>rx_reader = s', rx_buffer = []\<rparr>)"
  using oversized_messages_read [OF loopback.byte_stream_axioms,
      of "[u64_to_le_bytes (2 ^ 30), replicate (2 ^ 30) 0]" "2 ^ 30" "replicate (2 ^ 30) 0" "[]"]
  by simp blast

text \<open>
  When the stream ends inside a message, both ways of reading one
  panic, at different places; only a stream that ends before the length prefix is complete
  is told apart: end of stream for one, an error for the other.
\<close>

lemma truncated_message_panics:
  assumes "byte_stream ro rest" and "rest s = u64_to_le_bytes n @ body" and "length body < unat n"
    and "length (rest s0) < 8"
  shows "fst (read_lp ro get \<lparr>rx_reader = s, rx_buffer = []\<rparr>) = Panic SliceOutOfRange
    \<and> fst (read_lp_data ro \<lparr>rx_reader = s, rx_buffer = []\<rparr>) = Panic SplitOutOfRange
    \<and> fst (read_lp ro get \<lparr>rx_reader = s0, rx_buffer = []\<rparr>) = Ok None
    \<and> fst (read_lp_data ro \<lparr>rx_reader = s0, rx_buffer = []\<rparr>) = Err (IoError UnexpectedEof)"
  using byte_stream.read_lp_truncated [OF assms(1-3)] byte_stream.read_lp_data_truncated [OF assms(1-3)]
    byte_stream.read_lp_eof [OF assms(1,4)] byte_stream.read_lp_data_eof [OF assms(1,4)]
  by (metis fst_conv)

lemma truncated_message_example:
  "fst (read_lp chunk_ops (get_request wire_format) \<lparr>rx_reader = [u64_to_le_bytes 2, [1]], rx_buffer = []\<rparr>) = Panic SliceOutOfRange
    \<and> fst (read_lp_data chunk_ops \<lparr>rx_reader = [[1, 2, 3]], rx_buffer = []\<rparr>) = Err (IoError UnexpectedEof)"
  using truncated_message_panics [OF loopback.byte_stream_axioms, of "[u64_to_le_bytes 2, [1]]" 2 "[1]" "[[1, 2, 3]]"
      "get_request wire_format"]
  by simp

text \<open>
  The maximum that \<^verbatim>\<open>MaxSize\<close> gives for a request is one byte too
  small: a request with a large id takes 43 bytes, where \<^verbatim>\<open>Hash\<close> counts 32 for itself but
  is written with a length before its bytes.
\<close>

lemma request_exceeds_max_size:
  assumes "postcard fmt" and "length (put_u64 fmt i) = 10"
  shows "length (put_request fmt \<lparr>req_id = i, req_name = h\<rparr>) = request_max_size + 1"
  using assms(2) postcard.length_put_hash [OF assms(1), of h]
  by (simp add: put_request_def request_max_size_def hash_postcard_max_size_def)

lemma request_exceeds_max_size_example:
  "length (put_request wire_format \<lparr>req_id = 2 ^ 63, req_name = Hash (fill32 0)\<rparr>) = request_max_size + 1"
proof (rule request_exceeds_max_size [OF wire.postcard_axioms])
  show "length (put_u64 wire_format (2 ^ 63)) = 10"
    by (simp add: wire_format_def varint.simps)
qed

text \<open>
  A close code is read back to the reason it was made of, and every other code
  is an error that names it.
\<close>

theorem close_codes:
  "(closed_try_from v = Ok c \<longleftrightarrow> v = closed_to_varint c)
    \<and> (closed_try_from v = Err e \<longleftrightarrow> v \<notin> {0, 1, 2} \<and> e = UnknownErrorCode v)"
  by (cases c) (auto simp: closed_try_from_def closed_to_varint_def)

section \<open>Integrity\<close>

text \<open>A caller that saves what it is handed has only what was asked for.\<close>

lemma fetched_verified:
  assumes "bao_verified bao dops" and "fetched ro dops fmt (saving dops) bs g szs g'"
  shows "\<exists>ds. gx_user g' = gx_user g @ map2 (\<lambda>b d. (blob_hash b, d, blob_name b)) bs ds \<and> length ds = length bs
    \<and> list_all2 (\<lambda>b d. root_hash bao d = hash_as_bytes (blob_hash b)) bs ds
    \<and> szs = map (\<lambda>d. of_nat (length d)) ds"
  using assms(2)
proof (induction rule: fetched.induct)
  case (none g)
  then show ?case by simp
next
  case (one b g d0 rx sz d1 d2 u e d3 bs szs g')
  obtain rx0 where "d0 = dec_new dops rx0 (hash_as_bytes (blob_hash b))"
    using one.hyps(1)
    by (auto simp: handle_blob_response_def io_bind_def io_simps data_stream_new_def hash_to_blake3_def
        split: prod.splits outcome.splits option.splits res.splits if_splits)
  moreover obtain r d' where "dec_read_to_end dops d1 = (r, d')" by fastforce
  moreover from this one.hyps(3) obtain d where "r = Inr d" "u = gx_user g @ [(blob_hash b, d, blob_name b)]"
    by (cases r) (auto simp: saving_def)
  ultimately have d: "root_hash bao d = hash_as_bytes (blob_hash b)" "sz = of_nat (length d)"
      "u = gx_user g @ [(blob_hash b, d, blob_name b)]"
    using bao_verified.sized_verified [OF assms(1)] one.hyps(2) by (auto simp: data_stream_read_size_def)
  from one.IH obtain ds where "gx_user g' = u @ map2 (\<lambda>b d. (blob_hash b, d, blob_name b)) bs ds" "length ds = length bs"
      "list_all2 (\<lambda>b d. root_hash bao d = hash_as_bytes (blob_hash b)) bs ds" "szs = map (\<lambda>d. of_nat (length d)) ds"
    by auto
  with d show ?case by (intro exI [of _ "d # ds"]) simp
qed

text \<open>
  C4: whatever the provider sends, a collection that is received with
  success is the one whose hash was asked for, and each of its blobs that the caller saved
  has the hash that the collection lists, in the collection's order; the sizes add up to no
  more than the total that is reported.
\<close>

theorem received_data_verified:
  assumes "bao_verified bao dops"
    and "receive_collection checks ro dops fmt (saving dops) h tot \<lparr>gx_rx = rx, gx_user = []\<rparr> = (Ok n, g')"
  shows "\<exists>data c ds. root_hash bao data = hash_as_bytes h \<and> collection_from_bytes fmt data = Ok c
    \<and> gx_user g' = map2 (\<lambda>b d. (blob_hash b, d, blob_name b)) (coll_blobs c) ds
    \<and> list_all2 (\<lambda>b d. root_hash bao d = hash_as_bytes (blob_hash b)) (coll_blobs c) ds
    \<and> (\<Sum>d\<leftarrow>ds. length d mod 2 ^ 64) \<le> unat n \<and> n \<le> 2 ^ 30"
proof -
  from assms(2) obtain data s1 c u szs where n: "n = tot" "tot \<le> MAX_DATA_SIZE"
    and data: "read_bao_encoded dops h (rx_reader rx) = (Ok data, s1)"
    and c: "collection_from_bytes fmt data = Ok c" and u: "cb_collection (saving dops) c [] = (Inr (), u)"
    and f: "fetched ro dops fmt (saving dops) (coll_blobs c) \<lparr>gx_rx = rx\<lparr>rx_reader := s1\<rparr>, gx_user = u\<rparr> szs g'"
    and le: "(\<Sum>sz\<leftarrow>szs. unat sz) \<le> unat tot"
    unfolding receive_collection_iff by auto
  obtain r d where "dec_read_to_end dops (dec_new dops (rx_reader rx) (hash_as_bytes h)) = (r, d)" by fastforce
  with data have "dec_read_to_end dops (dec_new dops (rx_reader rx) (hash_as_bytes h)) = (Inr data, d)"
    by (cases r) (auto simp: read_bao_encoded_def hash_to_blake3_def)
  then have root: "root_hash bao data = hash_as_bytes h" by (rule bao_verified.whole_verified [OF assms(1)])
  from u have "u = []" by (simp add: saving_def)
  with fetched_verified [OF assms(1) f] obtain ds where
    ds: "gx_user g' = map2 (\<lambda>b d. (blob_hash b, d, blob_name b)) (coll_blobs c) ds"
      "list_all2 (\<lambda>b d. root_hash bao d = hash_as_bytes (blob_hash b)) (coll_blobs c) ds"
      "szs = map (\<lambda>d. of_nat (length d)) ds"
    by auto
  from le have "(\<Sum>d\<leftarrow>ds. length d mod 2 ^ 64) \<le> unat n"
    by (simp add: ds(3) n(1) comp_def unat_of_nat take_bit_eq_mod)
  with root c ds n show ?thesis by (auto simp: MAX_DATA_SIZE_def)
qed

theorem received_data_verified_witness:
  "\<exists>g'. receive_collection True chunk_ops plain_dec_ops wire_format (saving plain_dec_ops) two_h 5
      \<lparr>gx_rx = \<lparr>rx_reader = [two_encoded, response_bytes wire_format 1 Found @ bao_encoding plain_bao [1, 2, 3],
          response_bytes wire_format 1 Found @ bao_encoding plain_bao [4, 5]], rx_buffer = []\<rparr>, gx_user = []\<rparr> = (Ok 5, g')
    \<and> list_all (\<lambda>(h, d, n). digest d = hash_as_bytes h) (gx_user g')"
proof -
  let ?s = "[two_encoded, response_bytes wire_format 1 Found @ bao_encoding plain_bao [1, 2, 3],
      response_bytes wire_format 1 Found @ bao_encoding plain_bao [4, 5]]"
  let ?bds = "[(\<lparr>blob_name = ''a.txt'', blob_hash = Hash (digest [1, 2, 3])\<rparr>, [1, 2, 3]),
      (\<lparr>blob_name = ''b'', blob_hash = Hash (digest [4, 5])\<rparr>, [4, 5])] :: (blob \<times> bytes) list"
  let ?blobs = "concat (map (\<lambda>(b, d). response_bytes wire_format 1 Found @ bao_encoding plain_bao d) ?bds)"
  have root: "root_hash plain_bao d = digest d" for d by (simp add: root_hash_def plain_bao_def)
  have enc: "two_encoded = bao_encoding plain_bao two_data" by (simp add: bao_encoding_def plain_bao_def two_encoded_def)
  have small: "length two_data < 2 ^ 64" using two_data_small by simp
  have s: "concat ?s = bao_encoding plain_bao two_data @ ?blobs" by (simp add: enc)
  from plain_transfer.dec_to_end [OF plain_transfer.dec_start [OF small s]] obtain x where
    x: "dec_read_to_end plain_dec_ops (dec_new plain_dec_ops ?s (digest two_data)) = (Inr two_data, x)"
      "plain_pos x two_data [] ?blobs"
    unfolding root by blast
  then have 1: "read_bao_encoded plain_dec_ops two_h ?s = (Ok two_data, dec_into_inner plain_dec_ops x)"
    by (simp add: read_bao_encoded_def two_h_def hash_to_blake3_def)
  have rest: "concat (dec_into_inner plain_dec_ops x) = ?blobs @ []" using plain_transfer.dec_inner [OF x(2)] by simp
  have blob: "blob_hash b = Hash (root_hash plain_bao d) \<and> length d < 2 ^ 64" if "(b, d) \<in> set ?bds" for b d
    using that root by auto
  from plain_exchange.fetch_consuming [OF plain_exchange.saving_consumes blob rest, of "[]"] obtain s' where
    2: "fetched chunk_ops plain_dec_ops wire_format (saving plain_dec_ops) (coll_blobs two_collection)
      \<lparr>gx_rx = \<lparr>rx_reader = dec_into_inner plain_dec_ops x, rx_buffer = []\<rparr>, gx_user = []\<rparr> [3, 2]
      \<lparr>gx_rx = \<lparr>rx_reader = s', rx_buffer = []\<rparr>,
       gx_user = [(Hash (digest [1, 2, 3]), [1, 2, 3], ''a.txt''), (Hash (digest [4, 5]), [4, 5], ''b'')]\<rparr>"
    by (auto simp: two_collection_def)
  have dec: "collection_from_bytes wire_format two_data = Ok two_collection"
    using two_decodes by (simp add: collection_from_bytes_def)
  have "receive_collection True chunk_ops plain_dec_ops wire_format (saving plain_dec_ops) two_h 5
      \<lparr>gx_rx = \<lparr>rx_reader = ?s, rx_buffer = []\<rparr>, gx_user = []\<rparr> =
      (Ok 5, \<lparr>gx_rx = \<lparr>rx_reader = s', rx_buffer = []\<rparr>,
       gx_user = [(Hash (digest [1, 2, 3]), [1, 2, 3], ''a.txt''), (Hash (digest [4, 5]), [4, 5], ''b'')]\<rparr>)"
    unfolding receive_collection_iff
    by (intro conjI exI [of _ two_data] exI [of _ "dec_into_inner plain_dec_ops x"] exI [of _ two_collection]
        exI [of _ "[] :: (hash \<times> bytes \<times> string) list"] exI [of _ "[3, 2]"])
      (use 1 2 dec in \<open>simp_all add: MAX_DATA_SIZE_def saving_def\<close>)
  from received_data_verified [OF plain_verified.bao_verified_axioms this] this show ?thesis by auto
qed

end
