(* ===== verification/Splitting.thy ===== *)
theory Splitting
  imports Samples
begin

text \<open>
  How the network cuts a stream into reads makes no difference: two transports that deliver
  the same bytes lead to the same results, on both sides of the protocol. The equivalence
  is a relation between computations over two states, lifted through composition.
\<close>

section \<open>Related computations\<close>

text \<open>
  From states in \<open>R\<close>, both computations return: related values in states in \<open>R'\<close>, or the
  same error or panic in states in \<open>E\<close>.
\<close>

fun outcome_rel ::
    "('s \<Rightarrow> 't \<Rightarrow> bool) \<Rightarrow> ('s \<Rightarrow> 't \<Rightarrow> bool) \<Rightarrow> ('a \<Rightarrow> 'b \<Rightarrow> bool)
       \<Rightarrow> ('a, 'e) outcome \<times> 's \<Rightarrow> ('b, 'e) outcome \<times> 't \<Rightarrow> bool" where
  "outcome_rel R E Q (Ok x, s) (Ok y, t) = (Q x y \<and> R s t)"
| "outcome_rel R E Q (Err e, s) (Err e', t) = (e = e' \<and> E s t)"
| "outcome_rel R E Q (Panic p, s) (Panic p', t) = (p = p' \<and> E s t)"
| "outcome_rel R E Q _ _ = False"

definition io_rel ::
    "('s \<Rightarrow> 't \<Rightarrow> bool) \<Rightarrow> ('s \<Rightarrow> 't \<Rightarrow> bool) \<Rightarrow> ('s \<Rightarrow> 't \<Rightarrow> bool) \<Rightarrow> ('a \<Rightarrow> 'b \<Rightarrow> bool)
       \<Rightarrow> ('s, 'a, 'e) io \<Rightarrow> ('t, 'b, 'e) io \<Rightarrow> bool" where
  "io_rel R R' E Q m m' \<longleftrightarrow> (\<forall>s t. R s t \<longrightarrow> outcome_rel R' E Q (m s) (m' t))"

lemma outcome_rel_cases:
  assumes "outcome_rel R E Q r r'"
  obtains (ok) x s y t where "r = (Ok x, s)" and "r' = (Ok y, t)" and "Q x y" and "R s t"
    | (err) e s t where "r = (Err e, s)" and "r' = (Err e, t)" and "E s t"
    | (panic) p s t where "r = (Panic p, s)" and "r' = (Panic p, t)" and "E s t"
  using assms by (cases r rule: prod.exhaust; cases r' rule: prod.exhaust; cases "fst r"; cases "fst r'") auto

lemma io_relD: "io_rel R R' E Q m m' \<Longrightarrow> R s t \<Longrightarrow> outcome_rel R' E Q (m s) (m' t)"
  by (simp add: io_rel_def)

lemma io_rel_bind:
  assumes "io_rel R R1 E Q m m'" and "\<And>x y. Q x y \<Longrightarrow> io_rel R1 R2 E Q2 (f x) (f' y)"
  shows "io_rel R R2 E Q2 (io_bind m f) (io_bind m' f')"
  unfolding io_rel_def
proof (intro allI impI)
  fix s t
  assume "R s t"
  from io_relD [OF assms(1) this] show "outcome_rel R2 E Q2 (io_bind m f s) (io_bind m' f' t)"
    by (cases rule: outcome_rel_cases) (use assms(2) in \<open>auto simp: io_rel_def\<close>)
qed

lemma io_rel_lift: "(\<And>s t. R s t \<Longrightarrow> E s t) \<Longrightarrow> io_rel R R E (=) (io_lift r) (io_lift r)"
  by (cases r) (auto simp: io_rel_def io_simps)

lemma io_rel_ret: "Q x y \<Longrightarrow> io_rel R R E Q (io_ret x) (io_ret y)"
  by (simp add: io_rel_def io_simps)

lemma io_rel_throw: "(\<And>s t. R s t \<Longrightarrow> E s t) \<Longrightarrow> io_rel R R' E Q (io_throw e) (io_throw e)"
  by (simp add: io_rel_def io_simps)

lemma io_rel_ensure: "(\<And>s t. R s t \<Longrightarrow> E s t) \<Longrightarrow> io_rel R R E (=) (io_ensure b e) (io_ensure b e)"
  by (simp add: io_rel_def io_simps ensure_def)

section \<open>Two transports\<close>

locale two_streams =
  a: byte_stream ro rest + b: byte_stream ro' rest'
  for ro :: "'s recv_ops" and rest :: "'s \<Rightarrow> bytes" and ro' :: "'t recv_ops" and rest' :: "'t \<Rightarrow> bytes"
begin

definition same :: "'s rx \<Rightarrow> 't rx \<Rightarrow> bool" where
  "same rx rx' \<longleftrightarrow> rest (rx_reader rx) = rest' (rx_reader rx') \<and> rx_buffer rx = rx_buffer rx'"

abbreviation related :: "('s rx, 'a, 'e) io \<Rightarrow> ('t rx, 'a, 'e) io \<Rightarrow> bool" where
  "related \<equiv> io_rel same same (\<lambda>_ _. True) (=)"

lemma read_loop_related: "related (read_loop ro left) (read_loop ro' left)"
  unfolding io_rel_def
proof (intro allI impI)
  fix rx rx'
  assume "same rx rx'"
  moreover obtain s t where "read_loop ro left rx =
        (Ok (), \<lparr>rx_reader = s, rx_buffer = rx_buffer rx @ take left (rest (rx_reader rx))\<rparr>)"
      "rest s = drop left (rest (rx_reader rx))"
      "read_loop ro' left rx' =
        (Ok (), \<lparr>rx_reader = t, rx_buffer = rx_buffer rx' @ take left (rest' (rx_reader rx'))\<rparr>)"
      "rest' t = drop left (rest' (rx_reader rx'))"
    using a.read_loop_spec b.read_loop_spec by meson
  ultimately show "outcome_rel same (\<lambda>_ _. True) (=) (read_loop ro left rx) (read_loop ro' left rx')"
    by (simp add: same_def)
qed

lemma read_prefix_same:
  assumes "rest s = rest' t"
  obtains (got) n s1 t1 where "read_prefix ro s = (Inr n, s1)" and "read_prefix ro' t = (Inr n, t1)"
      and "rest s1 = rest' t1"
    | (eof) s1 t1 where "read_prefix ro s = (Inl UnexpectedEof, s1)" and "read_prefix ro' t = (Inl UnexpectedEof, t1)"
      and "rest s1 = rest' t1"
proof (cases "8 \<le> length (rest s)")
  case True
  with assms a.recv_u64_full [of s] b.recv_u64_full [of t] that(1) show thesis
    unfolding read_prefix_def by metis
next
  case False
  with assms a.recv_u64_short [of s] b.recv_u64_short [of t] that(2) show thesis
    unfolding read_prefix_def by (metis not_le)
qed

lemma read_lp_related: "related (read_lp ro get) (read_lp ro' get)"
  unfolding io_rel_def
proof (intro allI impI)
  fix rx :: "'s rx" and rx' :: "'t rx"
  assume same: "same rx rx'"
  then have "rest (rx_reader rx) = rest' (rx_reader rx')" by (simp add: same_def)
  then show "outcome_rel same (\<lambda>_ _. True) (=) (read_lp ro get rx) (read_lp ro' get rx')"
  proof (cases rule: read_prefix_same)
    case (got n s1 t1)
    have *: "outcome_rel same (\<lambda>_ _. True) (=) (r, x) (r, x')" if "same x x'" for r :: "('c, error) outcome" and x x'
      using that by (cases r) simp_all
    have "same (rx\<lparr>rx_reader := s1\<rparr>) (rx'\<lparr>rx_reader := t1\<rparr>)"
      using same got(3) by (simp add: same_def)
    moreover have "related
      (io_bind (read_loop ro (unat n)) (\<lambda>_ rx.
        (and_then (slice_to (rx_buffer rx) (unat n)) (\<lambda>msg.
         and_then (map_err PostcardError (from_bytes get msg)) (\<lambda>x. Ok (Some (x, unat n)))), rx)))
      (io_bind (read_loop ro' (unat n)) (\<lambda>_ rx.
        (and_then (slice_to (rx_buffer rx) (unat n)) (\<lambda>msg.
         and_then (map_err PostcardError (from_bytes get msg)) (\<lambda>x. Ok (Some (x, unat n)))), rx)))"
      by (rule io_rel_bind [OF read_loop_related]) (auto simp: io_rel_def same_def intro!: *)
    ultimately show ?thesis
      using got by (simp add: read_lp_def io_rel_def)
  qed (use same in \<open>simp add: read_lp_def same_def\<close>)
qed

lemma read_size_data_related: "related (read_size_data ro n) (read_size_data ro' n)"
  unfolding read_size_data_def
  by (rule io_rel_bind [OF read_loop_related])
    (auto simp: io_rel_def same_def split_to_def)

lemma read_lp_data_related: "related (read_lp_data ro) (read_lp_data ro')"
  unfolding io_rel_def
proof (intro allI impI)
  fix rx :: "'s rx" and rx' :: "'t rx"
  assume same: "same rx rx'"
  then have "rest (rx_reader rx) = rest' (rx_reader rx')" by (simp add: same_def)
  then show "outcome_rel same (\<lambda>_ _. True) (=) (read_lp_data ro rx) (read_lp_data ro' rx')"
  proof (cases rule: read_prefix_same)
    case (got n s1 t1)
    have "same (rx\<lparr>rx_reader := s1\<rparr>) (rx'\<lparr>rx_reader := t1\<rparr>)"
      using same got(3) by (simp add: same_def)
    moreover have "related
      (io_bind (read_size_data ro n) (\<lambda>response. io_ret (Some response)))
      (io_bind (read_size_data ro' n) (\<lambda>response. io_ret (Some response)))"
      by (rule io_rel_bind [OF read_size_data_related]) (auto intro: io_rel_ret)
    ultimately show ?thesis using got by (simp add: read_lp_data_def io_rel_def)
  qed (use same in \<open>simp add: read_lp_data_def same_def\<close>)
qed

text \<open>A last \<^verbatim>\<open>read_chunk\<close> only tells whether there is more.\<close>

lemma recv_chunk_same:
  assumes "rest s = rest' t" and "0 < n"
  obtains (stop) s1 t1 where "recv_chunk ro s n = (Inr None, s1)" and "recv_chunk ro' t n = (Inr None, t1)"
    | (more) bs s1 bs' t1 where "recv_chunk ro s n = (Inr (Some bs), s1)" and "recv_chunk ro' t n = (Inr (Some bs'), t1)"
  using assms a.recv_chunk_end [of s n] b.recv_chunk_end [of t n]
    a.recv_chunk_more [of n s] b.recv_chunk_more [of n t] by (cases "rest s = []") (metis+)

lemma read_handshake_related: "related (read_handshake ro fmt token) (read_handshake ro' fmt token)"
  unfolding read_handshake_def
proof (rule io_rel_bind [OF read_lp_related])
  fix m m' :: "(handshake \<times> nat) option"
  assume "m = m'"
  then show "related
     (case m of
       Some (h, sz) \<Rightarrow>
         io_bind (io_ensure (hs_version h = VERSION) (VersionMismatch (hs_version h))) (\<lambda>_.
         io_bind (io_ensure (hs_token h = token) TokenMismatch) (\<lambda>_ rx.
         case split_to (rx_buffer rx) sz of
           Ok (_, rest_buf) \<Rightarrow> (Ok (), rx\<lparr>rx_buffer := rest_buf\<rparr>)
         | Err e \<Rightarrow> (Err e, rx)
         | Panic p \<Rightarrow> (Panic p, rx)))
     | None \<Rightarrow> io_throw NoHandshake)
     (case m' of
       Some (h, sz) \<Rightarrow>
         io_bind (io_ensure (hs_version h = VERSION) (VersionMismatch (hs_version h))) (\<lambda>_.
         io_bind (io_ensure (hs_token h = token) TokenMismatch) (\<lambda>_ rx.
         case split_to (rx_buffer rx) sz of
           Ok (_, rest_buf) \<Rightarrow> (Ok (), rx\<lparr>rx_buffer := rest_buf\<rparr>)
         | Err e \<Rightarrow> (Err e, rx)
         | Panic p \<Rightarrow> (Panic p, rx)))
     | None \<Rightarrow> io_throw NoHandshake)"
    by (cases m) (auto intro!: io_rel_bind [OF io_rel_ensure] io_rel_throw simp: io_rel_def same_def split_to_def
        io_bind_def io_simps ensure_def)
qed

lemma read_request_same:
  assumes "same rx rx'"
  shows "fst (read_request ro fmt rx) = fst (read_request ro' fmt rx')"
proof -
  from io_relD [OF read_lp_related [of "get_request fmt"] assms] show ?thesis
  proof (cases rule: outcome_rel_cases)
    case (ok q s q' t)
    then have "rest (rx_reader s) = rest' (rx_reader t)" "(0 :: nat) < 8" by (simp_all add: same_def)
    then show ?thesis
      by (cases rule: recv_chunk_same) (use ok in \<open>simp_all add: read_request_def split: option.splits prod.splits\<close>)
  qed (simp_all add: read_request_def)
qed

lemma handle_stream_same:
  assumes "rest s = rest' t"
  shows "handle_stream ro wo fmt bao fs db token cid s w = handle_stream ro' wo fmt bao fs db token cid t w"
proof -
  have "same \<lparr>rx_reader = s, rx_buffer = []\<rparr> \<lparr>rx_reader = t, rx_buffer = []\<rparr>"
    using assms by (simp add: same_def)
  from io_relD [OF read_handshake_related [of fmt token] this] show ?thesis
  proof (cases rule: outcome_rel_cases)
    case (ok u rx u' rx')
    from read_request_same [OF ok(4), of fmt] ok show ?thesis
      by (auto simp: handle_stream_def Let_def split: prod.splits outcome.splits)
  qed (simp_all add: handle_stream_def Let_def)
qed

end

section \<open>Two decoders\<close>

text \<open>Callers that do the same with decoders that agree.\<close>

definition same_callbacks :: "('d \<Rightarrow> 'e \<Rightarrow> bool) \<Rightarrow> ('u, 'd) callbacks \<Rightarrow> ('u, 'e) callbacks \<Rightarrow> bool" where
  "same_callbacks agree cbs cbs' \<longleftrightarrow>
     cb_connected cbs = cb_connected cbs' \<and> cb_collection cbs = cb_collection cbs'
     \<and> (\<forall>h x y n u. agree x y \<longrightarrow> rel_prod (rel_sum (=) agree) (=) (cb_blob cbs h x n u) (cb_blob cbs' h y n u))"

text \<open>
  Decoders over the two transports that take the same bytes and give the same results. What
  a decoder does after it has reported an error matters for \<^verbatim>\<open>read_exact\<close> only.
\<close>

locale two_decoders = two_streams ro rest ro' rest'
  for ro :: "'s recv_ops" and rest :: "'s \<Rightarrow> bytes" and ro' :: "'t recv_ops" and rest' :: "'t \<Rightarrow> bytes" +
  fixes dops :: "('s, 'd) decoder_ops" and dops' :: "('t, 'e) decoder_ops" and agree :: "'d \<Rightarrow> 'e \<Rightarrow> bool"
  assumes new_agree: "rest s = rest' t \<Longrightarrow> agree (dec_new dops s h) (dec_new dops' t h)"
    and size_agree: "agree x y \<Longrightarrow> rel_prod (=) agree (dec_read_size dops x) (dec_read_size dops' y)"
    and to_end_agree: "agree x y \<Longrightarrow> rel_prod (=) agree (dec_read_to_end dops x) (dec_read_to_end dops' y)"
    and exact_agree: "agree x y \<Longrightarrow> rel_prod (=) agree (dec_read_exact dops x n) (dec_read_exact dops' y n)"
    and inner_agree: "agree x y \<Longrightarrow> rest (dec_into_inner dops x) = rest' (dec_into_inner dops' y)"
begin

definition same_gx :: "('s, 'u) gx \<Rightarrow> ('t, 'u) gx \<Rightarrow> bool" where
  "same_gx g g' \<longleftrightarrow> same (gx_rx g) (gx_rx g') \<and> gx_user g = gx_user g'"

definition same_user :: "('s, 'u) gx \<Rightarrow> ('t, 'u) gx \<Rightarrow> bool" where
  "same_user g g' \<longleftrightarrow> gx_user g = gx_user g'"

lemma same_user: "same_gx g g' \<Longrightarrow> same_user g g'"
  by (simp add: same_gx_def same_user_def)

lemma same_user_make [simp]: "same_user \<lparr>gx_rx = rx, gx_user = u\<rparr> \<lparr>gx_rx = rx', gx_user = u'\<rparr> \<longleftrightarrow> u = u'"
  by (simp add: same_user_def)

lemma handle_blob_response_related:
  "io_rel same same (\<lambda>_ _. True) agree (handle_blob_response ro dops fmt h) (handle_blob_response ro' dops' fmt h)"
  unfolding handle_blob_response_def
  by (rule io_rel_bind [OF read_lp_data_related])
    (auto intro!: new_agree simp: io_rel_def io_bind_def io_simps same_def data_stream_new_def
      split: option.split res.split outcome.split)

lemma read_bao_encoded_same:
  assumes "rest s = rest' t"
  shows "outcome_rel (\<lambda>s t. rest s = rest' t) (\<lambda>_ _. True) (=) (read_bao_encoded dops h s) (read_bao_encoded dops' h t)"
proof -
  have "rel_prod (=) agree (dec_read_to_end dops (dec_new dops s (hash_to_blake3 h)))
      (dec_read_to_end dops' (dec_new dops' t (hash_to_blake3 h)))"
    by (rule to_end_agree [OF new_agree [OF assms]])
  then show ?thesis
    by (cases "dec_read_to_end dops (dec_new dops s (hash_to_blake3 h))";
        cases "dec_read_to_end dops' (dec_new dops' t (hash_to_blake3 h))";
        cases "fst (dec_read_to_end dops (dec_new dops s (hash_to_blake3 h)))")
      (auto simp: read_bao_encoded_def inner_agree)
qed

lemma receive_blobs_related:
  fixes cbs :: "('u, 'd) callbacks"
  assumes cbs: "same_callbacks agree cbs cbs'"
  shows "io_rel same_gx same_gx same_user (\<lambda>_ _. True)
    (receive_blobs checks ro dops fmt cbs tot bs remaining) (receive_blobs checks ro' dops' fmt cbs' tot bs remaining)"
proof (induction bs arbitrary: remaining)
  case Nil
  then show ?case by (simp add: io_rel_def io_simps)
next
  case (Cons b bs)
  show ?case unfolding io_rel_def
  proof (intro allI impI)
    fix g :: "('s, 'u) gx" and g' :: "('t, 'u) gx"
    assume g: "same_gx g g'"
    then have "same (gx_rx g) (gx_rx g')" by (simp add: same_gx_def)
    from io_relD [OF handle_blob_response_related [of fmt "blob_hash b"] this]
    show "outcome_rel same_gx same_user (\<lambda>_ _. True) (receive_blobs checks ro dops fmt cbs tot (b # bs) remaining g)
      (receive_blobs checks ro' dops' fmt cbs' tot (b # bs) remaining g')"
    proof (cases rule: outcome_rel_cases)
      case (ok d0 rx e0 rx')
      obtain sz d1 e1 where size: "dec_read_size dops d0 = (sz, d1)" "dec_read_size dops' e0 = (sz, e1)" "agree d1 e1"
        using size_agree [OF ok(3)] by (cases "dec_read_size dops d0"; cases "dec_read_size dops' e0") auto
      have "rel_prod (rel_sum (=) agree) (=) (cb_blob cbs (blob_hash b) d1 (blob_name b) (gx_user g))
          (cb_blob cbs' (blob_hash b) e1 (blob_name b) (gx_user g'))"
        using cbs size(3) g unfolding same_callbacks_def same_gx_def by auto
      then obtain r u r' where blob: "cb_blob cbs (blob_hash b) d1 (blob_name b) (gx_user g) = (r, u)"
          "cb_blob cbs' (blob_hash b) e1 (blob_name b) (gx_user g') = (r', u)" "rel_sum (=) agree r r'"
        by (auto elim!: rel_prod.cases)
      have "outcome_rel same_gx same_user (\<lambda>_ _. True)
          (case dec_read_exact dops d2 1 of
             (Inr byte, d3) \<Rightarrow> (Err BlobNotFullyRead, \<lparr>gx_rx = rx, gx_user = u\<rparr>)
           | (Inl e, d3) \<Rightarrow> receive_blobs checks ro dops fmt cbs tot bs rem'
               \<lparr>gx_rx = rx\<lparr>rx_reader := data_stream_into_inner dops d3\<rparr>, gx_user = u\<rparr>)
          (case dec_read_exact dops' e2 1 of
             (Inr byte, d3) \<Rightarrow> (Err BlobNotFullyRead, \<lparr>gx_rx = rx', gx_user = u\<rparr>)
           | (Inl e, d3) \<Rightarrow> receive_blobs checks ro' dops' fmt cbs' tot bs rem'
               \<lparr>gx_rx = rx'\<lparr>rx_reader := data_stream_into_inner dops' d3\<rparr>, gx_user = u\<rparr>)"
        if d2: "agree d2 e2" for d2 e2 rem'
      proof -
        obtain x d3 e3 where ex: "dec_read_exact dops d2 1 = (x, d3)" "dec_read_exact dops' e2 1 = (x, e3)" "agree d3 e3"
          using exact_agree [OF d2, of 1] by (cases "dec_read_exact dops d2 1"; cases "dec_read_exact dops' e2 1") auto
        have "same_gx \<lparr>gx_rx = rx\<lparr>rx_reader := dec_into_inner dops d3\<rparr>, gx_user = u\<rparr>
            \<lparr>gx_rx = rx'\<lparr>rx_reader := dec_into_inner dops' e3\<rparr>, gx_user = u\<rparr>"
          using ok(4) inner_agree [OF ex(3)] by (simp add: same_gx_def same_def)
        from io_relD [OF Cons.IH [of rem'] this] ex show ?thesis
          by (cases x) (simp_all add: data_stream_into_inner_def)
      qed
      with ok size blob g show ?thesis
        by (cases r; cases r')
          (auto simp: data_stream_read_size_def same_user_def same_gx_def sub_u64_def split: sum.split)
    qed (use g in \<open>simp_all add: same_user_def same_gx_def\<close>)
  qed
qed

lemma receive_collection_related:
  fixes cbs :: "('u, 'd) callbacks"
  assumes "same_callbacks agree cbs cbs'"
  shows "io_rel same_gx same_gx same_user (=)
    (receive_collection checks ro dops fmt cbs h tot) (receive_collection checks ro' dops' fmt cbs' h tot)"
  unfolding io_rel_def
proof (intro allI impI)
  fix g :: "('s, 'u) gx" and g' :: "('t, 'u) gx"
  assume g: "same_gx g g'"
  then have "rest (rx_reader (gx_rx g)) = rest' (rx_reader (gx_rx g'))" by (simp add: same_gx_def same_def)
  from read_bao_encoded_same [OF this, of h]
  show "outcome_rel same_gx same_user (=) (receive_collection checks ro dops fmt cbs h tot g)
    (receive_collection checks ro' dops' fmt cbs' h tot g')"
  proof (cases rule: outcome_rel_cases)
    case (ok data s data' t)
    have cb: "cb_collection cbs' c u = cb_collection cbs c u" for c u
      using assms by (simp add: same_callbacks_def)
    have "outcome_rel same_gx same_user (=)
        (io_bind (receive_blobs checks ro dops fmt cbs tot bs tot) (\<lambda>_. io_ret tot) x)
        (io_bind (receive_blobs checks ro' dops' fmt cbs' tot bs tot) (\<lambda>_. io_ret tot) y)"
      if "same_gx x y" for bs x y
      using io_rel_bind [OF receive_blobs_related [OF assms] io_rel_ret [of "(=)" tot tot]] that
      by (fastforce simp: io_rel_def)
    with ok g show ?thesis
      by (auto simp: receive_collection_def Let_def cb same_gx_def same_user_def same_def
          split: outcome.split prod.split sum.split)
  qed (use g in \<open>simp_all add: receive_collection_def same_user_def same_gx_def\<close>)
qed

lemma shut_down_related: "io_rel same_gx same_user same_user (=) (shut_down_stream ro) (shut_down_stream ro')"
  unfolding io_rel_def
proof (intro allI impI)
  fix g :: "('s, 'u) gx" and g' :: "('t, 'u) gx"
  assume g: "same_gx g g'"
  then have "rest (rx_reader (gx_rx g)) = rest' (rx_reader (gx_rx g'))" "(0 :: nat) < 8"
    by (simp_all add: same_gx_def same_def)
  then show "outcome_rel same_user same_user (=) (shut_down_stream ro g) (shut_down_stream ro' g')"
    by (cases rule: recv_chunk_same) (use g in \<open>simp_all add: shut_down_stream_def same_user_def same_gx_def\<close>)
qed

lemma on_rx_related:
  "related m m' \<Longrightarrow> io_rel same_gx same_gx same_user (=) (on_rx m) (on_rx m')"
  unfolding io_rel_def
proof (intro allI impI)
  fix g g'
  assume "\<forall>s t. same s t \<longrightarrow> outcome_rel same (\<lambda>_ _. True) (=) (m s) (m' t)" and g: "same_gx g g'"
  then have "outcome_rel same (\<lambda>_ _. True) (=) (m (gx_rx g)) (m' (gx_rx g'))" by (simp add: same_gx_def)
  then show "outcome_rel same_gx same_user (=) (on_rx m g) (on_rx m' g')"
    by (cases rule: outcome_rel_cases) (use g in \<open>simp_all add: on_rx_def same_gx_def same_user_def\<close>)
qed

lemma read_response_related:
  assumes "same_callbacks agree cbs cbs'"
  shows "io_rel same_gx same_user same_user (=)
    (read_response checks ro dops fmt cbs h) (read_response checks ro' dops' fmt cbs' h)"
  unfolding read_response_def
proof (rule io_rel_bind [OF on_rx_related [OF read_lp_data_related]])
  fix m m' :: "bytes option"
  have data: "io_rel same_gx same_gx same_user (=)
      (case resp_data response of
         FoundCollection tot \<Rightarrow> receive_collection checks ro dops fmt cbs h tot
       | Found \<Rightarrow> io_throw UnexpectedMessage | NotFound \<Rightarrow> io_throw DataNotFound)
      (case resp_data response of
         FoundCollection tot \<Rightarrow> receive_collection checks ro' dops' fmt cbs' h tot
       | Found \<Rightarrow> io_throw UnexpectedMessage | NotFound \<Rightarrow> io_throw DataNotFound)" for response
    by (auto intro: receive_collection_related [OF assms] io_rel_throw same_user split: res.split)
  assume "m = m'"
  then show "io_rel same_gx same_user same_user (=)
     (case m of
       Some response_buffer \<Rightarrow>
         io_bind (io_lift (map_err PostcardError (from_bytes (get_response fmt) response_buffer)))
           (\<lambda>response.
         io_bind
           (case resp_data response of
              FoundCollection tot \<Rightarrow> receive_collection checks ro dops fmt cbs h tot
            | Found \<Rightarrow> io_throw UnexpectedMessage
            | NotFound \<Rightarrow> io_throw DataNotFound) (\<lambda>data_len.
         io_bind (shut_down_stream ro) (\<lambda>_. io_ret data_len)))
     | None \<Rightarrow> io_throw StreamClosed)
     (case m' of
       Some response_buffer \<Rightarrow>
         io_bind (io_lift (map_err PostcardError (from_bytes (get_response fmt) response_buffer)))
           (\<lambda>response.
         io_bind
           (case resp_data response of
              FoundCollection tot \<Rightarrow> receive_collection checks ro' dops' fmt cbs' h tot
            | Found \<Rightarrow> io_throw UnexpectedMessage
            | NotFound \<Rightarrow> io_throw DataNotFound) (\<lambda>data_len.
         io_bind (shut_down_stream ro') (\<lambda>_. io_ret data_len)))
     | None \<Rightarrow> io_throw StreamClosed)"
    by (cases m)
      (auto intro!: io_rel_bind [OF io_rel_lift] io_rel_bind [OF data] io_rel_bind [OF shut_down_related]
        io_rel_ret io_rel_throw same_user)
qed

lemma run_same:
  assumes "same_callbacks agree cbs cbs'" and "rest s = rest' t"
  shows "run checks (\<lambda>opts. Ok (w, s)) ro wo dops fmt cbs h token opts elapsed u =
    run checks (\<lambda>opts. Ok (w, t)) ro' wo dops' fmt cbs' h token opts elapsed u"
proof -
  have *: "outcome_rel same_user same_user (=)
      (read_response checks ro dops fmt cbs h \<lparr>gx_rx = \<lparr>rx_reader = s, rx_buffer = []\<rparr>, gx_user = v\<rparr>)
      (read_response checks ro' dops' fmt cbs' h \<lparr>gx_rx = \<lparr>rx_reader = t, rx_buffer = []\<rparr>, gx_user = v\<rparr>)" for v
    using read_response_related [OF assms(1), of checks fmt h] assms(2)
    by (simp add: io_rel_def same_gx_def same_def)
  have conn: "cb_connected cbs u = cb_connected cbs' u" using assms(1) by (simp add: same_callbacks_def)
  have key: "(case read_response checks ro dops fmt cbs h \<lparr>gx_rx = \<lparr>rx_reader = s, rx_buffer = []\<rparr>, gx_user = v\<rparr> of
          (Err e, g) \<Rightarrow> (Err e, w', gx_user g) | (Panic p, g) \<Rightarrow> (Panic p, w', gx_user g)
        | (Ok data_len, g) \<Rightarrow> (Ok \<lparr>st_data_len = data_len, st_elapsed = elapsed\<rparr>, w', gx_user g)) =
      (case read_response checks ro' dops' fmt cbs' h \<lparr>gx_rx = \<lparr>rx_reader = t, rx_buffer = []\<rparr>, gx_user = v\<rparr> of
          (Err e, g) \<Rightarrow> (Err e, w', gx_user g) | (Panic p, g) \<Rightarrow> (Panic p, w', gx_user g)
        | (Ok data_len, g) \<Rightarrow> (Ok \<lparr>st_data_len = data_len, st_elapsed = elapsed\<rparr>, w', gx_user g))"
    for v and w' :: "'v option"
    using * [of v] by (cases rule: outcome_rel_cases) (simp_all add: same_user_def)
  show ?thesis by (simp only: run_def conn outcome.case prod.case key)
qed


lemma saving_same: "same_callbacks agree (saving dops) (saving dops')"
  unfolding same_callbacks_def saving_def
proof (intro conjI allI impI)
  fix h x y n and u :: "(hash \<times> bytes \<times> string) list"
  assume "agree x y"
  from to_end_agree [OF this] obtain r x' y' where
    "dec_read_to_end dops x = (r, x')" "dec_read_to_end dops' y = (r, y')" "agree x' y'"
    by (auto elim!: rel_prod.cases)
  then show "rel_prod (rel_sum (=) agree) (=)
      (cb_blob \<lparr>cb_connected = \<lambda>u. (Inr (), u), cb_collection = \<lambda>c u. (Inr (), u),
        cb_blob = \<lambda>h d n u. case dec_read_to_end dops d of (Inl e, d') \<Rightarrow> (Inl (IoError e), u)
          | (Inr data, d') \<Rightarrow> (Inr d', u @ [(h, data, n)])\<rparr> h x n u)
      (cb_blob \<lparr>cb_connected = \<lambda>u. (Inr (), u), cb_collection = \<lambda>c u. (Inr (), u),
        cb_blob = \<lambda>h d n u. case dec_read_to_end dops' d of (Inl e, d') \<Rightarrow> (Inl (IoError e), u)
          | (Inr data, d') \<Rightarrow> (Inr d', u @ [(h, data, n)])\<rparr> h y n u)"
    by (cases r) simp_all
qed simp_all

end

text \<open>The plain decoder over a stream of chunks, however the chunks are cut.\<close>

definition plain_agree :: "plain_decoder \<Rightarrow> plain_decoder \<Rightarrow> bool" where
  "plain_agree x y \<longleftrightarrow>
     concat (pd_stream x) = concat (pd_stream y) \<and> pd_hash x = pd_hash y \<and> pd_data x = pd_data y"

lemma plain_check_agree:
  assumes "plain_agree x y"
  obtains r x' y' where "plain_check x = (r, x')" and "plain_check y = (r, y')" and "plain_agree x' y'"
proof -
  have "fst (plain_check x) = fst (plain_check y) \<and> plain_agree (snd (plain_check x)) (snd (plain_check y))"
    using assms by (auto simp: plain_check_def plain_agree_def Let_def split: option.split)
  then show thesis using that by (metis prod.collapse)
qed

interpretation plain_two: two_decoders chunk_ops concat chunk_ops concat plain_dec_ops plain_dec_ops plain_agree
proof
  fix s t :: chunk_stream and h
  assume "concat s = concat t"
  then show "plain_agree (dec_new plain_dec_ops s h) (dec_new plain_dec_ops t h)"
    by (simp add: plain_agree_def plain_dec_ops_def)
next
  fix x y n
  assume "plain_agree x y"
  then obtain r x' y' where c: "plain_check x = (r, x')" "plain_check y = (r, y')" and a: "plain_agree x' y'"
    by (rule plain_check_agree)
  then show "rel_prod (=) plain_agree (dec_read_size plain_dec_ops x) (dec_read_size plain_dec_ops y)"
    by (cases r) (auto simp: plain_dec_ops_def)
  from c a show "rel_prod (=) plain_agree (dec_read_to_end plain_dec_ops x) (dec_read_to_end plain_dec_ops y)"
    by (cases r) (auto simp: plain_dec_ops_def plain_agree_def)
  from c a show "rel_prod (=) plain_agree (dec_read_exact plain_dec_ops x n) (dec_read_exact plain_dec_ops y n)"
    by (cases r) (auto simp: plain_dec_ops_def plain_agree_def)
  from c a show "concat (dec_into_inner plain_dec_ops x) = concat (dec_into_inner plain_dec_ops y)"
    by (simp add: plain_dec_ops_def plain_agree_def)
qed

section \<open>Independence of the transport\<close>

text \<open>
  C25: two transports that deliver the same bytes make the provider do the same:
  the same result, the same bytes written, the same events, also when the bytes are not a
  request at all.
\<close>

theorem provider_splitting:
  assumes "two_streams ro rest ro' rest'" and "rest s = rest' t"
  shows "handle_stream ro wo fmt bao fs db token cid s w = handle_stream ro' wo fmt bao fs db token cid t w"
  by (rule two_streams.handle_stream_same [OF assms])

theorem provider_splitting_witness:
  "handle_stream chunk_ops mem_eager_ops wire_format plain_bao two_files [] (AuthToken (fill32 7)) 9
     [take 10 (request_bytes wire_format (AuthToken (fill32 7)) (Hash (fill32 1))), [], drop 10 (request_bytes wire_format (AuthToken (fill32 7)) (Hash (fill32 1)))] \<lparr>mem_sent = [], mem_finished = False\<rparr> =
   handle_stream chunk_ops mem_eager_ops wire_format plain_bao two_files [] (AuthToken (fill32 7)) 9
     [request_bytes wire_format (AuthToken (fill32 7)) (Hash (fill32 1))] \<lparr>mem_sent = [], mem_finished = False\<rparr>"
  by (rule provider_splitting [OF plain_two.two_streams_axioms]) simp

text \<open>
  C26: two transports that deliver the same bytes, with decoders that take the
  same from them, make the getter do the same: the same result and the same calls of the
  callbacks, also when the bytes are not a response at all.
\<close>

theorem getter_splitting:
  assumes "two_decoders ro rest ro' rest' dops dops' agree"
    and "same_callbacks agree cbs cbs'" and "rest s = rest' t"
  shows "run checks (\<lambda>opts. Ok (w, s)) ro wo dops fmt cbs h token opts elapsed u =
    run checks (\<lambda>opts. Ok (w, t)) ro' wo dops' fmt cbs' h token opts elapsed u"
  by (rule two_decoders.run_same [OF assms])

theorem getter_splitting_witness:
  "fst (run True (\<lambda>opts. Ok (\<lparr>mem_sent = [], mem_finished = False\<rparr>, [[1, 2], [3]])) chunk_ops mem_eager_ops
      plain_dec_ops wire_format (saving plain_dec_ops) (Hash (fill32 1)) (AuthToken (fill32 7))
      (default_options :: nat options) 0 []) =
   fst (run True (\<lambda>opts. Ok (\<lparr>mem_sent = [], mem_finished = False\<rparr>, [[1], [], [2, 3]])) chunk_ops mem_eager_ops
      plain_dec_ops wire_format (saving plain_dec_ops) (Hash (fill32 1)) (AuthToken (fill32 7))
      (default_options :: nat options) 0 [])"
  by (simp add: getter_splitting [OF plain_two.two_decoders_axioms plain_two.saving_same,
        of "[[1, 2], [3]]" "[[1], [], [2, 3]]"])

end
