(* ===== verification/Refusals.thy ===== *)
theory Refusals
  imports Service
begin

text \<open>
  Exchanges that end in a refusal, seen from both ends: a wrong token, a hash that the
  provider does not serve, a blob that the provider has lost.
\<close>

section \<open>What the getter makes of a refusal\<close>

context exchange
begin

lemma request_sent:
  assumes "sent wc = []"
  shows "\<exists>wc'. send_request wo fmt token h wc = (Ok (), wc') \<and> sent wc' = request_bytes fmt token h \<and> fin wc'"
  using send_request_ok [OF postcard_axioms byte_sink_axioms, of token h wc] assms by simp

lemma run_requested:
  assumes "cb_connected cbs u = (Inr (), u)" and "send_request wo fmt token h wc = (Ok (), wc')"
    and "read_response checks ro dops fmt cbs h
      \<lparr>gx_rx = \<lparr>rx_reader = s, rx_buffer = []\<rparr>, gx_user = u\<rparr> = (Err e, g)"
  shows "run checks (\<lambda>opts. Ok (wc, s)) ro wo dops fmt cbs h token opts elapsed u = (Err e, Some wc', gx_user g)"
  using assms by (simp add: run_def)

lemma read_response_eof:
  assumes "rest s = []"
  shows "\<exists>g. read_response checks ro dops fmt cbs h
      \<lparr>gx_rx = \<lparr>rx_reader = s, rx_buffer = []\<rparr>, gx_user = u\<rparr> = (Err (IoError UnexpectedEof), g)
    \<and> gx_user g = u"
proof -
  have "length (rest s) < 8" using assms by simp
  from read_lp_data_eof [OF this, of "[]"] show ?thesis
    by (cases "read_lp_data ro \<lparr>rx_reader = s, rx_buffer = []\<rparr>") (auto simp: read_response_def on_rx_def io_bind_def)
qed

lemma read_response_not_found:
  assumes "rest s = response_bytes fmt rid NotFound @ rs"
  shows "\<exists>g. read_response checks ro dops fmt cbs h
      \<lparr>gx_rx = \<lparr>rx_reader = s, rx_buffer = []\<rparr>, gx_user = u\<rparr> = (Err DataNotFound, g)
    \<and> gx_user g = u"
proof -
  obtain s' where "read_lp_data ro \<lparr>rx_reader = s, rx_buffer = []\<rparr> =
      (Ok (Some (put_response fmt \<lparr>resp_id = rid, resp_data = NotFound\<rparr>)), \<lparr>rx_reader = s', rx_buffer = []\<rparr>)"
    using response_frame [OF assms] by blast
  then show ?thesis by (simp add: read_response_def on_rx_def response_decodes io_simps)
qed

lemma receive_blob_not_found:
  assumes "rest s = response_bytes fmt rid NotFound @ rs"
  shows "\<exists>s'. receive_blobs checks ro dops fmt cbs tot (b # bs) remaining
      \<lparr>gx_rx = \<lparr>rx_reader = s, rx_buffer = []\<rparr>, gx_user = u\<rparr> =
    (Err (BlobNotFound (blob_hash b)), \<lparr>gx_rx = \<lparr>rx_reader = s', rx_buffer = []\<rparr>, gx_user = u\<rparr>)"
proof -
  obtain s' where "read_lp_data ro \<lparr>rx_reader = s, rx_buffer = []\<rparr> =
      (Ok (Some (put_response fmt \<lparr>resp_id = rid, resp_data = NotFound\<rparr>)), \<lparr>rx_reader = s', rx_buffer = []\<rparr>)"
    using response_frame [OF assms] by blast
  then show ?thesis by (simp add: handle_blob_response_def response_decodes io_simps)
qed

end

section \<open>A wrong token\<close>

text \<open>
  C10: a getter with another token than the provider's sends its whole
  request; the provider ends the stream with a token mismatch and one abort, without
  writing, and the getter's run ends in an end-of-file error with no callback for data made.
\<close>

theorem wrong_token_refused:
  assumes parties: "exchange fmt bao ro rest dops pos wo sent fin"
    and "token' \<noteq> token" and "sent wc = []" and "sent wp = []"
    and "cb_connected cbs u = (Inr (), u)"
  shows "\<exists>wc'. send_request wo fmt token' h wc = (Ok (), wc') \<and> fin wc'
    \<and> (\<forall>s. rest s = sent wc' \<longrightarrow>
        handle_stream ro wo fmt bao fs db token cid s wp =
          (Err TokenMismatch, \<lparr>tx_writer = wp, tx_buffer = []\<rparr>, [EvTransferAborted cid None]))
    \<and> (\<forall>s'. rest s' = sent wp \<longrightarrow>
        run checks (\<lambda>opts. Ok (wc, s')) ro wo dops fmt cbs h token' opts elapsed u =
          (Err (IoError UnexpectedEof), Some wc', u))"
proof -
  have fmt: "postcard fmt" and stream: "byte_stream ro rest"
    using parties by (simp_all add: exchange_def bao_transfer_def)
  obtain wc' where 1: "send_request wo fmt token' h wc = (Ok (), wc')"
      "sent wc' = request_bytes fmt token' h" "fin wc'"
    using exchange.request_sent [OF parties assms(3)] by blast
  have "handle_stream ro wo fmt bao fs db token cid s wp =
      (Err TokenMismatch, \<lparr>tx_writer = wp, tx_buffer = []\<rparr>, [EvTransferAborted cid None])"
    if "rest s = sent wc'" for s
    using rejected_handshake [OF fmt stream that [unfolded 1(2) request_bytes_def]] assms(2)
    by (simp add: handshake_new_def)
  moreover have "run checks (\<lambda>opts. Ok (wc, s')) ro wo dops fmt cbs h token' opts elapsed u =
      (Err (IoError UnexpectedEof), Some wc', u)" if "rest s' = sent wp" for s'
    using exchange.read_response_eof [OF parties that [unfolded assms(4)]]
      exchange.run_requested [OF parties assms(5) 1(1)] by metis
  ultimately show ?thesis using 1 by blast
qed

section \<open>A hash that is not served\<close>

text \<open>
  C12: a request for a hash that is not that of a collection of the
  database is answered; the provider reports the transfer as aborted, and the getter's run
  ends in \<open>DataNotFound\<close> with no callback for data made.
\<close>

theorem unknown_hash_refused:
  assumes parties: "exchange fmt bao ro rest dops pos wo sent fin"
    and "\<nexists>ob data. database_get db h = Some (Collection ob data)"
    and "sent wc = []" and "sent wp = []" and "cb_connected cbs u = (Inr (), u)"
  shows "\<exists>wc'. send_request wo fmt token h wc = (Ok (), wc') \<and> fin wc'
    \<and> (\<forall>s. rest s = sent wc' \<longrightarrow>
        (\<exists>wp' buf. handle_stream ro wo fmt bao fs db token cid s wp =
            (Ok (), \<lparr>tx_writer = wp', tx_buffer = buf\<rparr>, [EvRequestReceived cid 1 h, EvTransferAborted cid (Some 1)])
          \<and> fin wp'
          \<and> (\<forall>s'. rest s' = sent wp' \<longrightarrow>
              run checks (\<lambda>opts. Ok (wc, s')) ro wo dops fmt cbs h token opts elapsed u =
                (Err DataNotFound, Some wc', u))))"
proof -
  have fmt: "postcard fmt" and stream: "byte_stream ro rest" and sink: "byte_sink wo sent fin"
    using parties by (simp_all add: exchange_def bao_transfer_def eager_sink_def)
  obtain wc' where 1: "send_request wo fmt token h wc = (Ok (), wc')"
      "sent wc' = request_bytes fmt token h" "fin wc'"
    using exchange.request_sent [OF parties assms(3)] by blast
  have "\<exists>wp' buf. handle_stream ro wo fmt bao fs db token cid s wp =
          (Ok (), \<lparr>tx_writer = wp', tx_buffer = buf\<rparr>, [EvRequestReceived cid 1 h, EvTransferAborted cid (Some 1)])
        \<and> fin wp'
        \<and> (\<forall>s'. rest s' = sent wp' \<longrightarrow>
            run checks (\<lambda>opts. Ok (wc, s')) ro wo dops fmt cbs h token opts elapsed u =
              (Err DataNotFound, Some wc', u))"
    if "rest s = sent wc'" for s
  proof -
    from only_collections_served [OF fmt stream sink that [unfolded 1(2)] assms(2)] obtain wp' buf where
      2: "handle_stream ro wo fmt bao fs db token cid s wp =
          (Ok (), \<lparr>tx_writer = wp', tx_buffer = buf\<rparr>, [EvRequestReceived cid 1 h, EvTransferAborted cid (Some 1)])"
        "sent wp' = response_bytes fmt 1 NotFound @ []" "fin wp'"
      using assms(4) by (metis append_Nil append_Nil2)
    have "run checks (\<lambda>opts. Ok (wc, s')) ro wo dops fmt cbs h token opts elapsed u = (Err DataNotFound, Some wc', u)"
      if "rest s' = sent wp'" for s'
      using exchange.read_response_not_found [OF parties that [unfolded 2(2)]]
        exchange.run_requested [OF parties assms(5) 1(1)] by metis
    with 2 show ?thesis by blast
  qed
  with 1 show ?thesis by blast
qed

section \<open>A lost blob\<close>

text \<open>What the blobs put on the wire depends on their own entries of the database only.\<close>

lemma blobs_wire_cong:
  assumes "\<And>b. b \<in> set bs \<Longrightarrow> database_get db' (blob_hash b) = database_get db (blob_hash b)"
  shows "blobs_wire fmt bao fs db' rid bs = blobs_wire fmt bao fs db rid bs"
  using assms by (induction bs) (simp_all split: option.split blob_or_collection.split)

text \<open>
  A database that has lost the blob of source \<open>k\<close>, and possibly later ones, since the
  collection was created.
\<close>

definition lost_from :: "bao_ops \<Rightarrow> fs_ops \<Rightarrow> data_source list \<Rightarrow> hash \<Rightarrow> database \<Rightarrow> database \<Rightarrow> nat \<Rightarrow> bool" where
  "lost_from bao fs sources h db db' k \<longleftrightarrow>
     k < length sources
     \<and> database_get db' h = database_get db h
     \<and> list_all (\<lambda>src. let b = Hash (root_hash bao (source_content fs src)) in
          database_get db' b = database_get db b) (take k sources)
     \<and> database_get db' (Hash (root_hash bao (source_content fs (sources ! k)))) = None"

context exchange
begin

lemma out_hash_content:
  assumes "map (source_outboard bao fs) sources = map Ok outs" and "i < length sources"
  shows "blob_hash (out_blob (outs ! i)) = Hash (root_hash bao (source_content fs (sources ! i)))"
proof -
  have len: "length outs = length sources" by (metis assms(1) length_map)
  have "source_outboard bao fs (sources ! i) = Ok (outs ! i)"
    using arg_cong [OF assms(1), of "\<lambda>xs. xs ! i"] assms(2) len by simp
  then show ?thesis
    using source_root(2) source_outboard_of(1) hash.collapse by (metis blob.select_convs(2) out_blob_def)
qed

lemma lost_answered:
  assumes outs: "map (source_outboard bao fs) sources = map Ok outs"
    and db: "db = database_of fmt outs h ob"
    and ob: "bao_outboard bao (put_collection fmt (collection_of outs)) = (ob, hash_as_bytes h)"
    and len: "length (put_collection fmt (collection_of outs)) < 2 ^ 63"
    and dec: "collection_from_bytes fmt (put_collection fmt (collection_of outs)) = Ok (collection_of outs)"
    and share: "deliverable bao fs sources h" and lost: "lost_from bao fs sources h db db' k"
    and request: "rest s = request_bytes fmt token h" and empty: "sent w = []"
  shows "\<exists>w' buf. handle_stream ro wo fmt bao fs db' token cid s w =
      (Ok (), \<lparr>tx_writer = w', tx_buffer = buf\<rparr>, [EvRequestReceived cid 1 h, EvTransferAborted cid (Some 1)])
    \<and> sent w' = response_bytes fmt 1 (FoundCollection (sum_list (map out_size outs)))
        @ bao_encoding bao (put_collection fmt (collection_of outs))
        @ concat (map (\<lambda>(b, d). response_bytes fmt 1 Found @ bao_encoding bao d)
            (map (\<lambda>out. (out_blob out, out_content fs out)) (take k outs)))
        @ response_bytes fmt 1 NotFound @ response_bytes fmt 1 NotFound
    \<and> fin w'"
proof -
  let ?data = "put_collection fmt (collection_of outs)"
  let ?tot = "sum_list (map out_size outs)"
  let ?bds = "map (\<lambda>out. (out_blob out, out_content fs out)) (take k outs)"
  let ?NF = "response_bytes fmt 1 NotFound"
  let ?before = "concat (map (\<lambda>(b, d). response_bytes fmt 1 Found @ bao_encoding bao d) ?bds)"
  have k: "k < length sources" and k': "k < length outs"
    using lost arg_cong [OF outs, of length] by (simp_all add: lost_from_def)
  have get: "database_get db' h = Some (Collection ob ?data)"
    using lost by (simp add: lost_from_def db database_of_get)
  have split: "coll_blobs (collection_of outs) =
      map out_blob (take k outs) @ out_blob (outs ! k) # map out_blob (drop (Suc k) outs)"
    using arg_cong [OF id_take_nth_drop [OF k'], of "map out_blob"] by simp
  have "database_get db' (blob_hash b) = database_get db (blob_hash b)" if "b \<in> set (map out_blob (take k outs))" for b
  proof -
    from that obtain i where i: "i < k" "b = out_blob (outs ! i)"
      using k' by (auto simp: in_set_conv_nth)
    with lost have "database_get db' (Hash (root_hash bao (source_content fs (sources ! i)))) =
        database_get db (Hash (root_hash bao (source_content fs (sources ! i))))"
      by (auto simp: lost_from_def list_all_length Let_def)
    with i k show ?thesis using out_hash_content [OF outs, of i] by simp
  qed
  then have "blobs_wire fmt bao fs db' 1 (map out_blob (take k outs)) = blobs_wire fmt bao fs db 1 (map out_blob (take k outs))"
    by (rule blobs_wire_cong)
  then have before: "blobs_wire fmt bao fs db' 1 (map out_blob (take k outs)) = Some (?before, Sent)"
    using created_blobs_wire [OF outs share set_take_subset [of k outs], of ob 1] unfolding db by (rule trans)
  have none: "\<nexists>d. database_get db' (blob_hash (out_blob (outs ! k))) = Some (Blob d)"
    using lost out_hash_content [OF outs k] by (simp add: lost_from_def)
  have dec': "from_bytes (get_collection fmt) ?data = Ok (collection_of outs)"
    using dec by (simp add: collection_from_bytes_def)
  have "unat (of_nat (length ?data) :: u64) < 2 ^ 63" using len by (simp add: unat_of_nat take_bit_eq_mod)
  then have size: "bao_encoded_size bao (of_nat (length ?data)) < 2 ^ 64" by (rule encoded_size_fits)
  from missing_blob_answered [OF postcard_axioms byte_stream_axioms eager_sink_axioms request get size
      slice_encoding [OF ob] dec' split before none, of cid w] empty
  show ?thesis by auto
qed

lemma lost_response:
  assumes outs: "map (source_outboard bao fs) sources = map Ok outs"
    and ob: "bao_outboard bao (put_collection fmt (collection_of outs)) = (ob, hash_as_bytes h)"
    and len: "length (put_collection fmt (collection_of outs)) < 2 ^ 63"
    and dec: "collection_from_bytes fmt (put_collection fmt (collection_of outs)) = Ok (collection_of outs)"
    and share: "deliverable bao fs sources h" and k: "k < length sources"
    and cbs: "consumes pos cbs keep" "\<And>c. cb_collection cbs c u = (Inr (), u)"
    and wire: "rest s = response_bytes fmt 1 (FoundCollection (sum_list (map out_size outs)))
        @ bao_encoding bao (put_collection fmt (collection_of outs))
        @ concat (map (\<lambda>(b, d). response_bytes fmt 1 Found @ bao_encoding bao d)
            (map (\<lambda>out. (out_blob out, out_content fs out)) (take k outs)))
        @ response_bytes fmt 1 NotFound @ response_bytes fmt 1 NotFound"
  shows "\<exists>g. read_response checks ro dops fmt cbs h \<lparr>gx_rx = \<lparr>rx_reader = s, rx_buffer = []\<rparr>, gx_user = u\<rparr> =
      (Err (BlobNotFound (Hash (root_hash bao (source_content fs (sources ! k))))), g)
    \<and> gx_user g = foldl keep u (map (delivered bao fs) (take k sources))"
proof -
  let ?data = "put_collection fmt (collection_of outs)"
  let ?tot = "sum_list (map out_size outs)"
  let ?bds = "map (\<lambda>out. (out_blob out, out_content fs out)) (take k outs)"
  let ?NF = "response_bytes fmt 1 NotFound"
  have k': "k < length outs" using k arg_cong [OF outs, of length] by simp
  have split: "coll_blobs (collection_of outs) =
      map out_blob (take k outs) @ out_blob (outs ! k) # map out_blob (drop (Suc k) outs)"
    using arg_cong [OF id_take_nth_drop [OF k'], of "map out_blob"] by simp
  have root: "Hash (root_hash bao ?data) = h"
    using ob hash.collapse by (metis root_hash_def snd_conv)
  have delivered: "map (\<lambda>(b, d). (blob_hash b, d, blob_name b)) ?bds = map (delivered bao fs) (take k sources)"
    using arg_cong [OF created_outboards(3) [OF outs], of "take k"] by (simp add: out_blob_def comp_def take_map)
  have hashes: "blob_hash b = Hash (root_hash bao d)" if "(b, d) \<in> set ?bds" for b d
    using that created_hash [OF outs] set_take_subset [of k outs] by auto
  have "sum_list (map (length \<circ> out_content fs) (take k outs)) \<le> sum_list (map (length \<circ> out_content fs) outs)"
    by (metis append_take_drop_id le_add1 map_append sum_list.append)
  then have sum: "(\<Sum>(b, d)\<leftarrow>?bds. length d) \<le> unat ?tot"
    by (simp add: created_total_small(1) [OF outs share] comp_def)
  have blobs: "coll_blobs (collection_of outs) = map fst ?bds @ out_blob (outs ! k) # map out_blob (drop (Suc k) outs)"
    using split by (simp add: comp_def)
  have len': "length ?data < 2 ^ 64" using len by simp
  note response = collection_response_prefix [OF cbs wire len' dec blobs hashes
      created_total_small(2) [OF outs share] sum, of checks, unfolded root delivered]
  obtain s3 remaining where 2: "rest s3 = ?NF @ ?NF"
    "read_response checks ro dops fmt cbs h \<lparr>gx_rx = \<lparr>rx_reader = s, rx_buffer = []\<rparr>, gx_user = u\<rparr> =
      io_bind (receive_blobs checks ro dops fmt cbs ?tot (out_blob (outs ! k) # map out_blob (drop (Suc k) outs)) remaining)
        (\<lambda>_. io_bind (shut_down_stream ro) (\<lambda>_. io_ret ?tot))
        \<lparr>gx_rx = \<lparr>rx_reader = s3, rx_buffer = []\<rparr>, gx_user = foldl keep u (map (delivered bao fs) (take k sources))\<rparr>"
    by (rule exE [OF response], assumption, elim exE conjE, rule that)
  obtain s4 where "receive_blobs checks ro dops fmt cbs ?tot
      (out_blob (outs ! k) # map out_blob (drop (Suc k) outs)) remaining
      \<lparr>gx_rx = \<lparr>rx_reader = s3, rx_buffer = []\<rparr>, gx_user = foldl keep u (map (delivered bao fs) (take k sources))\<rparr> =
    (Err (BlobNotFound (blob_hash (out_blob (outs ! k)))),
     \<lparr>gx_rx = \<lparr>rx_reader = s4, rx_buffer = []\<rparr>, gx_user = foldl keep u (map (delivered bao fs) (take k sources))\<rparr>)"
    by (rule exE [OF receive_blob_not_found [OF 2(1)]], rule that)
  note lost_blob = io_bind_Err [where m = "receive_blobs checks ro dops fmt cbs ?tot
      (out_blob (outs ! k) # map out_blob (drop (Suc k) outs)) remaining", OF this]
  show ?thesis
    unfolding 2(2) lost_blob out_hash_content [OF outs k] by (intro exI conjI, rule refl) simp
qed

lemma lost_delivery:
  assumes "create_collection checks fmt bao fs sources = Ok (db, h)" and "deliverable bao fs sources h"
    and lost: "lost_from bao fs sources h db db' k"
    and "rest s = request_bytes fmt token h" and "sent w = []"
    and cbs: "consumes pos cbs keep" "\<And>c. cb_collection cbs c u = (Inr (), u)"
  shows "\<exists>w' buf. handle_stream ro wo fmt bao fs db' token cid s w =
      (Ok (), \<lparr>tx_writer = w', tx_buffer = buf\<rparr>, [EvRequestReceived cid 1 h, EvTransferAborted cid (Some 1)])
    \<and> fin w'
    \<and> (\<forall>s'. rest s' = sent w' \<longrightarrow>
        (\<exists>g. read_response checks' ro dops fmt cbs h
            \<lparr>gx_rx = \<lparr>rx_reader = s', rx_buffer = []\<rparr>, gx_user = u\<rparr> =
          (Err (BlobNotFound (Hash (root_hash bao (source_content fs (sources ! k))))), g)
         \<and> gx_user g = foldl keep u (map (delivered bao fs) (take k sources))))"
proof -
  from assms(1,2) obtain outs ob where c: "map (source_outboard bao fs) sources = map Ok outs"
      "db = database_of fmt outs h ob"
      "bao_outboard bao (put_collection fmt (collection_of outs)) = (ob, hash_as_bytes h)"
      "length (put_collection fmt (collection_of outs)) < 2 ^ 63"
      "collection_from_bytes fmt (put_collection fmt (collection_of outs)) = Ok (collection_of outs)"
    by (rule created_encoding)
  have k: "k < length sources" using lost by (simp add: lost_from_def)
  note response = lost_response [OF c(1,3-5) assms(2) k cbs, where checks = checks']
  from lost_answered [OF c assms(2) lost assms(4,5), of cid] show ?thesis
    by (elim exE conjE) (intro exI conjI, assumption, assumption, intro allI impI, rule response, erule trans, assumption)
qed

end

text \<open>
  C11: when the provider's database has lost the blob of a source
  since the collection was created, the sources before it still reach the caller of the
  getter, complete and in order; then the getter's run ends in an error that names the lost
  blob's hash, and the provider reports the transfer as aborted. The later sources are not
  handed over, whether or not their blobs are still there.
\<close>

theorem lost_blob_ends_exchange:
  assumes parties: "exchange fmt bao ro rest dops pos wo sent fin"
    and "create_collection checks fmt bao fs sources = Ok (db, h)"
    and "deliverable bao fs sources h" and "lost_from bao fs sources h db db' k"
    and "sent wc = []" and "sent wp = []"
  shows "\<exists>wc'. send_request wo fmt token h wc = (Ok (), wc') \<and> fin wc'
    \<and> (\<forall>s. rest s = sent wc' \<longrightarrow>
        (\<exists>wp' buf. handle_stream ro wo fmt bao fs db' token cid s wp =
            (Ok (), \<lparr>tx_writer = wp', tx_buffer = buf\<rparr>, [EvRequestReceived cid 1 h, EvTransferAborted cid (Some 1)])
          \<and> fin wp'
          \<and> (\<forall>s'. rest s' = sent wp' \<longrightarrow>
              run checks' (\<lambda>opts. Ok (wc, s')) ro wo dops fmt (saving dops) h token opts elapsed u =
                (Err (BlobNotFound (Hash (root_hash bao (source_content fs (sources ! k))))),
                 Some wc', u @ map (delivered bao fs) (take k sources)))))"
proof -
  have keep: "consumes pos (saving dops) (\<lambda>u x. u @ [x])"
    by (rule exchange.saving_consumes [OF parties])
  have cbs: "cb_collection (saving dops) c u = (Inr (), u)" "cb_connected (saving dops) u = (Inr (), u)" for c
    by (simp_all add: saving_def)
  have all: "foldl (\<lambda>u x. u @ [x]) u xs = u @ xs" for u xs :: "(hash \<times> bytes \<times> string) list"
    by (induction xs arbitrary: u) simp_all
  obtain wc' where 1: "send_request wo fmt token h wc = (Ok (), wc')"
      "sent wc' = request_bytes fmt token h" "fin wc'"
    using exchange.request_sent [OF parties assms(5)] by blast
  have "\<exists>wp' buf. handle_stream ro wo fmt bao fs db' token cid s wp =
          (Ok (), \<lparr>tx_writer = wp', tx_buffer = buf\<rparr>, [EvRequestReceived cid 1 h, EvTransferAborted cid (Some 1)])
        \<and> fin wp'
        \<and> (\<forall>s'. rest s' = sent wp' \<longrightarrow>
            run checks' (\<lambda>opts. Ok (wc, s')) ro wo dops fmt (saving dops) h token opts elapsed u =
              (Err (BlobNotFound (Hash (root_hash bao (source_content fs (sources ! k))))),
               Some wc', u @ map (delivered bao fs) (take k sources)))"
    if s: "rest s = sent wc'" for s
  proof -
    obtain wp' buf where
      2: "handle_stream ro wo fmt bao fs db' token cid s wp =
          (Ok (), \<lparr>tx_writer = wp', tx_buffer = buf\<rparr>, [EvRequestReceived cid 1 h, EvTransferAborted cid (Some 1)])"
      "fin wp'"
      and 3: "\<And>s'. rest s' = sent wp' \<Longrightarrow>
        \<exists>g. read_response checks' ro dops fmt (saving dops) h
            \<lparr>gx_rx = \<lparr>rx_reader = s', rx_buffer = []\<rparr>, gx_user = u\<rparr> =
          (Err (BlobNotFound (Hash (root_hash bao (source_content fs (sources ! k))))), g)
         \<and> gx_user g = u @ map (delivered bao fs) (take k sources)"
      using exchange.lost_delivery [OF parties assms(2-4) s [unfolded 1(2)] assms(6) keep cbs(1), where checks' = checks' and cid = cid, unfolded all]
      by blast
    have "run checks' (\<lambda>opts. Ok (wc, s')) ro wo dops fmt (saving dops) h token opts elapsed u =
        (Err (BlobNotFound (Hash (root_hash bao (source_content fs (sources ! k))))),
         Some wc', u @ map (delivered bao fs) (take k sources))" if "rest s' = sent wp'" for s'
      using 3 [OF that] exchange.run_requested [OF parties cbs(2) 1(1)] by metis
    with 2 show ?thesis by blast
  qed
  with 1 show ?thesis by blast
qed

section \<open>The properties applied\<close>

theorem wrong_token_refused_witness:
  "\<exists>wc'. send_request mem_eager_ops wire_format (AuthToken (fill32 8)) two_h \<lparr>mem_sent = [], mem_finished = False\<rparr> = (Ok (), wc')
    \<and> handle_stream chunk_ops mem_eager_ops wire_format plain_bao two_files two_db (AuthToken (fill32 7)) 9
        [mem_sent wc'] \<lparr>mem_sent = [], mem_finished = False\<rparr> =
      (Err TokenMismatch, \<lparr>tx_writer = \<lparr>mem_sent = [], mem_finished = False\<rparr>, tx_buffer = []\<rparr>, [EvTransferAborted 9 None])
    \<and> run True (\<lambda>opts. Ok (\<lparr>mem_sent = [], mem_finished = False\<rparr>, [])) chunk_ops mem_eager_ops plain_dec_ops wire_format
        (saving plain_dec_ops) two_h (AuthToken (fill32 8)) (default_options :: nat options) 0 [] =
      (Err (IoError UnexpectedEof), Some wc', [])"
proof -
  have "AuthToken (fill32 8) \<noteq> AuthToken (fill32 7)"
    using fill32_inject [of 8 7] by simp
  from wrong_token_refused [OF plain_exchange.exchange_axioms this, where wc = "\<lparr>mem_sent = [], mem_finished = False\<rparr>"
      and wp = "\<lparr>mem_sent = [], mem_finished = False\<rparr>" and cbs = "saving plain_dec_ops" and u = "[]" and h = two_h
      and fs = two_files and db = two_db and cid = 9 and checks = True
      and opts = "default_options :: nat options" and elapsed = 0]
  show ?thesis by (fastforce simp: saving_def)
qed

text \<open>A database without the entry of one hash.\<close>

definition forget :: "hash \<Rightarrow> database \<Rightarrow> database" where
  "forget x db = filter (\<lambda>(k, _). k \<noteq> x) db"

lemma forget_get: "database_get (forget x db) h = (if h = x then None else database_get db h)"
  by (induction db) (auto simp: forget_def database_get_def)

theorem unknown_hash_refused_witness:
  "\<exists>wc' wp' buf. send_request mem_eager_ops wire_format sample_token (Hash (digest [1, 2, 3]))
        \<lparr>mem_sent = [], mem_finished = False\<rparr> = (Ok (), wc')
    \<and> handle_stream chunk_ops mem_eager_ops wire_format plain_bao two_files two_db sample_token 9
        [mem_sent wc'] \<lparr>mem_sent = [], mem_finished = False\<rparr> =
      (Ok (), \<lparr>tx_writer = wp', tx_buffer = buf\<rparr>,
       [EvRequestReceived 9 1 (Hash (digest [1, 2, 3])), EvTransferAborted 9 (Some 1)])
    \<and> run True (\<lambda>opts. Ok (\<lparr>mem_sent = [], mem_finished = False\<rparr>, [mem_sent wp'])) chunk_ops mem_eager_ops
        plain_dec_ops wire_format (saving plain_dec_ops) (Hash (digest [1, 2, 3])) sample_token
        (default_options :: nat options) 0 [] = (Err DataNotFound, Some wc', [])"
proof -
  let ?w = "\<lparr>mem_sent = [], mem_finished = False\<rparr>" and ?h = "Hash (digest [1, 2, 3])"
  have "\<nexists>ob data. database_get two_db ?h = Some (Collection ob data)" by simp
  from unknown_hash_refused [OF plain_exchange.exchange_axioms this, where wc = ?w and wp = ?w
      and cbs = "saving plain_dec_ops" and u = "[]" and token = sample_token and fs = two_files and cid = 9
      and checks = True and opts = "default_options :: nat options" and elapsed = 0]
  obtain wc' where 1: "send_request mem_eager_ops wire_format sample_token ?h ?w = (Ok (), wc')"
    and 2: "\<forall>s. concat s = mem_sent wc' \<longrightarrow>
        (\<exists>wp' buf. handle_stream chunk_ops mem_eager_ops wire_format plain_bao two_files two_db sample_token 9 s ?w =
            (Ok (), \<lparr>tx_writer = wp', tx_buffer = buf\<rparr>, [EvRequestReceived 9 1 ?h, EvTransferAborted 9 (Some 1)])
          \<and> mem_finished wp'
          \<and> (\<forall>s'. concat s' = mem_sent wp' \<longrightarrow>
              run True (\<lambda>opts. Ok (?w, s')) chunk_ops mem_eager_ops plain_dec_ops wire_format (saving plain_dec_ops) ?h
                sample_token (default_options :: nat options) 0 [] = (Err DataNotFound, Some wc', [])))"
    by (auto simp: saving_def)
  from 2 [rule_format, of "[mem_sent wc']"] obtain wp' buf where
    3: "handle_stream chunk_ops mem_eager_ops wire_format plain_bao two_files two_db sample_token 9 [mem_sent wc'] ?w =
            (Ok (), \<lparr>tx_writer = wp', tx_buffer = buf\<rparr>, [EvRequestReceived 9 1 ?h, EvTransferAborted 9 (Some 1)])"
    and 4: "\<forall>s'. concat s' = mem_sent wp' \<longrightarrow>
              run True (\<lambda>opts. Ok (?w, s')) chunk_ops mem_eager_ops plain_dec_ops wire_format (saving plain_dec_ops) ?h
                sample_token (default_options :: nat options) 0 [] = (Err DataNotFound, Some wc', [])"
    by auto
  from 1 3 4 [rule_format, of "[mem_sent wp']"] show ?thesis by auto
qed

theorem lost_blob_ends_exchange_witness:
  "\<exists>db wc' wp' buf. create_collection True wire_format plain_bao two_files two_sources = Ok (db, two_h)
    \<and> send_request mem_eager_ops wire_format sample_token two_h \<lparr>mem_sent = [], mem_finished = False\<rparr> = (Ok (), wc')
    \<and> handle_stream chunk_ops mem_eager_ops wire_format plain_bao two_files (forget (Hash (digest [4, 5])) db) sample_token 9
        [mem_sent wc'] \<lparr>mem_sent = [], mem_finished = False\<rparr> =
      (Ok (), \<lparr>tx_writer = wp', tx_buffer = buf\<rparr>, [EvRequestReceived 9 1 two_h, EvTransferAborted 9 (Some 1)])
    \<and> run True (\<lambda>opts. Ok (\<lparr>mem_sent = [], mem_finished = False\<rparr>, [mem_sent wp'])) chunk_ops mem_eager_ops
        plain_dec_ops wire_format (saving plain_dec_ops) two_h sample_token (default_options :: nat options) 0 [] =
      (Err (BlobNotFound (Hash (digest [4, 5]))), Some wc', [(Hash (digest [1, 2, 3]), [1, 2, 3], ''a.txt'')])"
proof -
  let ?w = "\<lparr>mem_sent = [], mem_finished = False\<rparr>" and ?x = "Hash (digest [4, 5])"
  obtain db where db: "create_collection True wire_format plain_bao two_files two_sources = Ok (db, two_h)"
    using two_created unfolding two_h_def two_data_def by blast
  have able: "deliverable plain_bao two_files two_sources two_h"
    using two_deliverable unfolding two_h_def two_data_def .
  have lost: "lost_from plain_bao two_files two_sources two_h db (forget ?x db) 1"
    by (simp add: lost_from_def two_sources_def forget_get source_content_def content_of_def two_files_def
        root_hash_def plain_bao_def Let_def two_h_other [symmetric] digests_differ)
  have first: "map (delivered plain_bao two_files) (take 1 two_sources) = [(Hash (digest [1, 2, 3]), [1, 2, 3], ''a.txt'')]"
    and x: "Hash (root_hash plain_bao (source_content two_files (two_sources ! 1))) = ?x"
    by (simp_all add: delivered_def two_sources_def two_names source_content_def content_of_def two_files_def
        root_hash_def plain_bao_def Let_def)
  from lost_blob_ends_exchange [OF plain_exchange.exchange_axioms db able lost, where wc = ?w and wp = ?w
      and u = "[]" and token = sample_token and cid = 9 and checks' = True
      and opts = "default_options :: nat options" and elapsed = 0, unfolded first x]
  obtain wc' where 1: "send_request mem_eager_ops wire_format sample_token two_h ?w = (Ok (), wc')"
    and 2: "\<And>s. concat s = mem_sent wc' \<Longrightarrow>
        \<exists>wp' buf. handle_stream chunk_ops mem_eager_ops wire_format plain_bao two_files (forget ?x db) sample_token 9 s ?w =
            (Ok (), \<lparr>tx_writer = wp', tx_buffer = buf\<rparr>, [EvRequestReceived 9 1 two_h, EvTransferAborted 9 (Some 1)])
          \<and> mem_finished wp'
          \<and> (\<forall>s'. concat s' = mem_sent wp' \<longrightarrow>
              run True (\<lambda>opts. Ok (?w, s')) chunk_ops mem_eager_ops plain_dec_ops wire_format (saving plain_dec_ops) two_h
                sample_token (default_options :: nat options) 0 [] =
                (Err (BlobNotFound ?x), Some wc', [] @ [(Hash (digest [1, 2, 3]), [1, 2, 3], ''a.txt'')]))"
    by auto
  from 2 [of "[mem_sent wc']"] obtain wp' buf where
    3: "handle_stream chunk_ops mem_eager_ops wire_format plain_bao two_files (forget ?x db) sample_token 9 [mem_sent wc'] ?w =
            (Ok (), \<lparr>tx_writer = wp', tx_buffer = buf\<rparr>, [EvRequestReceived 9 1 two_h, EvTransferAborted 9 (Some 1)])"
    and 4: "\<And>s'. concat s' = mem_sent wp' \<Longrightarrow>
              run True (\<lambda>opts. Ok (?w, s')) chunk_ops mem_eager_ops plain_dec_ops wire_format (saving plain_dec_ops) two_h
                sample_token (default_options :: nat options) 0 [] =
                (Err (BlobNotFound ?x), Some wc', [] @ [(Hash (digest [1, 2, 3]), [1, 2, 3], ''a.txt'')])"
    by auto
  from db 1 3 4 [of "[mem_sent wp']"] show ?thesis by auto
qed

end
