(* ===== verification/Content.thy ===== *)
theory Content
  imports Samples
begin

text \<open>
  What the entries of a database are: content-addressed. The well-formedness of a database
  with respect to the file system, that the operations on databases keep it, and what it
  means for the data that is served.
\<close>

section \<open>Well-formed databases\<close>

text \<open>
  An entry's key is the root hash of its content; for a blob, that is the content of its
  file, whose outboard and size are recorded.
\<close>

fun entry_ok :: "bao_ops \<Rightarrow> fs_ops \<Rightarrow> hash \<times> blob_or_collection \<Rightarrow> bool" where
  "entry_ok bao fs (k, Blob d) =
     (case fs_open fs (data_path d) of
        Inl e \<Rightarrow> False
      | Inr f \<Rightarrow>
          (case file_read f of
             Inl e \<Rightarrow> False
           | Inr content \<Rightarrow>
               bao_outboard bao content = (data_outboard d, hash_as_bytes k)
               \<and> data_size d = of_nat (length content)))"
| "entry_ok bao fs (k, Collection ob data) = (bao_outboard bao data = (ob, hash_as_bytes k))"

definition database_typed :: "bao_ops \<Rightarrow> fs_ops \<Rightarrow> database \<Rightarrow> bool" where
  "database_typed bao fs db \<longleftrightarrow> database_ok db \<and> list_all (entry_ok bao fs) db"

lemma database_typed_empty [simp]: "database_typed bao fs []"
  by (simp add: database_typed_def database_ok_def)

lemma set_update: "set (AList.update k v db) \<subseteq> insert (k, v) (set db)"
  by (induction db) auto

lemma database_typed_insert:
  "database_typed bao fs db \<Longrightarrow> entry_ok bao fs (k, v) \<Longrightarrow> database_typed bao fs (database_insert db k v)"
  using set_update [of k v db] database_insert_ok [of db k v]
  by (auto simp: database_typed_def database_insert_def list_all_iff)

lemma database_typed_insert_all:
  "database_typed bao fs db \<Longrightarrow> list_all (entry_ok bao fs) kvs \<Longrightarrow>
   database_typed bao fs (database.insert_all db kvs)"
  by (induction kvs arbitrary: db) (auto simp: database_typed_insert)

lemma database_typed_get:
  "database_typed bao fs db \<Longrightarrow> database_get db k = Some e \<Longrightarrow> entry_ok bao fs (k, e)"
  by (auto simp: database_typed_def list_all_iff database_get_def dest: map_of_SomeD)

context bao_encoder
begin

lemma source_entry_ok:
  assumes "source_outboard bao fs src = Ok out"
  shows "entry_ok bao fs (out_entry out)"
proof -
  obtain f where "fs_open fs (fst out) = Inr f" "file_read f = Inr (out_content fs out)"
    using source_outboard_Ok [OF assms] by (auto simp: out_content_def)
  with source_root [OF assms] show ?thesis by (simp add: out_entry_def)
qed

lemma created_typed:
  assumes "create_collection checks fmt bao fs sources = Ok (db, h)"
  shows "database_typed bao fs db"
proof -
  from assms obtain outs ob where outs: "map (source_outboard bao fs) sources = map Ok outs"
    and ob: "bao_outboard bao (put_collection fmt (collection_of outs)) = (ob, hash_as_bytes h)"
    and db: "db = database_of fmt outs h ob"
    by (rule create_collection_Ok)
  have "list_all (entry_ok bao fs) (map out_entry outs)"
    using outboard_source [OF outs] source_entry_ok by (fastforce simp: list_all_iff)
  then show ?thesis
    unfolding db database_of_def by (intro database_typed_insert database_typed_insert_all) (simp_all add: ob)
qed

lemma typed_entry_served:
  assumes "database_typed bao fs db" and "database_get db k = Some e"
  shows "case e of
      Blob d \<Rightarrow> \<exists>content. root_hash bao content = hash_as_bytes k \<and> data_size d = of_nat (length content)
        \<and> blob_slice bao fs d = Some (bao_encoding bao content)
    | Collection ob data \<Rightarrow> root_hash bao data = hash_as_bytes k
        \<and> bao_slice bao (Inr data) ob 0 (of_nat (length data)) = (bao_encoding bao data, None)"
proof (cases e)
  case (Blob d)
  with database_typed_get [OF assms] obtain f content where
    1: "fs_open fs (data_path d) = Inr f" "file_read f = Inr content"
      "bao_outboard bao content = (data_outboard d, hash_as_bytes k)" "data_size d = of_nat (length content)"
    by (auto split: sum.splits)
  then have "blob_slice bao fs d = Some (bao_encoding bao content)"
    using slice_encoding [OF 1(3)] by (simp add: blob_slice_def)
  moreover have "root_hash bao content = hash_as_bytes k" by (simp add: root_hash_def 1(3))
  ultimately show ?thesis using 1(4) Blob by auto
next
  case (Collection ob data)
  with database_typed_get [OF assms] slice_encoding [of data ob] show ?thesis
    by (simp add: root_hash_def)
qed

end

section \<open>Created databases are well-formed\<close>

text \<open>
  C14: a created database holds every hash at most once, each with
  an entry whose content has that root hash: a blob the content of its file, with its size
  recorded, a collection its own data. So whatever hash of it is served, as a blob or as a
  collection, the bytes read from the file or the database encode content that verifies
  against that hash.
\<close>

theorem created_database_typed:
  assumes "bao_encoder bao" and "create_collection checks fmt bao fs sources = Ok (db, h)"
  shows "database_typed bao fs db
    \<and> (\<forall>k e. (k, e) \<in> set db \<longrightarrow> (case e of
          Blob d \<Rightarrow> \<exists>content. root_hash bao content = hash_as_bytes k \<and> data_size d = of_nat (length content)
            \<and> blob_slice bao fs d = Some (bao_encoding bao content)
        | Collection ob data \<Rightarrow> root_hash bao data = hash_as_bytes k
            \<and> bao_slice bao (Inr data) ob 0 (of_nat (length data)) = (bao_encoding bao data, None)))"
proof -
  have typed: "database_typed bao fs db" by (rule bao_encoder.created_typed [OF assms])
  then have "database_get db k = Some e" if "(k, e) \<in> set db" for k e
    using that by (simp add: database_typed_def database_ok_def database_get_def)
  with typed bao_encoder.typed_entry_served [OF assms(1) typed] show ?thesis by blast
qed

theorem created_database_typed_witness:
  "\<exists>db. create_collection True wire_format plain_bao two_files two_sources =
      Ok (db, Hash (digest (put_collection wire_format two_collection)))
    \<and> database_typed plain_bao two_files db"
  using two_created created_database_typed [OF plain_bao.bao_encoder_axioms] by blast

end
