(* ===== verification/Running.thy ===== *)
theory Running
  imports Service
begin

text \<open>
  \<^verbatim>\<open>src/provider.rs\<close>: the running provider as a whole. Its accept loop, the tasks of its
  connections and the tasks of their streams are one step relation; the events of all of
  them go to one channel. What holds for one connection is carried over to the whole.
\<close>

section \<open>The state of a running provider\<close>

text \<open>
  What awaiting an incoming connection gives: an error, or its id and the streams that
  \<^verbatim>\<open>accept_bi\<close> gives on it. \<open>sv_connecting\<close> are the tasks that still wait for that,
  \<open>sv_conns\<close> those that have a connection, \<open>sv_closed\<close> is what the endpoint was closed
  with. Connection ids come from quinn; nothing is assumed of them here.
\<close>

type_synonym ('s, 'w) arrival = "io_error + u64 \<times> ('s \<times> 'w) list"

record ('s, 'w) server_state =
  sv_cancelled :: bool
  sv_connecting :: "('s, 'w) arrival list"
  sv_conns :: "(u64 \<times> ('s, 'w) conn_state) list"
  sv_events :: "event list"
  sv_closed :: "(u64 \<times> string) option"

definition server_start :: "('s, 'w) server_state" where
  "server_start =
     \<lparr>sv_cancelled = False, sv_connecting = [], sv_conns = [], sv_events = [], sv_closed = None\<rparr>"

definition remove_nth :: "nat \<Rightarrow> 'a list \<Rightarrow> 'a list" where
  "remove_nth i xs = take i xs @ drop (Suc i) xs"

section \<open>Steps\<close>

text \<open>
  \<open>shutdown\<close> is \<^verbatim>\<open>Provider::shutdown\<close>; \<open>arrive\<close> a turn of the accept loop that finds the
  provider not cancelled and a connection ready; \<open>close\<close> the end of \<^verbatim>\<open>Builder::run\<close>. Once
  the endpoint is closed, connections that still wait fail and no stream is accepted.
\<close>

inductive server_step ::
    "(u64 \<Rightarrow> 's \<times> 'w \<Rightarrow> event list) \<Rightarrow> ('s, 'w) server_state \<Rightarrow> ('s, 'w) server_state \<Rightarrow> bool"
  for events where
  shutdown: "\<not> sv_cancelled st \<Longrightarrow> server_step events st (st\<lparr>sv_cancelled := True\<rparr>)"
| arrive: "\<not> sv_cancelled st \<Longrightarrow> sv_closed st = None \<Longrightarrow>
    server_step events st (st\<lparr>sv_connecting := sv_connecting st @ [a]\<rparr>)"
| fails: "i < length (sv_connecting st) \<Longrightarrow>
    handle_connection (sv_connecting st ! i) = None \<or> sv_closed st \<noteq> None \<Longrightarrow>
    server_step events st (st\<lparr>sv_connecting := remove_nth i (sv_connecting st)\<rparr>)"
| connected: "i < length (sv_connecting st) \<Longrightarrow> sv_closed st = None \<Longrightarrow>
    handle_connection (sv_connecting st ! i) = Some conn \<Longrightarrow>
    server_step events st
      (st\<lparr>sv_connecting := remove_nth i (sv_connecting st), sv_conns := sv_conns st @ [conn]\<rparr>)"
| works: "i < length (sv_conns st) \<Longrightarrow> sv_conns st ! i = (cid, cs) \<Longrightarrow>
    connection_step (events cid) cid cs cs' \<Longrightarrow> sv_closed st = None \<or> fst cs' = fst cs \<Longrightarrow>
    snd (snd cs') = snd (snd cs) @ [e] \<Longrightarrow>
    server_step events st
      (st\<lparr>sv_conns := (sv_conns st)[i := (cid, cs')], sv_events := sv_events st @ [e]\<rparr>)"
| close: "sv_cancelled st \<Longrightarrow> sv_closed st = None \<Longrightarrow>
    server_step events st
      (st\<lparr>sv_closed := Some (closed_to_varint ProviderTerminating, closed_reason ProviderTerminating)\<rparr>)"

inductive_cases server_stepE: "server_step events st st'"

text \<open>Every step of a connection sends exactly one event, so \<open>works\<close> loses no step.\<close>

lemma connection_step_sends:
  "connection_step events cid cs cs' \<Longrightarrow> \<exists>e. snd (snd cs') = snd (snd cs) @ [e]"
  by (induction rule: connection_step.induct) auto

section \<open>The handle of a running provider\<close>

text \<open>
  Awaiting the \<^verbatim>\<open>Provider\<close> is awaiting its task, which ends when the endpoint has been
  closed. A subscriber receives the events sent from then on; what it gets when it lags behind
  the channel's capacity is in \<^verbatim>\<open>Subscribing\<close>.
\<close>

definition provider_poll :: "('s, 'w) server_state \<Rightarrow> unit option" where
  "provider_poll st = (if sv_closed st = None then None else Some ())"

definition provider_subscribe :: "('s, 'w) server_state \<Rightarrow> nat" where
  "provider_subscribe st = length (sv_events st)"

definition received :: "nat \<Rightarrow> ('s, 'w) server_state \<Rightarrow> event list" where
  "received since st = drop since (sv_events st)"

lemma subscriber_receives:
  assumes "(server_step events)\<^sup>*\<^sup>* st st'"
  shows "sv_events st' = sv_events st @ received (provider_subscribe st) st'"
proof -
  from assms have "\<exists>es. sv_events st' = sv_events st @ es"
  proof (induction rule: rtranclp_induct)
    case (step y z)
    from step(2) have "\<exists>es. sv_events z = sv_events y @ es" by (cases rule: server_step.cases) auto
    with step.IH show ?case by auto
  qed simp
  then show ?thesis by (auto simp: received_def provider_subscribe_def)
qed

section \<open>Connections within the provider\<close>

text \<open>
  The invariant: each connection has got where it is by its own steps, and what the
  provider sent is a merge of what the connections sent.
\<close>

definition server_ok :: "(u64 \<Rightarrow> 's \<times> 'w \<Rightarrow> event list) \<Rightarrow> ('s, 'w) server_state \<Rightarrow> bool" where
  "server_ok events st \<longleftrightarrow>
     (\<forall>(cid, cs) \<in> set (sv_conns st). \<exists>streams. (connection_step (events cid) cid)\<^sup>*\<^sup>* (streams, [], []) cs)
   \<and> (\<forall>l1 e l2. sv_events st = l1 @ e # l2 \<longrightarrow>
        (\<exists>cid rest tasks sent1 sent2. (cid, rest, tasks, sent1 @ e # sent2) \<in> set (sv_conns st) \<and> set sent1 \<subseteq> set l1))
   \<and> (\<forall>(cid, rest, tasks, sent) \<in> set (sv_conns st). set sent \<subseteq> set (sv_events st))"

lemma set_remove_nth: "set (remove_nth i xs) \<subseteq> set xs"
  by (auto simp: remove_nth_def dest: in_set_takeD in_set_dropD)

lemma server_ok_start: "server_ok events server_start"
  by (simp add: server_ok_def server_start_def)

lemma server_ok_works:
  assumes ok: "server_ok events st" and i: "i < length (sv_conns st)" and ci: "sv_conns st ! i = (cid, cs)"
    and step: "connection_step (events cid) cid cs cs'" and new: "snd (snd cs') = snd (snd cs) @ [e]"
  shows "server_ok events (st\<lparr>sv_conns := (sv_conns st)[i := (cid, cs')], sv_events := sv_events st @ [e]\<rparr>)"
proof -
  have mem: "(cid, cs) \<in> set (sv_conns st)" using i ci nth_mem by metis
  obtain rest tasks sent where cs: "cs = (rest, tasks, sent)" by (cases cs)
  obtain rest' tasks' where cs': "cs' = (rest', tasks', sent @ [e])"
    using new cs by (cases cs') auto
  have new_mem: "(cid, cs') \<in> set ((sv_conns st)[i := (cid, cs')])"
    using i by (simp add: set_update_memI)
  have kept: "x \<in> set ((sv_conns st)[i := (cid, cs')]) \<or> x = (cid, cs)" if "x \<in> set (sv_conns st)" for x
    using that ci by (metis in_set_conv_nth length_list_update nth_list_update_neq)
  have old: "x = (cid, cs') \<or> x \<in> set (sv_conns st)" if "x \<in> set ((sv_conns st)[i := (cid, cs')])" for x
    using that set_update_subset_insert by fastforce
  have sub: "set sent \<subseteq> set (sv_events st)" using ok mem cs unfolding server_ok_def by blast
  have "\<exists>streams. (connection_step (events c) c)\<^sup>*\<^sup>* (streams, [], []) s"
    if "(c, s) \<in> set ((sv_conns st)[i := (cid, cs')])" for c s
    using old [OF that]
  proof
    assume eq: "(c, s) = (cid, cs')"
    from ok mem obtain streams where "(connection_step (events cid) cid)\<^sup>*\<^sup>* (streams, [], []) cs"
      unfolding server_ok_def by fast
    with step have "(connection_step (events cid) cid)\<^sup>*\<^sup>* (streams, [], []) cs'" by (rule rtranclp.rtrancl_into_rtrancl [rotated])
    with eq show ?thesis by blast
  next
    assume "(c, s) \<in> set (sv_conns st)"
    with ok show ?thesis unfolding server_ok_def by fast
  qed
  moreover have "\<exists>c r t s1 s2. (c, r, t, s1 @ e' # s2) \<in> set ((sv_conns st)[i := (cid, cs')]) \<and> set s1 \<subseteq> set l1"
    if split: "sv_events st @ [e] = l1 @ e' # l2" for l1 e' l2
  proof (cases l2 rule: rev_cases)
    case Nil
    with split have "e' = e" "l1 = sv_events st" by auto
    with new_mem cs' sub show ?thesis by blast
  next
    case (snoc l2' last)
    with split have "sv_events st = l1 @ e' # l2'" by auto
    with ok obtain c r t s1 s2 where 1: "(c, r, t, s1 @ e' # s2) \<in> set (sv_conns st)" "set s1 \<subseteq> set l1"
      unfolding server_ok_def by blast
    from kept [OF 1(1)] show ?thesis
    proof
      assume "(c, r, t, s1 @ e' # s2) = (cid, cs)"
      then have "cs' = (rest', tasks', s1 @ e' # (s2 @ [e]))" using cs cs' by simp
      with new_mem 1(2) show ?thesis by metis
    qed (use 1(2) in blast)
  qed
  moreover have "set s \<subseteq> set (sv_events st @ [e])"
    if "(c, r, t, s) \<in> set ((sv_conns st)[i := (cid, cs')])" for c r t s
    using old [OF that]
  proof
    assume "(c, r, t, s) = (cid, cs')"
    with cs' sub show ?thesis by auto
  next
    assume "(c, r, t, s) \<in> set (sv_conns st)"
    with ok show ?thesis unfolding server_ok_def by fastforce
  qed
  ultimately show ?thesis unfolding server_ok_def by auto blast
qed

lemma server_ok_step:
  assumes "server_step events st st'" and "server_ok events st"
  shows "server_ok events st'"
  using assms(1)
proof (cases rule: server_step.cases)
  case (connected i conn)
  obtain cid streams where "conn = (cid, streams, [], [])"
    using connected by (auto simp: handle_connection_def split: sum.splits)
  moreover have "(connection_step (events cid) cid)\<^sup>*\<^sup>* (streams, [], []) (streams, [], [])" by simp
  ultimately show ?thesis using assms(2) connected(1)
    unfolding server_ok_def by (fastforce simp: Ball_def)
next
  case (works i cid cs cs' e)
  then show ?thesis using server_ok_works [OF assms(2)] by simp
qed (use assms(2) in \<open>simp_all add: server_ok_def\<close>)

lemma server_ok_steps:
  "(server_step events)\<^sup>*\<^sup>* server_start st \<Longrightarrow> server_ok events st"
  by (induction rule: rtranclp_induct) (auto intro: server_ok_start server_ok_step)

section \<open>How much is left to do\<close>

text \<open>The steps that a connection, a waiting connection and the provider can still make.\<close>

fun conn_work :: "('s \<times> 'w \<Rightarrow> event list) \<Rightarrow> ('s, 'w) conn_state \<Rightarrow> nat" where
  "conn_work ev (streams, tasks, sent) =
     sum_list (map (\<lambda>x. 1 + length (ev x)) streams) + sum_list (map length tasks)"

definition arrival_work :: "(u64 \<Rightarrow> 's \<times> 'w \<Rightarrow> event list) \<Rightarrow> ('s, 'w) arrival \<Rightarrow> nat" where
  "arrival_work events a =
     1 + (case handle_connection a of None \<Rightarrow> 0 | Some (cid, cs) \<Rightarrow> conn_work (events cid) cs)"

definition server_work :: "(u64 \<Rightarrow> 's \<times> 'w \<Rightarrow> event list) \<Rightarrow> ('s, 'w) server_state \<Rightarrow> nat" where
  "server_work events st =
     (if sv_closed st = None then 1 else 0)
     + sum_list (map (arrival_work events) (sv_connecting st))
     + sum_list (map (\<lambda>(cid, cs). conn_work (events cid) cs) (sv_conns st))"

lemma sum_list_update_nat:
  "i < length xs \<Longrightarrow> sum_list (xs[i := y]) + xs ! i = sum_list xs + (y :: nat)"
  by (induction xs arbitrary: i) (auto split: nat.splits)

lemma sum_list_remove_nth:
  "i < length xs \<Longrightarrow> sum_list (map f (remove_nth i xs)) + (f (xs ! i) :: nat) = sum_list (map f xs)"
  using arg_cong [OF id_take_nth_drop, of i xs "\<lambda>ys. sum_list (map f ys)"]
  by (simp add: remove_nth_def)

lemma conn_work_step: "connection_step ev cid cs cs' \<Longrightarrow> conn_work ev cs = Suc (conn_work ev cs')"
proof (induction rule: connection_step.induct)
  case (emit i tasks e es streams sent)
  have "sum_list ((map length tasks)[i := length es]) + map length tasks ! i = sum_list (map length tasks) + length es"
    by (rule sum_list_update_nat) (use emit(1) in simp)
  with emit show ?case by (simp add: map_update)
qed simp

lemma conn_work_stuck:
  assumes "\<nexists>cs'. connection_step ev cid (streams, tasks, sent) cs'"
  shows "streams = [] \<and> set tasks \<subseteq> {[]}"
proof
  show "streams = []"
    using assms connection_step.accept by (cases streams) blast+
  show "set tasks \<subseteq> {[]}"
  proof
    fix t assume "t \<in> set tasks"
    then obtain i where "i < length tasks" "tasks ! i = t" by (auto simp: in_set_conv_nth)
    with assms connection_step.emit show "t \<in> {[]}" by (cases t) blast+
  qed
qed

text \<open>The work of a connection that is all still to come is done in exactly that many steps.\<close>

lemma connection_terminates:
  assumes "(connection_step ev cid ^^ n) cs cs'"
  shows "n + conn_work ev cs' = conn_work ev cs"
  using assms
proof (induction n arbitrary: cs')
  case (Suc n)
  then obtain cs1 where "(connection_step ev cid ^^ n) cs cs1" "connection_step ev cid cs1 cs'" by auto
  with Suc.IH [of cs1] conn_work_step [of ev cid cs1 cs'] show ?case by simp
qed simp

lemma server_work_step:
  assumes "server_step events st st'" and "sv_cancelled st"
  shows "server_work events st' < server_work events st \<and> sv_cancelled st'"
  using assms(1)
proof (cases rule: server_step.cases)
  case (fails i)
  then show ?thesis
    using sum_list_remove_nth [OF fails(2), of "arrival_work events"] assms(2)
    by (auto simp: server_work_def arrival_work_def)
next
  case (connected i conn)
  obtain cid cs where "conn = (cid, cs)" by (cases conn)
  with connected show ?thesis
    using sum_list_remove_nth [OF connected(2), of "arrival_work events"] assms(2)
    by (auto simp: server_work_def arrival_work_def)
next
  case (works i cid cs cs' e)
  have "sum_list ((map (\<lambda>(cid, cs). conn_work (events cid) cs) (sv_conns st))[i := conn_work (events cid) cs'])
      + map (\<lambda>(cid, cs). conn_work (events cid) cs) (sv_conns st) ! i =
    sum_list (map (\<lambda>(cid, cs). conn_work (events cid) cs) (sv_conns st)) + conn_work (events cid) cs'"
    by (rule sum_list_update_nat) (use works(2) in simp)
  with works conn_work_step [OF works(4)] assms(2) show ?thesis
    by (simp add: server_work_def map_update)
qed (use assms(2) in \<open>auto simp: server_work_def\<close>)

lemma server_work_steps:
  assumes "(server_step events ^^ n) st st'" and "sv_cancelled st"
  shows "n + server_work events st' \<le> server_work events st \<and> sv_cancelled st'"
  using assms(1)
proof (induction n arbitrary: st')
  case 0
  then show ?case using assms(2) by simp
next
  case (Suc n)
  then obtain st1 where "(server_step events ^^ n) st st1" "server_step events st1 st'" by auto
  with Suc.IH [of st1] server_work_step [of events st1 st'] show ?case by auto
qed

text \<open>Where a cancelled provider can make no step, it is closed and all its tasks are done.\<close>

lemma server_stuck:
  assumes "\<nexists>st'. server_step events st st'" and "sv_cancelled st"
  shows "sv_closed st \<noteq> None \<and> sv_connecting st = []
    \<and> (\<forall>(cid, streams, tasks, sent) \<in> set (sv_conns st). set tasks \<subseteq> {[]})"
proof -
  have closed: "sv_closed st \<noteq> None"
    using assms server_step.close by blast
  moreover have "sv_connecting st = []"
    using assms(1) closed server_step.fails [of 0 st events] by (cases "sv_connecting st") auto
  moreover have "t = []" if m: "(cid, streams, tasks, sent) \<in> set (sv_conns st)" and t: "t \<in> set tasks" for cid streams tasks sent t
  proof (rule ccontr)
    assume "t \<noteq> []"
    then obtain e es where e: "t = e # es" by (cases t) auto
    from m obtain i where i: "i < length (sv_conns st)" "sv_conns st ! i = (cid, streams, tasks, sent)"
      by (auto simp: in_set_conv_nth)
    from t e obtain j where j: "j < length tasks" "tasks ! j = e # es" by (auto simp: in_set_conv_nth)
    from server_step.works [OF i connection_step.emit [OF j]] assms(1) show False by auto
  qed
  ultimately show ?thesis by fast
qed

section \<open>Properties of the running provider\<close>

lemma stream_event_ids:
  assumes "stream_events ro wo fmt bao fs db token cid x = before @ e # later"
  shows "e \<noteq> EvClientConnected c"
    and "e = EvTransferCompleted c rid \<or> e = EvTransferAborted c (Some rid) \<Longrightarrow>
      c = cid \<and> (\<exists>h. before = [EvRequestReceived cid rid h])"
  using transfer_event_cases [OF refl refl, of ro wo fmt bao fs db token cid "fst x" "snd x"] assms
  by (auto simp: stream_events_def Cons_eq_append_conv append_eq_Cons_conv split: prod.splits)

text \<open>
  C16: in the one channel of a running provider, however its
  connections and their streams interleave, and whether or not it is shut down, a transfer
  is reported as completed, or as aborted with its request id, only after a client was
  reported on that connection and the request with that id received.
\<close>

theorem server_events_ordered:
  assumes "(server_step (stream_events ro wo fmt bao fs db token))\<^sup>*\<^sup>* server_start st"
    and "sv_events st = before @ e # later"
    and "e = EvTransferCompleted cid rid \<or> e = EvTransferAborted cid (Some rid)"
  shows "EvClientConnected cid \<in> set before \<and> (\<exists>h. EvRequestReceived cid rid h \<in> set before)"
proof -
  let ?ev = "stream_events ro wo fmt bao fs db token"
  from server_ok_steps [OF assms(1)] assms(2) obtain c rest tasks s1 s2 where
    1: "(c, rest, tasks, s1 @ e # s2) \<in> set (sv_conns st)" "set s1 \<subseteq> set before"
    unfolding server_ok_def by blast
  with server_ok_steps [OF assms(1)] obtain streams where
    2: "(connection_step (?ev c) c)\<^sup>*\<^sup>* (streams, [], []) (rest, tasks, s1 @ e # s2)"
    unfolding server_ok_def by fast
  have "e \<noteq> EvClientConnected c" using assms(3) by auto
  from sent_split [OF 2 refl this] obtain x dn more where
    3: "?ev c x = dn @ e # more" "set dn \<subseteq> set s1" "EvClientConnected c \<in> set s1" by blast
  from stream_event_ids(2) [OF 3(1) assms(3)] obtain h where "c = cid" "dn = [EvRequestReceived cid rid h]" by blast
  with 1(2) 3(2,3) show ?thesis by auto
qed


text \<open>No task has a \<open>ClientConnected\<close> left to send: that is sent when a stream is accepted.\<close>

lemma tasks_not_connected:
  assumes "(server_step (stream_events ro wo fmt bao fs db token))\<^sup>*\<^sup>* server_start st"
    and "(cid, streams, tasks, sent) \<in> set (sv_conns st)" and "t \<in> set tasks" and "e \<in> set t"
  shows "e \<noteq> EvClientConnected c"
proof -
  let ?ev = "stream_events ro wo fmt bao fs db token"
  from server_ok_steps [OF assms(1)] assms(2) obtain xs where
    "(connection_step (?ev cid) cid)\<^sup>*\<^sup>* (xs, [], []) (streams, tasks, sent)"
    unfolding server_ok_def by fast
  from projects_steps [OF this] assms(3) obtain i dn where "?ev cid (xs ! i) = dn @ t"
    unfolding projects_def by (auto simp: in_set_conv_nth)
  moreover from assms(4) obtain t1 t2 where "t = t1 @ e # t2" by (auto simp: in_set_conv_decomp)
  ultimately have "?ev cid (xs ! i) = (dn @ t1) @ e # t2" by simp
  then show ?thesis by (rule stream_event_ids(1))
qed

lemma closed_step:
  assumes "(server_step (stream_events ro wo fmt bao fs db token))\<^sup>*\<^sup>* server_start st"
    and "server_step (stream_events ro wo fmt bao fs db token) st st'" and "sv_closed st \<noteq> None"
  shows "sv_closed st' = sv_closed st \<and> map fst (sv_conns st') = map fst (sv_conns st)
    \<and> (\<exists>more. sv_events st' = sv_events st @ more \<and> (\<forall>cid. EvClientConnected cid \<notin> set more))"
  using assms(2)
proof (cases rule: server_step.cases)
  case (works i cid cs cs' e)
  then have same: "fst cs' = fst cs" using assms(3) by simp
  obtain j streams tasks sent es where 1: "cs = (streams, tasks, sent)" "j < length tasks" "tasks ! j = e # es"
    using works(4,6) same by (auto elim!: connection_step.cases)
  have "(cid, streams, tasks, sent) \<in> set (sv_conns st)" using works(2,3) 1(1) nth_mem by metis
  then have "e \<noteq> EvClientConnected c" for c
    using tasks_not_connected [OF assms(1), of cid streams tasks sent "e # es" e] 1(2,3) nth_mem by fastforce
  moreover have "map fst ((sv_conns st)[i := (cid, cs')]) = map fst (sv_conns st)"
    using works(2,3) by (metis fst_conv list_update_id map_update)
  ultimately show ?thesis using works(1) by auto
qed (use assms(3) in auto)


section \<open>A run of a provider\<close>

text \<open>
  A connection arrives, a stream is accepted on it, the provider is shut down and its
  endpoint closed; the transfer that had begun is reported to its end.
\<close>

abbreviation two_ev :: "u64 \<Rightarrow> chunk_stream \<times> mem_sink \<Rightarrow> event list" where
  "two_ev \<equiv> stream_events chunk_ops mem_eager_ops wire_format plain_bao two_files two_db sample_token"

abbreviation two_stream :: "chunk_stream \<times> mem_sink" where
  "two_stream \<equiv> ([request_bytes wire_format sample_token two_h], \<lparr>mem_sent = [], mem_finished = False\<rparr>)"

definition accepted_state :: "(chunk_stream, mem_sink) server_state" where
  "accepted_state =
     \<lparr>sv_cancelled = True, sv_connecting = [],
      sv_conns = [(9, [], [[EvRequestReceived 9 1 two_h, EvTransferCompleted 9 1]], [EvClientConnected 9])],
      sv_events = [EvClientConnected 9], sv_closed = Some (1, ''provider terminating'')\<rparr>"

definition finished_state :: "(chunk_stream, mem_sink) server_state" where
  "finished_state = accepted_state
     \<lparr>sv_conns := [(9, [], [[]], [EvClientConnected 9, EvRequestReceived 9 1 two_h, EvTransferCompleted 9 1])],
      sv_events := [EvClientConnected 9, EvRequestReceived 9 1 two_h, EvTransferCompleted 9 1]\<rparr>"

lemma run_accepted: "(server_step two_ev)\<^sup>*\<^sup>* server_start accepted_state"
proof -
  let ?s1 = "server_start\<lparr>sv_connecting := [Inr (9, [two_stream])]\<rparr>"
  let ?s2 = "server_start\<lparr>sv_conns := [(9, [two_stream], [], [])]\<rparr>"
  let ?s3 = "server_start\<lparr>sv_conns := [(9, [], [two_ev 9 two_stream], [EvClientConnected 9])], sv_events := [EvClientConnected 9]\<rparr>"
  let ?s4 = "?s3\<lparr>sv_cancelled := True\<rparr>"
  have 1: "server_step two_ev server_start ?s1"
    using server_step.arrive [of server_start two_ev "Inr (9, [two_stream])"] by (simp add: server_start_def)
  have 2: "server_step two_ev ?s1 ?s2"
    using server_step.connected [of 0 ?s1 "(9, [two_stream], [], [])" two_ev]
    by (simp add: server_start_def handle_connection_def remove_nth_def)
  have 3: "server_step two_ev ?s2 ?s3"
    using server_step.works [of 0 ?s2 9 "([two_stream], [], [])" two_ev "([], [two_ev 9 two_stream], [EvClientConnected 9])"
        "EvClientConnected 9"] connection_step.accept [of "two_ev 9" 9 two_stream "[]" "[]" "[]"]
    by (simp add: server_start_def)
  have 4: "server_step two_ev ?s3 ?s4"
    using server_step.shutdown [of ?s3 two_ev] by (simp add: server_start_def)
  have 5: "server_step two_ev ?s4 accepted_state"
    using server_step.close [of ?s4 two_ev]
    by (simp add: server_start_def accepted_state_def closed_to_varint_def two_stream_events)
  from 1 2 3 4 5 show ?thesis
    by (meson converse_rtranclp_into_rtranclp r_into_rtranclp)
qed

lemma run_finished: "(server_step two_ev)\<^sup>*\<^sup>* accepted_state finished_state"
proof -
  let ?s1 = "accepted_state\<lparr>sv_conns := [(9, [], [[EvTransferCompleted 9 1]], [EvClientConnected 9, EvRequestReceived 9 1 two_h])],
    sv_events := [EvClientConnected 9, EvRequestReceived 9 1 two_h]\<rparr>"
  have 1: "server_step two_ev accepted_state ?s1"
    using server_step.works [of 0 accepted_state 9 "([], [[EvRequestReceived 9 1 two_h, EvTransferCompleted 9 1]], [EvClientConnected 9])"
        two_ev "([], [[EvTransferCompleted 9 1]], [EvClientConnected 9, EvRequestReceived 9 1 two_h])" "EvRequestReceived 9 1 two_h"]
      connection_step.emit [of 0 "[[EvRequestReceived 9 1 two_h, EvTransferCompleted 9 1]]" "EvRequestReceived 9 1 two_h"
        "[EvTransferCompleted 9 1]" "two_ev 9" 9 "[]" "[EvClientConnected 9]"]
    by (simp add: accepted_state_def)
  have 2: "server_step two_ev ?s1 finished_state"
    using server_step.works [of 0 ?s1 9 "([], [[EvTransferCompleted 9 1]], [EvClientConnected 9, EvRequestReceived 9 1 two_h])"
        two_ev "([], [[]], [EvClientConnected 9, EvRequestReceived 9 1 two_h, EvTransferCompleted 9 1])" "EvTransferCompleted 9 1"]
      connection_step.emit [of 0 "[[EvTransferCompleted 9 1]]" "EvTransferCompleted 9 1"
        "[]" "two_ev 9" 9 "[]" "[EvClientConnected 9, EvRequestReceived 9 1 two_h]"]
    by (simp add: accepted_state_def finished_state_def)
  from 1 2 show ?thesis by (meson converse_rtranclp_into_rtranclp r_into_rtranclp)
qed

theorem server_events_ordered_witness:
  "(server_step two_ev)\<^sup>*\<^sup>* server_start finished_state
    \<and> sv_events finished_state = [EvClientConnected 9, EvRequestReceived 9 1 two_h] @ EvTransferCompleted 9 1 # []
    \<and> (\<exists>h. EvRequestReceived 9 1 h \<in> set [EvClientConnected 9, EvRequestReceived 9 1 two_h])"
proof -
  have run: "(server_step two_ev)\<^sup>*\<^sup>* server_start finished_state" using run_accepted run_finished by simp
  have ev: "sv_events finished_state = [EvClientConnected 9, EvRequestReceived 9 1 two_h] @ EvTransferCompleted 9 1 # []"
    by (simp add: finished_state_def)
  from server_events_ordered [OF run ev disjI1 [OF refl]] run ev show ?thesis by blast
qed



end
