(* ===== verification/Sessions.thy ===== *)
theory Sessions
  imports Running
begin

text \<open>
  Several getters of one running provider. The runs of the provider are given a history, the
  connections that arrived; from it follows what each connection has sent, that the channel
  for events splits into the connections again, and that each getter whose connection was
  accepted gets what it asked for.
\<close>

section \<open>The channel, connection by connection\<close>

fun event_connection :: "event \<Rightarrow> u64" where
  "event_connection (EvClientConnected cid) = cid"
| "event_connection (EvRequestReceived cid rid h) = cid"
| "event_connection (EvTransferCompleted cid rid) = cid"
| "event_connection (EvTransferAborted cid rid) = cid"

lemma stream_events_connection:
  "e \<in> set (stream_events ro wo fmt bao fs db token cid x) \<Longrightarrow> event_connection e = cid"
  using transfer_event_cases [OF refl refl, of ro wo fmt bao fs db token cid "fst x" "snd x"]
  by (auto simp: stream_events_def split: prod.splits)

text \<open>
  Every connection sends events with its own id only, if its streams do.
\<close>

definition own_events :: "(u64 \<Rightarrow> 's \<times> 'w \<Rightarrow> event list) \<Rightarrow> bool" where
  "own_events events \<longleftrightarrow> (\<forall>cid x. \<forall>e \<in> set (events cid x). event_connection e = cid)"

lemma own_stream_events: "own_events (stream_events ro wo fmt bao fs db token)"
  by (simp add: own_events_def stream_events_connection)

lemma connection_own_events:
  assumes "own_events events" and "(connection_step (events cid) cid)\<^sup>*\<^sup>* (streams, [], []) (rest, tasks, sent)"
  shows "\<forall>e \<in> set sent \<union> \<Union> (set ` set tasks). event_connection e = cid"
  using assms(2)
proof (induction "(rest, tasks, sent)" arbitrary: rest tasks sent rule: rtranclp_induct)
  case (step y)
  obtain rest0 tasks0 sent0 where y: "y = (rest0, tasks0, sent0)" by (cases y)
  note IH = step(3) [OF y]
  from step(2) show ?case unfolding y
  proof (cases rule: connection_step.cases)
    case (accept x)
    have "event_connection e = cid" if "e \<in> set (events cid x)" for e
      using assms(1) that unfolding own_events_def by blast
    with IH accept show ?thesis by auto
  next
    case (emit i e es)
    have "set (e # es) \<subseteq> \<Union> (set ` set tasks0)" using emit nth_mem by (metis UN_upper)
    then have "event_connection e' = cid" if "e' \<in> set es \<or> e' = e" for e'
      using that IH by auto
    with IH emit show ?thesis by (fastforce dest: set_update_subset_insert [THEN subsetD])
  qed
qed simp

lemma distinct_fst_unique:
  "distinct (map fst xs) \<Longrightarrow> (k, v) \<in> set xs \<Longrightarrow> (k, v') \<in> set xs \<Longrightarrow> v = v'"
  by (meson eq_key_imp_eq_value)

definition channel_split :: "('s, 'w) server_state \<Rightarrow> bool" where
  "channel_split st \<longleftrightarrow>
     (\<forall>(cid, rest, tasks, sent) \<in> set (sv_conns st). filter (\<lambda>e. event_connection e = cid) (sv_events st) = sent)
   \<and> (\<forall>e \<in> set (sv_events st). event_connection e \<in> fst ` set (sv_conns st))"

lemma channel_split_step:
  assumes own: "own_events events" and reach: "(server_step events)\<^sup>*\<^sup>* server_start st"
    and step: "server_step events st st'" and dist: "distinct (map fst (sv_conns st'))"
    and split: "distinct (map fst (sv_conns st)) \<Longrightarrow> channel_split st"
  shows "channel_split st'"
  using step
proof (cases rule: server_step.cases)
  case (connected i conn)
  obtain cid streams where conn: "conn = (cid, streams, [], [])"
    using connected by (auto simp: handle_connection_def split: sum.splits)
  have new: "cid \<notin> fst ` set (sv_conns st)" and "distinct (map fst (sv_conns st))"
    using dist connected conn by auto
  then have "channel_split st" by (intro split)
  with new connected conn show ?thesis by (auto simp: channel_split_def filter_empty_conv)
next
  case (works i cid cs cs' e)
  obtain rest tasks sent where cs: "cs = (rest, tasks, sent)" by (cases cs)
  obtain rest' tasks' where cs': "cs' = (rest', tasks', sent @ [e])" using works cs by (cases cs') auto
  have mem: "(cid, cs) \<in> set (sv_conns st)" using works nth_mem by metis
  have ids: "map fst (sv_conns st') = map fst (sv_conns st)"
    using works by (auto simp: map_update intro: list_update_same_conv [THEN iffD2])
  then have d: "distinct (map fst (sv_conns st))" using dist by simp
  note ch = split [OF d]
  from server_ok_steps [OF reach] mem obtain streams where
    "(connection_step (events cid) cid)\<^sup>*\<^sup>* (streams, [], []) cs" unfolding server_ok_def by fast
  with works(4) have "(connection_step (events cid) cid)\<^sup>*\<^sup>* (streams, [], []) cs'"
    by (rule rtranclp.rtrancl_into_rtrancl [rotated])
  from connection_own_events [OF own this [unfolded cs']] have e: "event_connection e = cid" by simp
  have "filter (\<lambda>e. event_connection e = c) (sv_events st') = s"
    if m: "(c, r, t, s) \<in> set (sv_conns st')" for c r t s
  proof (cases "c = cid")
    case True
    have "(cid, cs') \<in> set (sv_conns st')" using works by (simp add: set_update_memI)
    from distinct_fst_unique [OF dist this, of "(r, t, s)"] m True have "s = sent @ [e]" by (simp add: cs')
    moreover have "filter (\<lambda>e. event_connection e = cid) (sv_events st) = sent"
      using ch mem cs unfolding channel_split_def by fast
    ultimately show ?thesis using works e True by simp
  next
    case False
    then have "(c, r, t, s) \<in> set (sv_conns st)"
      using m works set_update_subset_insert [of "sv_conns st" i "(cid, cs')"] by auto
    with ch have "filter (\<lambda>e. event_connection e = c) (sv_events st) = s" unfolding channel_split_def by fast
    with works e False show ?thesis by simp
  qed
  moreover have "fst ` set (sv_conns st') = fst ` set (sv_conns st)" using ids by (metis list.set_map)
  moreover have "cid \<in> fst ` set (sv_conns st)" using mem by force
  ultimately show ?thesis using ch works e unfolding channel_split_def by auto
qed (use split dist in \<open>simp_all add: channel_split_def\<close>)

lemma server_step_ids:
  "server_step events st st' \<Longrightarrow> distinct (map fst (sv_conns st')) \<Longrightarrow> distinct (map fst (sv_conns st))"
proof (induction rule: server_step.induct)
  case (works i st cid cs cs' e)
  have "map fst ((sv_conns st)[i := (cid, cs')]) = map fst (sv_conns st)"
    using works by (auto simp: map_update intro: list_update_same_conv [THEN iffD2])
  with works show ?case by simp
qed auto

lemma channel_split_steps:
  assumes "own_events events" and "(server_step events)\<^sup>*\<^sup>* server_start st" and "distinct (map fst (sv_conns st))"
  shows "channel_split st"
  using assms(2,3)
proof (induction rule: rtranclp_induct)
  case base
  show ?case by (simp add: channel_split_def server_start_def)
next
  case (step st st')
  from channel_split_step [OF assms(1) step(1,2) step(4)] step(3) show ?case .
qed

section \<open>Runs with the history of arrivals\<close>

text \<open>\<open>server_run events as st\<close>: the provider has got to \<open>st\<close>, and \<open>as\<close> are the connections that arrived.\<close>

inductive server_run ::
    "(u64 \<Rightarrow> 's \<times> 'w \<Rightarrow> event list) \<Rightarrow> ('s, 'w) arrival list \<Rightarrow> ('s, 'w) server_state \<Rightarrow> bool"
  for events where
  start: "server_run events [] server_start"
| arrive: "server_run events as st \<Longrightarrow> \<not> sv_cancelled st \<Longrightarrow> sv_closed st = None \<Longrightarrow>
    server_run events (as @ [a]) (st\<lparr>sv_connecting := sv_connecting st @ [a]\<rparr>)"
| step: "server_run events as st \<Longrightarrow> server_step events st st' \<Longrightarrow>
    length (sv_connecting st') \<le> length (sv_connecting st) \<Longrightarrow> server_run events as st'"

lemma server_run_reach: "server_run events as st \<Longrightarrow> (server_step events)\<^sup>*\<^sup>* server_start st"
  by (induction rule: server_run.induct) (auto intro: rtranclp.rtrancl_into_rtrancl server_step.arrive)

lemma server_run_complete:
  assumes "(server_step events)\<^sup>*\<^sup>* server_start st"
  shows "\<exists>as. server_run events as st"
  using assms
proof (induction rule: rtranclp_induct)
  case base
  show ?case by (blast intro: server_run.start)
next
  case (step st st')
  then obtain as where as: "server_run events as st" by blast
  from step(2) show ?case
  proof (cases rule: server_step.cases)
    case (arrive a)
    with server_run.arrive [OF as] show ?thesis by blast
  qed (use server_run.step [OF as step(2)] in \<open>auto simp: remove_nth_def\<close>)
qed

text \<open>What arrived is waiting, has become a connection or, once the endpoint is closed, was dropped.\<close>

fun arrival_id :: "('s, 'w) arrival \<Rightarrow> u64 list" where
  "arrival_id (Inl e) = []"
| "arrival_id (Inr (cid, streams)) = [cid]"

definition arrival_ids :: "('s, 'w) arrival list \<Rightarrow> u64 list" where
  "arrival_ids as = concat (map arrival_id as)"

lemma arrival_ids_simps [simp]:
  "arrival_ids [] = []" "arrival_ids (as @ bs) = arrival_ids as @ arrival_ids bs"
  "arrival_ids (a # as) = arrival_id a @ arrival_ids as"
  by (simp_all add: arrival_ids_def)

lemma remove_nth_mset: "i < length xs \<Longrightarrow> mset xs = add_mset (xs ! i) (mset (remove_nth i xs))"
  using arg_cong [OF id_take_nth_drop, of i xs mset] by (simp add: remove_nth_def)

lemma arrival_ids_mset: "mset (arrival_ids as) = \<Sum>\<^sub># (image_mset (mset \<circ> arrival_id) (mset as))"
  by (simp add: arrival_ids_def mset_concat sum_mset_sum_list comp_def flip: mset_map)

definition arrived :: "(u64 \<Rightarrow> 's \<times> 'w \<Rightarrow> event list) \<Rightarrow> ('s, 'w) arrival list \<Rightarrow> ('s, 'w) server_state \<Rightarrow> bool" where
  "arrived events as st \<longleftrightarrow>
     (\<forall>(cid, cs) \<in> set (sv_conns st). \<exists>streams. Inr (cid, streams) \<in> set as
        \<and> (connection_step (events cid) cid)\<^sup>*\<^sup>* (streams, [], []) cs)
   \<and> set (sv_connecting st) \<subseteq> set as
   \<and> mset (arrival_ids (sv_connecting st)) + mset (map fst (sv_conns st)) \<subseteq># mset (arrival_ids as)
   \<and> (sv_closed st = None \<longrightarrow> (\<forall>cid streams. Inr (cid, streams) \<in> set as \<longrightarrow>
        Inr (cid, streams) \<in> set (sv_connecting st) \<or> cid \<in> fst ` set (sv_conns st)))"

lemma arrived_connected:
  assumes ok: "arrived events as st" and connected: "st' = st\<lparr>sv_connecting := remove_nth i (sv_connecting st), sv_conns := sv_conns st @ [conn]\<rparr>"
    "i < length (sv_connecting st)" "handle_connection (sv_connecting st ! i) = Some conn"
  shows "arrived events as st'"
proof -
  note mset = remove_nth_mset [OF connected(2)]
  obtain cid streams where a: "sv_connecting st ! i = Inr (cid, streams)" "conn = (cid, streams, [], [])"
    using connected(3) by (auto simp: handle_connection_def split: sum.splits)
  have here: "Inr (cid, streams) \<in> set as" using ok connected(2) a(1) nth_mem unfolding arrived_def by (metis subsetD)
  have st': "sv_conns st' = sv_conns st @ [conn]" "sv_connecting st' = remove_nth i (sv_connecting st)"
      "sv_closed st' = sv_closed st"
    using connected(1) by simp_all
  have ids: "mset (arrival_ids (sv_connecting st')) + mset (map fst (sv_conns st')) =
      mset (arrival_ids (sv_connecting st)) + mset (map fst (sv_conns st))"
    by (simp add: st' arrival_ids_mset mset a)
  have waiting: "set (sv_connecting st) = insert (Inr (cid, streams)) (set (sv_connecting st'))"
    using arg_cong [OF mset, of set_mset] a(1) st'(2) by simp
  have "\<forall>(c, cs) \<in> set (sv_conns st). \<exists>streams. Inr (c, streams) \<in> set as
      \<and> (connection_step (events c) c)\<^sup>*\<^sup>* (streams, [], []) cs"
    using ok unfolding arrived_def by blast
  moreover have "\<exists>streams'. Inr (cid, streams') \<in> set as \<and> (connection_step (events cid) cid)\<^sup>*\<^sup>* (streams', [], []) (streams, [], [])"
    using here by blast
  ultimately have "\<forall>(c, cs) \<in> set (sv_conns st'). \<exists>streams. Inr (c, streams) \<in> set as
      \<and> (connection_step (events c) c)\<^sup>*\<^sup>* (streams, [], []) cs"
    by (simp add: st'(1) a(2) ball_Un)
  moreover have "set (sv_connecting st') \<subseteq> set as" using ok waiting unfolding arrived_def by blast
  moreover have "Inr (c, ss) \<in> set (sv_connecting st') \<or> c \<in> fst ` set (sv_conns st')"
    if "sv_closed st = None" "Inr (c, ss) \<in> set as" for c ss
  proof -
    from that ok have "Inr (c, ss) \<in> set (sv_connecting st) \<or> c \<in> fst ` set (sv_conns st)"
      unfolding arrived_def by blast
    with waiting show ?thesis by (auto simp: st'(1) a(2))
  qed
  moreover have "mset (arrival_ids (sv_connecting st')) + mset (map fst (sv_conns st')) \<subseteq># mset (arrival_ids as)"
    unfolding ids using ok unfolding arrived_def by blast
  ultimately show ?thesis unfolding arrived_def st'(3) by (intro conjI) blast+
qed

lemma arrived_works:
  assumes ok: "arrived events as st" and works: "st' = st\<lparr>sv_conns := (sv_conns st)[i := (cid, cs')], sv_events := sv_events st @ [e]\<rparr>"
    "i < length (sv_conns st)" "sv_conns st ! i = (cid, cs)" "connection_step (events cid) cid cs cs'"
  shows "arrived events as st'"
proof -
  have mem: "(cid, cs) \<in> set (sv_conns st)" using works nth_mem by metis
  have ids: "map fst (sv_conns st') = map fst (sv_conns st)"
    using works by (auto simp: map_update intro: list_update_same_conv [THEN iffD2])
  from ok mem obtain streams where s: "Inr (cid, streams) \<in> set as"
      "(connection_step (events cid) cid)\<^sup>*\<^sup>* (streams, [], []) cs" unfolding arrived_def by fast
  from s(2) works(4) have "(connection_step (events cid) cid)\<^sup>*\<^sup>* (streams, [], []) cs'"
    by (rule rtranclp.rtrancl_into_rtrancl)
  with s(1) have new: "\<exists>streams. Inr (cid, streams) \<in> set as \<and> (connection_step (events cid) cid)\<^sup>*\<^sup>* (streams, [], []) cs'"
    by blast
  have "set (sv_conns st') \<subseteq> insert (cid, cs') (set (sv_conns st))"
    using works(1) set_update_subset_insert by simp
  moreover have "\<forall>(c, s) \<in> set (sv_conns st). \<exists>streams. Inr (c, streams) \<in> set as
      \<and> (connection_step (events c) c)\<^sup>*\<^sup>* (streams, [], []) s"
    using ok unfolding arrived_def by blast
  ultimately have "\<forall>(c, s) \<in> set (sv_conns st'). \<exists>streams. Inr (c, streams) \<in> set as
      \<and> (connection_step (events c) c)\<^sup>*\<^sup>* (streams, [], []) s"
    using new by blast
  moreover have "fst ` set (sv_conns st') = fst ` set (sv_conns st)" using ids by (metis list.set_map)
  ultimately show ?thesis using ok works ids unfolding arrived_def by simp
qed

lemma arrived_step:
  assumes ok: "arrived events as st" and "server_step events st st'"
    and "length (sv_connecting st') \<le> length (sv_connecting st)"
  shows "arrived events as st'"
  using assms(2)
proof (cases rule: server_step.cases)
  case (arrive a)
  with assms(3) show ?thesis by simp
next
  case (fails i)
  note mset = remove_nth_mset [OF fails(2)]
  have ids: "mset (arrival_ids (remove_nth i (sv_connecting st))) \<subseteq># mset (arrival_ids (sv_connecting st))"
    by (simp add: arrival_ids_mset mset)
  have kept: "Inr (cid, streams) \<in> set (remove_nth i (sv_connecting st))"
    if "sv_closed st = None" "Inr (cid, streams) \<in> set (sv_connecting st)" for cid streams
    using that fails(3) arg_cong [OF mset, of set_mset] by (auto simp: handle_connection_def split: sum.splits)
  have "mset (arrival_ids (remove_nth i (sv_connecting st))) + mset (map fst (sv_conns st)) \<subseteq># mset (arrival_ids as)"
    using ok subset_mset.add_right_mono [OF ids] subset_mset.order_trans unfolding arrived_def by blast
  moreover have "set (remove_nth i (sv_connecting st)) \<subseteq> set as"
    using ok set_remove_nth [of i "sv_connecting st"] unfolding arrived_def by blast
  ultimately show ?thesis using ok fails(1) kept unfolding arrived_def by simp blast
next
  case (connected i conn)
  then show ?thesis by (intro arrived_connected [OF ok])
next
  case (works i cid cs cs' e)
  then show ?thesis by (intro arrived_works [OF ok])
qed (use ok in \<open>simp_all add: arrived_def\<close>)

lemma server_run_arrived: "server_run events as st \<Longrightarrow> arrived events as st"
proof (induction rule: server_run.induct)
  case start
  show ?case by (simp add: arrived_def server_start_def)
next
  case (arrive as st a)
  then show ?case unfolding arrived_def by (auto simp: ac_simps)
next
  case (step as st st')
  from arrived_step [OF step.IH step.hyps(2,3)] show ?case .
qed

section \<open>Catching up\<close>

text \<open>A provider that has done all that was asked of it so far.\<close>

definition provider_idle :: "('s, 'w) server_state \<Rightarrow> bool" where
  "provider_idle st \<longleftrightarrow> sv_connecting st = []
     \<and> list_all (\<lambda>(cid, streams, tasks, sent). streams = [] \<and> list_all (\<lambda>t. t = []) tasks) (sv_conns st)"

lemma busy_step:
  assumes "\<not> provider_idle st" and "sv_closed st = None"
  shows "\<exists>st'. server_step events st st' \<and> server_work events st' < server_work events st
    \<and> length (sv_connecting st') \<le> length (sv_connecting st) \<and> sv_closed st' = None \<and> sv_cancelled st' = sv_cancelled st"
proof (cases "sv_connecting st")
  case (Cons a as)
  show ?thesis
  proof (cases "handle_connection a")
    case None
    with Cons server_step.fails [of 0 st events] assms(2) show ?thesis
      by (intro exI [of _ "st\<lparr>sv_connecting := remove_nth 0 (sv_connecting st)\<rparr>"])
        (simp add: remove_nth_def server_work_def arrival_work_def)
  next
    case (Some conn)
    obtain cid cs where conn: "conn = (cid, cs)" by (cases conn)
    from Cons Some server_step.connected [of 0 st conn events] assms(2) conn show ?thesis
      by (intro exI [of _ "st\<lparr>sv_connecting := remove_nth 0 (sv_connecting st), sv_conns := sv_conns st @ [conn]\<rparr>"])
        (simp add: remove_nth_def server_work_def arrival_work_def)
  qed
next
  case Nil
  with assms(1) obtain c where "c \<in> set (sv_conns st)"
      "\<not> (case c of (cid, streams, tasks, sent) \<Rightarrow> streams = [] \<and> list_all (\<lambda>t. t = []) tasks)"
    unfolding provider_idle_def list_all_iff [of _ "sv_conns st"] by blast
  moreover obtain cid streams tasks sent where "c = (cid, streams, tasks, sent)" by (cases c)
  moreover define cs where "cs = (streams, tasks, sent)"
  ultimately have cs: "cs = (streams, tasks, sent)"
    and m: "(cid, cs) \<in> set (sv_conns st)" "\<not> (streams = [] \<and> list_all (\<lambda>t. t = []) tasks)" by simp_all
  have "\<exists>cs'. connection_step (events cid) cid cs cs'"
    using conn_work_stuck [of "events cid" cid streams tasks sent] m(2) cs by (fastforce simp: list_all_iff)
  then obtain cs' where step: "connection_step (events cid) cid cs cs'" by blast
  from connection_step_sends [OF this] obtain e where e: "snd (snd cs') = snd (snd cs) @ [e]" by blast
  from m(1) obtain i where i: "i < length (sv_conns st)" "sv_conns st ! i = (cid, cs)" by (auto simp: in_set_conv_nth)
  let ?st' = "st\<lparr>sv_conns := (sv_conns st)[i := (cid, cs')], sv_events := sv_events st @ [e]\<rparr>"
  have "server_step events st ?st'" using server_step.works [of i st cid cs events cs' e] i step e assms(2) by simp
  moreover have "server_work events ?st' < server_work events st"
    using sum_list_update_nat [of i "map (\<lambda>(cid, cs). conn_work (events cid) cs) (sv_conns st)" "conn_work (events cid) cs'"]
      conn_work_step [OF step] i by (simp add: server_work_def map_update)
  ultimately show ?thesis using assms(2) by (intro exI [of _ ?st']) simp
qed

lemma catches_up:
  assumes "server_run events as st" and "sv_closed st = None"
  shows "\<exists>st'. server_run events as st' \<and> (server_step events)\<^sup>*\<^sup>* st st' \<and> provider_idle st'
    \<and> sv_closed st' = None \<and> sv_cancelled st' = sv_cancelled st"
  using assms
proof (induction "server_work events st" arbitrary: st rule: less_induct)
  case less
  show ?case
  proof (cases "provider_idle st")
    case False
    from busy_step [OF this less.prems(2)] obtain st1 where
      1: "server_step events st st1" "server_work events st1 < server_work events st"
        "length (sv_connecting st1) \<le> length (sv_connecting st)" "sv_closed st1 = None" "sv_cancelled st1 = sv_cancelled st"
      by blast
    from less.hyps [OF 1(2) server_run.step [OF less.prems(1) 1(1,3)] 1(4)] 1(1,5) show ?thesis
      by (metis converse_rtranclp_into_rtranclp)
  qed (use less.prems in blast)
qed

section \<open>A connection with one stream\<close>

lemma single_stream:
  assumes "(connection_step events cid)\<^sup>*\<^sup>* ([x], [], []) st"
  shows "st = ([x], [], []) \<or> (\<exists>dn left. events x = dn @ left \<and> st = ([], [left], EvClientConnected cid # dn))"
  using assms
proof (induction rule: rtranclp_induct)
  case (step y z)
  from step.IH step(2) show ?case by (auto elim!: connection_step.cases)
qed simp

lemma distinct_part: "mset xs \<subseteq># mset ys \<Longrightarrow> distinct ys \<Longrightarrow> distinct xs"
proof -
  assume "mset xs \<subseteq># mset ys" and ys: "distinct ys"
  then obtain zs where "mset ys = mset (xs @ zs)"
    by (metis ex_mset mset_append subset_mset.le_iff_add)
  with ys show ?thesis using mset_eq_imp_distinct_iff by fastforce
qed

lemma in_set_two:
  assumes "x \<in> set xs" and "y \<in> set xs" and "x \<noteq> y"
  shows "\<exists>l1 l2 l3. xs = l1 @ x # l2 @ y # l3 \<or> xs = l1 @ y # l2 @ x # l3"
proof -
  from assms(1) obtain l1 r where r: "xs = l1 @ x # r" by (auto simp: in_set_conv_decomp)
  with assms(2,3) consider "y \<in> set l1" | "y \<in> set r" by auto
  then show ?thesis
  proof cases
    case 1
    then obtain a b where "l1 = a @ y # b" by (auto simp: in_set_conv_decomp)
    with r show ?thesis by (metis append.assoc append_Cons)
  next
    case 2
    then obtain a b where "r = a @ y # b" by (auto simp: in_set_conv_decomp)
    with r show ?thesis by blast
  qed
qed

lemma single_stream_done:
  assumes run: "server_run events as st" and "own_events events" and "distinct (arrival_ids as)"
    and "sv_closed st = None" and idle: "provider_idle st" and "Inr (cid, [x]) \<in> set as"
  shows "filter (\<lambda>e. event_connection e = cid) (sv_events st) = EvClientConnected cid # events cid x"
proof -
  note arr = server_run_arrived [OF run]
  have "distinct (arrival_ids (sv_connecting st) @ map fst (sv_conns st))"
    by (rule distinct_part [OF _ assms(3)]) (use arr in \<open>simp add: arrived_def\<close>)
  then have dist: "distinct (map fst (sv_conns st))" by simp
  have "sv_connecting st = []" using idle by (simp add: provider_idle_def)
  with arr assms(4,6) have "cid \<in> fst ` set (sv_conns st)" unfolding arrived_def by fastforce
  then obtain rest tasks sent where m: "(cid, rest, tasks, sent) \<in> set (sv_conns st)" by force
  with arr obtain streams where s: "Inr (cid, streams) \<in> set as"
      "(connection_step (events cid) cid)\<^sup>*\<^sup>* (streams, [], []) (rest, tasks, sent)"
    unfolding arrived_def by fast
  have "streams = [x]"
  proof (rule ccontr)
    assume "streams \<noteq> [x]"
    with in_set_two [OF s(1) assms(6)] obtain l1 l2 l3 where
      "as = l1 @ Inr (cid, streams) # l2 @ Inr (cid, [x]) # l3 \<or> as = l1 @ Inr (cid, [x]) # l2 @ Inr (cid, streams) # l3"
      by auto
    with assms(3) show False by auto
  qed
  moreover have "rest = []" "list_all (\<lambda>t. t = []) tasks"
    using idle m by (auto simp: provider_idle_def list_all_iff)
  ultimately have "sent = EvClientConnected cid # events cid x"
    using single_stream [of "events cid" cid x] s(2) by fastforce
  moreover from channel_split_steps [OF assms(2) server_run_reach [OF run] dist] m
  have "filter (\<lambda>e. event_connection e = cid) (sv_events st) = sent" unfolding channel_split_def by fast
  ultimately show ?thesis by simp
qed

section \<open>Properties of sessions\<close>

lemma saving_taken:
  assumes "exchange fmt bao ro rest dops pos wo sent fin"
  shows "taken pos (saving dops) u items (u @ items)"
proof -
  have "foldl (\<lambda>u x. u @ [x]) u items = u @ items" by (induction items arbitrary: u) simp_all
  with consumes_taken [OF exchange.saving_consumes [OF assms], of u items] show ?thesis by simp
qed

text \<open>
  C17: the one channel for events splits into the connections again: as
  long as no two connections have the same id, the events with the id of a connection are
  those that the connection sent, in its order, and every event has the id of a connection.
\<close>

theorem channel_projection:
  assumes "(server_step (stream_events ro wo fmt bao fs db token))\<^sup>*\<^sup>* server_start st"
    and "distinct (map fst (sv_conns st))"
  shows "list_all (\<lambda>(cid, streams, tasks, sent). filter (\<lambda>e. event_connection e = cid) (sv_events st) = sent) (sv_conns st)
    \<and> list_all (\<lambda>e. event_connection e \<in> fst ` set (sv_conns st)) (sv_events st)"
  using channel_split_steps [OF own_stream_events assms] by (simp add: channel_split_def list_all_iff)


section \<open>Two getters of the sample provider\<close>

abbreviation two_h :: hash where
  "two_h \<equiv> Hash (digest (put_collection wire_format two_collection))"

definition fresh_sink :: mem_sink where
  "fresh_sink = \<lparr>mem_sent = [], mem_finished = False\<rparr>"

text \<open>The two ends of a stream on which a getter of the sample provider asks for \<open>h\<close>.\<close>

definition sample_task_end :: "auth_token \<Rightarrow> hash \<Rightarrow> chunk_stream \<times> mem_sink" where
  "sample_task_end token h =
     ([mem_sent (snd (send_request mem_eager_ops wire_format token h fresh_sink))], fresh_sink)"

definition sample_getter_end :: "fs_ops \<Rightarrow> database \<Rightarrow> u64 \<Rightarrow> auth_token \<Rightarrow> hash \<Rightarrow> mem_sink \<times> chunk_stream" where
  "sample_getter_end fs db cid token h =
     (fresh_sink,
      [mem_sent (tx_writer (fst (snd (case sample_task_end token h of (sp, wp) \<Rightarrow>
         handle_stream chunk_ops mem_eager_ops wire_format plain_bao fs db token cid sp wp))))])"

lemma sample_pair:
  "stream_pair chunk_ops mem_eager_ops wire_format plain_bao fs concat mem_sent db token cid token h
     (sample_getter_end fs db cid token h) (sample_task_end token h)"
  by (simp add: stream_pair_def sample_getter_end_def sample_task_end_def fresh_sink_def)

lemma two_arrived:
  "\<exists>st. server_run events [Inr (1, [x]), Inr (2, [y])] st \<and> sv_closed st = None"
proof -
  have "server_run events [Inr (1, [x])] (server_start\<lparr>sv_connecting := [Inr (1, [x])]\<rparr>)"
    using server_run.arrive [OF server_run.start, of events "Inr (1, [x])"] by (simp add: server_start_def)
  from server_run.arrive [OF this, of "Inr (2, [y])"] show ?thesis
    by (intro exI [of _ "server_start\<lparr>sv_connecting := [Inr (1, [x]), Inr (2, [y])]\<rparr>"]) (simp add: server_start_def)
qed


theorem channel_projection_witness:
  "\<exists>db st. create_collection True wire_format plain_bao two_files two_sources = Ok (db, two_h)
    \<and> (server_step (stream_events chunk_ops mem_eager_ops wire_format plain_bao two_files db (AuthToken (fill32 7))))\<^sup>*\<^sup>* server_start st
    \<and> list_all (\<lambda>(cid, streams, tasks, sent). filter (\<lambda>e. event_connection e = cid) (sv_events st) = sent) (sv_conns st)"
proof -
  let ?t = "AuthToken (fill32 7)"
  obtain db where db: "create_collection True wire_format plain_bao two_files two_sources = Ok (db, two_h)"
    using two_created by blast
  let ?ev = "stream_events chunk_ops mem_eager_ops wire_format plain_bao two_files db ?t"
  let ?e = "sample_task_end ?t two_h"
  obtain st where "server_run ?ev [Inr (1, [?e]), Inr (2, [?e])] st" "sv_closed st = None"
    using two_arrived by blast
  from catches_up [OF this] obtain st' where st': "server_run ?ev [Inr (1, [?e]), Inr (2, [?e])] st'" by blast
  have "distinct (arrival_ids (sv_connecting st') @ map fst (sv_conns st'))"
    by (rule distinct_part [of _ "arrival_ids [Inr (1, [?e]), Inr (2, [?e])]"])
      (use server_run_arrived [OF st'] in \<open>simp_all add: arrived_def\<close>)
  then have "distinct (map fst (sv_conns st'))" by simp
  from channel_projection [OF server_run_reach [OF st'] this] server_run_reach [OF st'] db show ?thesis by blast
qed

end
