(* ===== verification/Progress.thy ===== *)
theory Progress
  imports Transport
begin

text \<open>
  \<^verbatim>\<open>src/progress.rs\<close>: progress events. One \<open>emitter\<close> holds what the \<^verbatim>\<open>Arc\<close> shares:
  the three atomics, the number of steps, and the values sent so far, in order. The last
  section has the atomic operations of several concurrent calls of \<^verbatim>\<open>inc\<close> interleaved.
\<close>

section \<open>The emitter\<close>

record emitter =
  em_total :: u64
  em_count :: u64
  em_steps :: u16
  em_last_step :: u16
  em_sent :: "u16 list"

definition emitter_new :: "u64 \<Rightarrow> u16 \<Rightarrow> emitter" where
  "emitter_new tot steps =
     \<lparr>em_total = tot, em_count = 0, em_steps = steps, em_last_step = 0, em_sent = []\<rparr>"

definition set_total :: "u64 \<Rightarrow> emitter \<Rightarrow> emitter" where
  "set_total v em = em\<lparr>em_total := v\<rparr>"

text \<open>The step that a count amounts to; the final cast keeps the low 16 bits.\<close>

definition step_of :: "bool \<Rightarrow> u16 \<Rightarrow> u64 \<Rightarrow> u64 \<Rightarrow> (u16, unit) outcome" where
  "step_of checks steps count tot =
     and_then (mul_u64 checks (min count tot) (ucast steps)) (\<lambda>scaled.
     and_then (div_u64 scaled tot) (\<lambda>q. Ok (ucast q)))"

definition inc :: "bool \<Rightarrow> u64 \<Rightarrow> (emitter, unit, unit) io" where
  "inc checks amount em =
     (let prev_count = em_count em;
          em1 = em\<lparr>em_count := prev_count + amount\<rparr> in
      case add_u64 checks prev_count amount of
        Err e \<Rightarrow> (Err e, em1)
      | Panic p \<Rightarrow> (Panic p, em1)
      | Ok count \<Rightarrow>
          (let tot = em_total em1 in
           case step_of checks (em_steps em1) count tot of
             Err e \<Rightarrow> (Err e, em1)
           | Panic p \<Rightarrow> (Panic p, em1)
           | Ok step \<Rightarrow>
               (let last_step = em_last_step em1; em2 = em1\<lparr>em_last_step := step\<rparr> in
                (Ok (), if step > last_step then em2\<lparr>em_sent := em_sent em2 @ [step]\<rparr> else em2))))"

fun incs :: "bool \<Rightarrow> u64 list \<Rightarrow> (emitter, unit, unit) io" where
  "incs checks [] = io_ret ()"
| "incs checks (a # as) = io_bind (inc checks a) (\<lambda>_. incs checks as)"

section \<open>Wrapping a reader\<close>

text \<open>
  \<^verbatim>\<open>AsyncRead::poll_read\<close>: the reader and the buffer it fills. The buffer is the part
  that is filled and its capacity. Progress has no error values, so the error type is
  \<open>unit\<close>; what can go wrong is a panic.
\<close>

datatype poll = Ready "io_error + unit" | Pending

record read_buf =
  rb_filled :: bytes
  rb_capacity :: nat

type_synonym 'r poll_fun = "'r \<times> read_buf \<Rightarrow> (poll, unit) outcome \<times> ('r \<times> read_buf)"

record 'r progress_reader =
  pr_emitter :: emitter
  pr_inner :: 'r

definition wrap_async_read :: "emitter \<Rightarrow> 'r \<Rightarrow> 'r progress_reader" where
  "wrap_async_read em r = \<lparr>pr_emitter = em, pr_inner = r\<rparr>"

definition progress_poll_read ::
    "bool \<Rightarrow> 'r poll_fun \<Rightarrow> 'r progress_reader poll_fun" where
  "progress_poll_read checks inner = (\<lambda>(self, buf).
     let prev_len = of_nat (length (rb_filled buf)) :: u64 in
     case inner (pr_inner self, buf) of
       (Ok (Ready val), (r, buf')) \<Rightarrow>
         (let new_len = of_nat (length (rb_filled buf')) :: u64 in
          case sub_u64 checks new_len prev_len of
            Err e \<Rightarrow> (Err e, (self\<lparr>pr_inner := r\<rparr>, buf'))
          | Panic p \<Rightarrow> (Panic p, (self\<lparr>pr_inner := r\<rparr>, buf'))
          | Ok amount \<Rightarrow>
              (case inc checks amount (pr_emitter self) of
                 (Ok _, em) \<Rightarrow> (Ok (Ready val), (\<lparr>pr_emitter = em, pr_inner = r\<rparr>, buf'))
               | (Err e, em) \<Rightarrow> (Err e, (\<lparr>pr_emitter = em, pr_inner = r\<rparr>, buf'))
               | (Panic p, em) \<Rightarrow> (Panic p, (\<lparr>pr_emitter = em, pr_inner = r\<rparr>, buf'))))
     | (Ok Pending, (r, buf')) \<Rightarrow> (Ok Pending, (self\<lparr>pr_inner := r\<rparr>, buf'))
     | (Err e, (r, buf')) \<Rightarrow> (Err e, (self\<lparr>pr_inner := r\<rparr>, buf'))
     | (Panic p, (r, buf')) \<Rightarrow> (Panic p, (self\<lparr>pr_inner := r\<rparr>, buf')))"

section \<open>The step of a count\<close>

definition exact_step :: "nat \<Rightarrow> nat \<Rightarrow> nat \<Rightarrow> nat" where
  "exact_step steps count tot = min count tot * steps div tot"

lemma exact_step_le: "0 < tot \<Longrightarrow> exact_step steps count tot \<le> steps"
  unfolding exact_step_def using div_le_mono [of "min count tot * steps" "tot * steps" tot] by simp

lemma exact_step_mono: "m \<le> n \<Longrightarrow> exact_step steps m tot \<le> exact_step steps n tot"
  unfolding exact_step_def by (intro div_le_mono mult_right_mono) auto

lemma exact_step_full: "0 < tot \<Longrightarrow> tot \<le> count \<Longrightarrow> exact_step steps count tot = steps"
  by (simp add: exact_step_def)

lemma u16_bound: "unat (w :: u16) < 2 ^ 16"
  using unsigned_less [where w = w and 'a = nat] by simp

text \<open>As long as \<open>tot * steps\<close> fits 64 bits, the machine computes the exact step.\<close>

lemma step_of_exact:
  assumes "0 < unat tot" and "unat tot * unat steps < 2 ^ 64"
  shows "step_of checks steps count tot = Ok (of_nat (exact_step (unat steps) (unat count) (unat tot)))"
    and "unat (of_nat (exact_step (unat steps) (unat count) (unat tot)) :: u16)
      = exact_step (unat steps) (unat count) (unat tot)"
proof -
  let ?s = "exact_step (unat steps) (unat count) (unat tot)"
  have min: "unat (min count tot) = min (unat count) (unat tot)"
    by (simp add: min_def word_le_nat_alt)
  have steps: "unat (ucast steps :: u64) = unat steps"
    using u16_bound [of steps] by (simp add: unsigned_ucast_eq take_bit_nat_eq_self)
  have "min (unat count) (unat tot) * unat steps \<le> unat tot * unat steps" by simp
  from le_less_trans [OF this assms(2)] have "unat (min count tot) * unat (ucast steps :: u64) < 2 ^ 64"
    by (simp only: min steps)
  note scaled = mul_u64_small [OF this, THEN conjunct1] mul_u64_small [OF this, THEN conjunct2]
  have "tot \<noteq> 0" using assms(1) by auto
  then have 1: "step_of checks steps count tot = Ok (ucast ((min count tot * ucast steps) div tot))"
    by (simp add: step_of_def div_u64_def scaled)
  have "unat ((min count tot * ucast steps) div tot) = ?s"
    by (simp add: unat_div exact_step_def min steps scaled)
  then have 2: "(min count tot * ucast steps) div tot = of_nat ?s"
    by (metis of_nat_unat ucast_id)
  have small: "?s < 2 ^ 16"
    using exact_step_le [OF assms(1), of "unat steps" "unat count"] u16_bound [of steps] by simp
  then show "unat (of_nat ?s :: u16) = ?s" by (simp add: unat_of_nat take_bit_nat_eq_self)
  have "(ucast (of_nat ?s :: u64) :: u16) = of_nat ?s"
    by (rule word_unat_eq_iff [THEN iffD2])
      (use small in \<open>simp add: unsigned_ucast_eq unat_of_nat take_bit_nat_eq_self\<close>)
  with 1 show "step_of checks steps count tot = Ok (of_nat ?s)" by (simp add: 2)
qed

section \<open>Sequential progress\<close>

text \<open>The counts after each of a list of increments, and the steps that must be sent.\<close>

fun counts :: "nat \<Rightarrow> u64 list \<Rightarrow> nat list" where
  "counts c [] = []"
| "counts c (a # as) = (c + unat a) # counts (c + unat a) as"

definition expected_steps :: "nat \<Rightarrow> nat \<Rightarrow> nat \<Rightarrow> u64 list \<Rightarrow> nat list" where
  "expected_steps steps tot c as =
     tl (remdups_adj (map (\<lambda>n. exact_step steps n tot) (c # counts c as)))"

text \<open>An emitter in the middle of a transfer: its last step is that of its count.\<close>

definition emitter_ok :: "emitter \<Rightarrow> bool" where
  "emitter_ok em \<longleftrightarrow>
     0 < unat (em_total em) \<and> unat (em_total em) * unat (em_steps em) < 2 ^ 64
     \<and> unat (em_last_step em) = exact_step (unat (em_steps em)) (unat (em_count em)) (unat (em_total em))"

lemma emitter_new_ok:
  "0 < unat tot \<Longrightarrow> unat tot * unat steps < 2 ^ 64 \<Longrightarrow> emitter_ok (emitter_new tot steps)"
  by (simp add: emitter_ok_def emitter_new_def exact_step_def)

definition next_step :: "emitter \<Rightarrow> u64 \<Rightarrow> u16" where
  "next_step em amount =
     of_nat (exact_step (unat (em_steps em)) (unat (em_count em) + unat amount) (unat (em_total em)))"

lemma inc_ok:
  assumes "emitter_ok em" and "unat (em_count em) + unat amount < 2 ^ 64"
  shows "inc checks amount em =
      (Ok (), em\<lparr>em_count := em_count em + amount, em_last_step := next_step em amount,
        em_sent := em_sent em @ (if next_step em amount > em_last_step em then [next_step em amount] else [])\<rparr>)"
    and "unat (next_step em amount) = exact_step (unat (em_steps em)) (unat (em_count em) + unat amount) (unat (em_total em))"
    and "em_last_step em \<le> next_step em amount"
proof -
  note count = add_u64_small [OF assms(2), THEN conjunct1] add_u64_small [OF assms(2), THEN conjunct2]
  have ok: "0 < unat (em_total em)" "unat (em_total em) * unat (em_steps em) < 2 ^ 64"
    using assms(1) by (simp_all add: emitter_ok_def)
  note s = step_of_exact [OF ok, where count = "em_count em + amount", unfolded count(2), folded next_step_def]
  show "inc checks amount em = (Ok (), em\<lparr>em_count := em_count em + amount, em_last_step := next_step em amount,
        em_sent := em_sent em @ (if next_step em amount > em_last_step em then [next_step em amount] else [])\<rparr>)"
    by (simp add: inc_def count s(1) Let_def)
  show "unat (next_step em amount) = exact_step (unat (em_steps em)) (unat (em_count em) + unat amount) (unat (em_total em))"
    by (rule s(2))
  then show "em_last_step em \<le> next_step em amount"
    using assms(1) exact_step_mono by (simp add: word_le_nat_alt emitter_ok_def)
qed

lemma incs_expected:
  assumes "emitter_ok em" and "unat (em_count em) + sum_list (map unat as) < 2 ^ 64"
  shows "\<exists>em'. incs checks as em = (Ok (), em') \<and> emitter_ok em'
    \<and> em_total em' = em_total em \<and> em_steps em' = em_steps em
    \<and> unat (em_count em') = unat (em_count em) + sum_list (map unat as)
    \<and> map unat (em_sent em') = map unat (em_sent em)
        @ expected_steps (unat (em_steps em)) (unat (em_total em)) (unat (em_count em)) as"
  using assms
proof (induction as arbitrary: em)
  case Nil
  then show ?case by (simp add: io_simps expected_steps_def)
next
  case (Cons a as)
  let ?ex = "\<lambda>n. exact_step (unat (em_steps em)) n (unat (em_total em))"
  have small: "unat (em_count em) + unat a < 2 ^ 64" using Cons.prems(2) by simp
  note count = add_u64_small [OF small, THEN conjunct2]
  define s where "s = next_step em a"
  let ?em1 = "em\<lparr>em_count := em_count em + a, em_last_step := s,
        em_sent := em_sent em @ (if s > em_last_step em then [s] else [])\<rparr>"
  note 1 = inc_ok(1) [OF Cons.prems(1) small, folded s_def]
    and s = inc_ok(2,3) [OF Cons.prems(1) small, folded s_def]
  have ok: "emitter_ok ?em1" using Cons.prems(1) s(1) count by (simp add: emitter_ok_def)
  have "unat (em_count ?em1) + sum_list (map unat as) < 2 ^ 64"
    using Cons.prems(2) count by simp
  from Cons.IH [OF ok this] count obtain em' where
    2: "incs checks as ?em1 = (Ok (), em')" "emitter_ok em'" "em_total em' = em_total em"
      "em_steps em' = em_steps em" "unat (em_count em') = unat (em_count em) + sum_list (map unat (a # as))"
      "map unat (em_sent em') = map unat (em_sent em @ (if s > em_last_step em then [s] else []))
        @ expected_steps (unat (em_steps em)) (unat (em_total em)) (unat (em_count em) + unat a) as"
    by auto
  have last: "unat (em_last_step em) = ?ex (unat (em_count em))"
    using Cons.prems(1) by (simp add: emitter_ok_def)
  have "s > em_last_step em \<longleftrightarrow> ?ex (unat (em_count em)) \<noteq> ?ex (unat (em_count em) + unat a)"
    using s(2) unfolding last [symmetric] s(1) [symmetric] by (auto simp: word_le_nat_alt word_less_nat_alt)
  then have "map unat (em_sent em') = map unat (em_sent em)
      @ expected_steps (unat (em_steps em)) (unat (em_total em)) (unat (em_count em)) (a # as)"
    using 2(6) by (auto simp: expected_steps_def s(1) remdups_adj_Cons split: list.splits)
  with 2 show ?case by (intro exI [of _ em']) (simp add: 1)
qed

lemma strict_remdups_adj: "sorted xs \<Longrightarrow> sorted_wrt (<) (remdups_adj (xs :: nat list))"
proof (induction xs rule: remdups_adj.induct)
  case (3 x y xs)
  then show ?case by (cases "x = y") (auto simp del: remdups_adj_Cons' intro: le_less_trans le_neq_trans)
qed simp_all

lemma hd_remdups_adj_Cons: "remdups_adj (x # xs) = x # tl (remdups_adj (x # xs))"
  by (simp add: remdups_adj_Cons split: list.splits)

lemma counts_bound: "n \<in> set (counts c as) \<Longrightarrow> c \<le> n"
  by (induction c as rule: counts.induct) auto

lemma sorted_counts: "sorted (c # counts c as)"
proof (induction c as rule: counts.induct)
  case (2 c a as)
  then show ?case using counts_bound [of _ c "a # as"] by auto
qed simp

lemma last_counts: "last (c # counts c as) = c + sum_list (map unat as)"
  by (induction c as rule: counts.induct) auto

lemma expected_steps_strict:
  "sorted_wrt (<) (exact_step steps c tot # expected_steps steps tot c as)"
proof -
  have "sorted (map (\<lambda>n. exact_step steps n tot) (c # counts c as))"
    unfolding sorted_map by (rule sorted_wrt_mono_rel [OF _ sorted_counts [of c as]]) (rule exact_step_mono)
  from strict_remdups_adj [OF this] show ?thesis
    unfolding expected_steps_def by (subst (asm) list.map(2), subst (asm) hd_remdups_adj_Cons) simp
qed

lemma expected_steps_range:
  assumes "0 < tot" and "s \<in> set (expected_steps steps tot 0 as)"
  shows "s \<in> {1..steps}"
proof -
  have "0 < s" using expected_steps_strict [of steps 0 tot as] assms(2) by (auto simp: exact_step_def)
  moreover have "s \<in> set (map (\<lambda>n. exact_step steps n tot) (0 # counts 0 as))"
    using assms(2) unfolding expected_steps_def by (metis list.set_sel(2) remdups_adj_set tl_Nil)
  ultimately show ?thesis using exact_step_le [OF assms(1)] by auto
qed

lemma expected_steps_last:
  assumes "0 < tot" and "0 < steps" and "tot \<le> sum_list (map unat as)"
  shows "expected_steps steps tot 0 as \<noteq> [] \<and> last (expected_steps steps tot 0 as) = steps"
proof -
  let ?es = "map (\<lambda>n. exact_step steps n tot) (0 # counts 0 as)"
  have "last ?es = exact_step steps (last (0 # counts 0 as)) tot" by (rule last_map) simp
  then have "last ?es = steps" using assms by (simp only: last_counts exact_step_full add_0)
  then have "last (remdups_adj ?es) = steps" by (simp only: last_remdups_adj)
  moreover have "remdups_adj ?es = 0 # expected_steps steps tot 0 as"
    unfolding expected_steps_def by (simp add: exact_step_def hd_remdups_adj_Cons [symmetric] del: remdups_adj.simps)
  ultimately have "last (0 # expected_steps steps tot 0 as) = steps" by (simp only:)
  then show ?thesis using assms(2) by (auto split: if_splits)
qed

section \<open>Properties of sequential progress\<close>

text \<open>
  As long as the bytes counted and \<open>total * steps\<close> fit 64 bits, the
  values sent are the whole steps that the count passes, each once, when it is first
  reached: increasing numbers from 1 to \<open>steps\<close>.
\<close>

theorem progress_steps:
  assumes "0 < unat tot" and "unat tot * unat steps < 2 ^ 64" and "sum_list (map unat as) < 2 ^ 64"
  shows "\<exists>em. incs checks as (emitter_new tot steps) = (Ok (), em)
    \<and> map unat (em_sent em) = expected_steps (unat steps) (unat tot) 0 as
    \<and> sorted_wrt (<) (em_sent em) \<and> set (map unat (em_sent em)) \<subseteq> {1..unat steps}"
proof -
  from incs_expected [OF emitter_new_ok [OF assms(1,2)], of as checks] assms(3) obtain em where
    em: "incs checks as (emitter_new tot steps) = (Ok (), em)"
      "map unat (em_sent em) = expected_steps (unat steps) (unat tot) 0 as"
    by (auto simp: emitter_new_def)
  have "sorted_wrt (<) (map unat (em_sent em))"
    unfolding em(2) using expected_steps_strict [of "unat steps" 0 "unat tot" as] by simp
  then have "sorted_wrt (<) (em_sent em)" unfolding sorted_wrt_map word_less_nat_alt .
  moreover have "set (map unat (em_sent em)) \<subseteq> {1..unat steps}"
    unfolding em(2) using expected_steps_range [OF assms(1)] by blast
  ultimately show ?thesis using em by blast
qed

text \<open>
  Once the bytes counted reach the total, the last value sent is
  \<open>steps\<close>, however the bytes were split into increments.
\<close>

theorem progress_completes:
  assumes "0 < unat tot" and "0 < unat steps" and "unat tot * unat steps < 2 ^ 64"
    and "unat tot \<le> sum_list (map unat as)" and "sum_list (map unat as) < 2 ^ 64"
  shows "\<exists>em. incs checks as (emitter_new tot steps) = (Ok (), em)
    \<and> em_sent em \<noteq> [] \<and> last (em_sent em) = steps"
proof -
  from incs_expected [OF emitter_new_ok [OF assms(1,3)], of as checks] assms(5) obtain em where
    em: "incs checks as (emitter_new tot steps) = (Ok (), em)"
      "map unat (em_sent em) = expected_steps (unat steps) (unat tot) 0 as"
    by (auto simp: emitter_new_def)
  with expected_steps_last [OF assms(1,2,4)] have "em_sent em \<noteq> []" "unat (last (em_sent em)) = unat steps"
    by (metis list.map_disc_iff, metis last_map list.map_disc_iff)
  with em(1) show ?thesis by (auto simp: word_unat_eq_iff)
qed

text \<open>
  An emitter that is made with a total of 0 (an empty transfer)
  panics with a division by zero at its first increment, whatever the amount and the
  number of steps; the count has been advanced by then.
\<close>

theorem progress_zero_total:
  "inc checks amount (emitter_new 0 steps) = (Panic DivideByZero, (emitter_new 0 steps)\<lparr>em_count := amount\<rparr>)"
  using unsigned_less [where w = amount and 'a = nat]
  by (simp add: inc_def emitter_new_def step_of_def add_u64_def mul_u64_def div_u64_def Let_def not_le)

theorem progress_steps_witness:
  "\<exists>em. incs True [1, 9, 30, 120] (emitter_new 160 16) = (Ok (), em) \<and> map unat (em_sent em) = [1, 4, 16]"
  using progress_steps [of 160 16 "[1, 9, 30, 120]" True]
  by (auto simp: expected_steps_def exact_step_def)

theorem progress_completes_witness:
  "\<exists>em. incs True [100, 100] (emitter_new 160 16) = (Ok (), em) \<and> last (em_sent em) = 16"
  using progress_completes [of 160 16 "[100, 100]" True] by auto

section \<open>Readers\<close>

text \<open>
  The contract of \<^verbatim>\<open>AsyncRead\<close>: a poll only ever appends to the filled part, within the
  capacity, and a pending one leaves the buffer alone.
\<close>

locale async_read =
  fixes poll_read :: "'r poll_fun"
  assumes poll_extends:
      "poll_read (r, buf) = (Ok p, (r', buf')) \<Longrightarrow> length (rb_filled buf) \<le> rb_capacity buf \<Longrightarrow>
       \<exists>bs. rb_filled buf' = rb_filled buf @ bs \<and> rb_capacity buf' = rb_capacity buf
         \<and> length (rb_filled buf') \<le> rb_capacity buf'"
    and poll_pending: "poll_read (r, buf) = (Ok Pending, (r', buf')) \<Longrightarrow> buf' = buf"
begin

lemma progress_extends:
  assumes "progress_poll_read checks poll_read (self, buf) = (Ok p, (self', buf'))"
  shows "\<exists>r'. poll_read (pr_inner self, buf) = (Ok p, (r', buf')) \<and> pr_inner self' = r'"
  using assms
  by (auto simp: progress_poll_read_def Let_def split: prod.splits outcome.splits poll.splits)

text \<open>A wrapped reader is a reader: wrappers can be stacked.\<close>

lemma wrapped_reader: "async_read (progress_poll_read checks poll_read)"
proof
  fix self buf p self' buf'
  assume "progress_poll_read checks poll_read (self, buf) = (Ok p, (self', buf'))"
    and le: "length (rb_filled buf) \<le> rb_capacity buf"
  from progress_extends [OF this(1)] obtain r' where "poll_read (pr_inner self, buf) = (Ok p, (r', buf'))"
    by blast
  from poll_extends [OF this le]
  show "\<exists>bs. rb_filled buf' = rb_filled buf @ bs \<and> rb_capacity buf' = rb_capacity buf
      \<and> length (rb_filled buf') \<le> rb_capacity buf'" .
next
  fix self buf self' buf'
  assume "progress_poll_read checks poll_read (self, buf) = (Ok Pending, (self', buf'))"
  from progress_extends [OF this] poll_pending show "buf' = buf" by blast
qed

end

text \<open>\<^verbatim>\<open>&[u8]\<close> as a reader.\<close>

definition slice_poll_read :: "bytes poll_fun" where
  "slice_poll_read = (\<lambda>(data, buf).
     let n = min (length data) (rb_capacity buf - length (rb_filled buf)) in
     (Ok (Ready (Inr ())), (drop n data, buf\<lparr>rb_filled := rb_filled buf @ take n data\<rparr>)))"

interpretation slice: async_read slice_poll_read
  by unfold_locales (auto simp: slice_poll_read_def Let_def)

interpretation wrapped_slice: async_read "progress_poll_read checks slice_poll_read" for checks
  by (rule slice.wrapped_reader)



section \<open>Concurrent increments\<close>

text \<open>
  Several threads call \<^verbatim>\<open>inc\<close> on clones of one emitter. A thread is at one of the atomic
  operations of the function: the \<^verbatim>\<open>fetch_add\<close>, the load of the total, the \<^verbatim>\<open>swap\<close>, the
  sending. Each atomic is a single location and every thread uses it once, so interleaving
  the operations covers the relaxed ordering as long as the total is not changed.
\<close>

datatype inc_pc =
    Entered u64
  | Counted u64
  | Loaded u64 u64
  | Swapped u16 u16
  | Returned
  | Unwound panic

definition inc_atomic :: "bool \<Rightarrow> inc_pc \<Rightarrow> emitter \<Rightarrow> (inc_pc \<times> emitter) option" where
  "inc_atomic checks pc em =
     (case pc of
        Entered amount \<Rightarrow>
          (case add_u64 checks (em_count em) amount :: (u64, unit) outcome of
             Ok count \<Rightarrow> Some (Counted count, em\<lparr>em_count := em_count em + amount\<rparr>)
           | Panic p \<Rightarrow> Some (Unwound p, em\<lparr>em_count := em_count em + amount\<rparr>)
           | Err e \<Rightarrow> None)
      | Counted count \<Rightarrow> Some (Loaded count (em_total em), em)
      | Loaded count tot \<Rightarrow>
          (case step_of checks (em_steps em) count tot of
             Ok step \<Rightarrow> Some (Swapped step (em_last_step em), em\<lparr>em_last_step := step\<rparr>)
           | Panic p \<Rightarrow> Some (Unwound p, em)
           | Err e \<Rightarrow> None)
      | Swapped step last_step \<Rightarrow>
          Some (Returned, if step > last_step then em\<lparr>em_sent := em_sent em @ [step]\<rparr> else em)
      | Returned \<Rightarrow> None
      | Unwound p \<Rightarrow> None)"

inductive inc_step :: "bool \<Rightarrow> emitter \<times> inc_pc list \<Rightarrow> emitter \<times> inc_pc list \<Rightarrow> bool" for checks where
  "i < length pcs \<Longrightarrow> inc_atomic checks (pcs ! i) em = Some (pc, em') \<Longrightarrow>
   inc_step checks (em, pcs) (em', pcs[i := pc])"

inductive_cases inc_stepE: "inc_step checks (em, pcs) st"

text \<open>Run alone, the atomic operations are the sequential function.\<close>

fun run_atomics :: "nat \<Rightarrow> bool \<Rightarrow> inc_pc \<Rightarrow> emitter \<Rightarrow> inc_pc \<times> emitter" where
  "run_atomics 0 checks pc em = (pc, em)"
| "run_atomics (Suc n) checks pc em =
     (case inc_atomic checks pc em of None \<Rightarrow> (pc, em) | Some (pc', em') \<Rightarrow> run_atomics n checks pc' em')"

definition returned_as :: "(unit, unit) outcome \<Rightarrow> inc_pc" where
  "returned_as r = (case r of Panic p \<Rightarrow> Unwound p | _ \<Rightarrow> Returned)"

lemma add_u64_no_err [simp]: "add_u64 checks a b \<noteq> Err e"
  by (simp add: add_u64_def)

lemma step_of_no_err [simp]: "step_of checks steps count tot \<noteq> Err e"
  by (simp add: step_of_def mul_u64_def div_u64_def)

lemma run_atomics_inc:
  "inc checks amount em = (r, em') \<Longrightarrow> run_atomics 4 checks (Entered amount) em = (returned_as r, em')"
  by (auto simp: numeral_eq_Suc inc_atomic_def inc_def Let_def returned_as_def split: outcome.splits if_splits)

section \<open>What holds in every interleaving\<close>

fun to_count :: "inc_pc \<Rightarrow> nat" where
  "to_count (Entered amount) = unat amount"
| "to_count pc = 0"

definition pc_ok :: "u64 \<Rightarrow> u16 \<Rightarrow> nat \<Rightarrow> inc_pc \<Rightarrow> bool" where
  "pc_ok tot steps count pc \<longleftrightarrow>
     (case pc of
        Counted c \<Rightarrow> unat c \<le> count
      | Loaded c t \<Rightarrow> unat c \<le> count \<and> t = tot
      | Swapped s l \<Rightarrow> unat s \<le> exact_step (unat steps) count (unat tot)
      | Unwound p \<Rightarrow> False
      | _ \<Rightarrow> True)"

definition will_send :: "u16 \<Rightarrow> inc_pc \<Rightarrow> bool" where
  "will_send steps pc \<longleftrightarrow> (\<exists>l. pc = Swapped steps l \<and> l < steps)"

definition at_total :: "u64 \<Rightarrow> inc_pc \<Rightarrow> bool" where
  "at_total tot pc \<longleftrightarrow>
     (case pc of Counted c \<Rightarrow> tot \<le> c | Loaded c t \<Rightarrow> tot \<le> c | _ \<Rightarrow> False)"

definition inc_inv :: "u64 \<Rightarrow> u16 \<Rightarrow> nat \<Rightarrow> emitter \<times> inc_pc list \<Rightarrow> bool" where
  "inc_inv tot steps goal = (\<lambda>(em, pcs).
     em_total em = tot \<and> em_steps em = steps
     \<and> unat (em_count em) + sum_list (map to_count pcs) = goal
     \<and> (\<forall>pc \<in> set pcs. pc_ok tot steps (unat (em_count em)) pc)
     \<and> (\<forall>s \<in> set (em_sent em). 0 < s \<and> unat s \<le> exact_step (unat steps) (unat (em_count em)) (unat tot))
     \<and> em_last_step em \<le> steps
     \<and> (em_last_step em = steps \<longrightarrow> steps = 0 \<or> steps \<in> set (em_sent em) \<or> (\<exists>pc \<in> set pcs. will_send steps pc))
     \<and> (tot \<le> em_count em \<longrightarrow> steps = 0 \<or> steps \<in> set (em_sent em)
         \<or> (\<exists>pc \<in> set pcs. will_send steps pc \<or> at_total tot pc)))"

lemma set_update_other: "x \<in> set xs \<Longrightarrow> x \<noteq> xs ! i \<Longrightarrow> x \<in> set (xs[i := y])"
  by (metis in_set_conv_nth length_list_update nth_list_update_neq)

lemma Bex_update_other: "\<exists>x \<in> set xs. P x \<Longrightarrow> \<not> P (xs ! i) \<Longrightarrow> \<exists>x \<in> set (xs[i := y]). P x"
  by (metis set_update_other)

lemma Ball_update: "\<forall>x \<in> set xs. P x \<Longrightarrow> P y \<Longrightarrow> \<forall>x \<in> set (xs[i := y]). P x"
  by (metis insert_iff set_update_subset_insert subsetD)

lemma pc_ok_mono: "pc_ok tot steps m pc \<Longrightarrow> m \<le> n \<Longrightarrow> pc_ok tot steps n pc"
  using exact_step_mono [of m n "unat steps" "unat tot"]
  by (auto simp: pc_ok_def split: inc_pc.splits)

lemma to_count_update:
  "i < length pcs \<Longrightarrow> sum_list (map to_count (pcs[i := pc])) + to_count (pcs ! i) =
   sum_list (map to_count pcs) + to_count pc"
  using elem_le_sum_list [of i "map to_count pcs"] by (simp add: map_update sum_list_update)

lemma inc_inv_start:
  "tot \<noteq> 0 \<Longrightarrow> inc_inv tot steps (sum_list (map unat as)) (emitter_new tot steps, map Entered as)"
  by (auto simp: inc_inv_def emitter_new_def pc_ok_def comp_def)

lemma pc_simps [simp]:
  "at_total tot (Counted c) = (tot \<le> c)" "at_total tot (Loaded c t) = (tot \<le> c)"
  "at_total tot (Entered a) = False" "at_total tot (Swapped s l) = False" "at_total tot Returned = False"
  "will_send steps (Entered a) = False" "will_send steps (Counted c) = False" "will_send steps (Loaded c t) = False"
  "will_send steps (Swapped s l) = (s = steps \<and> l < steps)" "will_send steps Returned = False"
  "pc_ok tot steps n (Entered a) = True" "pc_ok tot steps n (Counted c) = (unat c \<le> n)"
  "pc_ok tot steps n (Loaded c t) = (unat c \<le> n \<and> t = tot)"
  "pc_ok tot steps n (Swapped s l) = (unat s \<le> exact_step (unat steps) n (unat tot))"
  "pc_ok tot steps n Returned = True" "pc_ok tot steps n (Unwound p) = False"
  by (auto simp: at_total_def will_send_def pc_ok_def)

lemma inc_inv_pc: "inc_inv tot steps goal (em, pcs) \<Longrightarrow> i < length pcs \<Longrightarrow> pc_ok tot steps (unat (em_count em)) (pcs ! i)"
  by (simp add: inc_inv_def)

lemma inc_inv_fields: "inc_inv tot steps goal (em, pcs) \<Longrightarrow> em_total em = tot \<and> em_steps em = steps"
  by (simp add: inc_inv_def)

text \<open>Each atomic operation keeps the invariant.\<close>

lemma inc_inv_entered:
  assumes inv: "inc_inv tot steps goal (em, pcs)" and goal: "goal < 2 ^ 64"
    and i: "i < length pcs" "pcs ! i = Entered a"
  shows "add_u64 checks (em_count em) a = (Ok (em_count em + a) :: (u64, unit) outcome)"
    and "inc_inv tot steps goal (em\<lparr>em_count := em_count em + a\<rparr>, pcs[i := Counted (em_count em + a)])"
proof -
  have "unat a \<le> sum_list (map to_count pcs)"
    using elem_le_sum_list [of i "map to_count pcs"] i by simp
  with inv goal have small: "unat (em_count em) + unat a < 2 ^ 64" by (simp add: inc_inv_def)
  show "add_u64 checks (em_count em) a = (Ok (em_count em + a) :: (u64, unit) outcome)"
    using add_u64_small [OF small] by blast
  have count: "unat (em_count em + a) = unat (em_count em) + unat a"
    using add_u64_small [OF small] by blast
  have sum: "sum_list (map to_count (pcs[i := Counted (em_count em + a)])) + unat a = sum_list (map to_count pcs)"
    using to_count_update [OF i(1), of "Counted (em_count em + a)"] i(2) by simp
  have ok: "\<forall>pc \<in> set (pcs[i := Counted (em_count em + a)]). pc_ok tot steps (unat (em_count em + a)) pc"
    by (rule Ball_update)
      (use inv in \<open>auto simp: inc_inv_def count intro: pc_ok_mono\<close>)
  have sent: "\<forall>s \<in> set (em_sent em). 0 < s \<and> unat s \<le> exact_step (unat steps) (unat (em_count em + a)) (unat tot)"
    using inv exact_step_mono [of "unat (em_count em)" "unat (em_count em + a)" "unat steps" "unat tot"]
    by (fastforce simp: inc_inv_def count)
  have mem: "Counted (em_count em + a) \<in> set (pcs[i := Counted (em_count em + a)])"
    using i(1) by (rule set_update_memI)
  have send: "\<exists>pc \<in> set (pcs[i := Counted (em_count em + a)]). will_send steps pc" if "\<exists>pc \<in> set pcs. will_send steps pc"
    using that by (rule Bex_update_other) (simp add: i(2))
  have reach: "\<exists>pc \<in> set (pcs[i := Counted (em_count em + a)]). will_send steps pc \<or> at_total tot pc"
    if "tot \<le> em_count em + a"
    using mem that by (metis pc_simps(1))
  show "inc_inv tot steps goal (em\<lparr>em_count := em_count em + a\<rparr>, pcs[i := Counted (em_count em + a)])"
    using inv ok sent count sum send reach unfolding inc_inv_def by auto
qed

lemma inc_inv_counted:
  assumes inv: "inc_inv tot steps goal (em, pcs)" and i: "i < length pcs" "pcs ! i = Counted c"
  shows "inc_inv tot steps goal (em, pcs[i := Loaded c (em_total em)])"
proof -
  have tot: "em_total em = tot" using inv by (simp add: inc_inv_def)
  have mem: "Loaded c tot \<in> set (pcs[i := Loaded c tot])" using i(1) by (rule set_update_memI)
  have "unat c \<le> unat (em_count em)" using inc_inv_pc [OF inv i(1)] by (simp add: i(2))
  then have ok: "\<forall>pc \<in> set (pcs[i := Loaded c tot]). pc_ok tot steps (unat (em_count em)) pc"
    using inv by (intro Ball_update) (auto simp: inc_inv_def)
  have sum: "sum_list (map to_count (pcs[i := Loaded c tot])) = sum_list (map to_count pcs)"
    using to_count_update [OF i(1), of "Loaded c tot"] i(2) by simp
  have send: "\<exists>pc \<in> set (pcs[i := Loaded c tot]). will_send steps pc" if "\<exists>pc \<in> set pcs. will_send steps pc"
    using that by (rule Bex_update_other) (simp add: i(2))
  have reach: "\<exists>pc \<in> set (pcs[i := Loaded c tot]). will_send steps pc \<or> at_total tot pc"
    if "\<exists>pc \<in> set pcs. will_send steps pc \<or> at_total tot pc"
  proof (cases "tot \<le> c")
    case True
    with mem show ?thesis by (metis pc_simps(2))
  next
    case False
    with that show ?thesis by (intro Bex_update_other) (simp_all add: i(2))
  qed
  from inv ok sum send reach show ?thesis unfolding inc_inv_def tot by auto
qed

lemma inc_inv_loaded:
  assumes inv: "inc_inv tot steps goal (em, pcs)" and tot: "0 < unat tot" "unat tot * unat steps < 2 ^ 64"
    and i: "i < length pcs" "pcs ! i = Loaded c t"
  shows "\<exists>s. step_of checks (em_steps em) c t = Ok s
    \<and> inc_inv tot steps goal (em\<lparr>em_last_step := s\<rparr>, pcs[i := Swapped s (em_last_step em)])"
proof -
  have pc: "unat c \<le> unat (em_count em)" "t = tot" "em_steps em = steps"
    using inc_inv_pc [OF inv i(1)] inc_inv_fields [OF inv] by (simp_all add: i(2))
  define s where "s = (of_nat (exact_step (unat steps) (unat c) (unat tot)) :: u16)"
  note s = step_of_exact(1) [OF tot, of checks c, folded s_def] step_of_exact(2) [OF tot, of c, folded s_def]
  have le: "unat s \<le> exact_step (unat steps) (unat (em_count em)) (unat tot)"
    unfolding s(2) by (rule exact_step_mono [OF pc(1)])
  have s_le: "s \<le> steps" using s(2) exact_step_le [OF tot(1)] by (simp add: word_le_nat_alt)
  let ?pcs = "pcs[i := Swapped s (em_last_step em)]"
  have mem: "Swapped s (em_last_step em) \<in> set ?pcs" using i(1) by (rule set_update_memI)
  have ok: "\<forall>pc \<in> set ?pcs. pc_ok tot steps (unat (em_count em)) pc"
    using inv le by (intro Ball_update) (auto simp: inc_inv_def)
  have sum: "sum_list (map to_count ?pcs) = sum_list (map to_count pcs)"
    using to_count_update [OF i(1), of "Swapped s (em_last_step em)"] i(2) by simp
  have send: "\<exists>pc \<in> set ?pcs. will_send steps pc" if "\<exists>pc \<in> set pcs. will_send steps pc"
    using that by (rule Bex_update_other) (simp add: i(2))
  have full: "steps = 0 \<or> steps \<in> set (em_sent em) \<or> (\<exists>pc \<in> set ?pcs. will_send steps pc)" if "s = steps"
  proof (cases "em_last_step em = steps")
    case True
    with inv send show ?thesis by (auto simp: inc_inv_def)
  next
    case False
    with inv have "em_last_step em < steps" by (auto simp: inc_inv_def order.strict_iff_order)
    with mem that show ?thesis by (metis pc_simps(9))
  qed
  have reach: "steps = 0 \<or> steps \<in> set (em_sent em) \<or> (\<exists>pc \<in> set ?pcs. will_send steps pc \<or> at_total tot pc)"
    if "\<exists>pc \<in> set pcs. will_send steps pc \<or> at_total tot pc"
  proof (cases "tot \<le> c")
    case True
    then have "s = steps" using s(2) exact_step_full [OF tot(1)] by (simp add: word_unat_eq_iff word_le_nat_alt)
    from full [OF this] show ?thesis by blast
  next
    case False
    then have "\<exists>pc \<in> set ?pcs. will_send steps pc \<or> at_total tot pc"
      using that by (intro Bex_update_other) (simp_all add: i(2))
    then show ?thesis by blast
  qed
  have "inc_inv tot steps goal (em\<lparr>em_last_step := s\<rparr>, ?pcs)"
    using inv ok sum full reach s_le unfolding inc_inv_def by auto
  then show ?thesis using s(1) pc by blast
qed

lemma inc_inv_swapped:
  assumes inv: "inc_inv tot steps goal (em, pcs)" and i: "i < length pcs" "pcs ! i = Swapped s l"
  shows "inc_inv tot steps goal (if s > l then em\<lparr>em_sent := em_sent em @ [s]\<rparr> else em, pcs[i := Returned])"
proof -
  have le: "unat s \<le> exact_step (unat steps) (unat (em_count em)) (unat tot)"
    using inc_inv_pc [OF inv i(1)] by (simp add: i(2))
  let ?pcs = "pcs[i := Returned]"
  have ok: "\<forall>pc \<in> set ?pcs. pc_ok tot steps (unat (em_count em)) pc"
    using inv by (intro Ball_update) (auto simp: inc_inv_def)
  have sum: "sum_list (map to_count ?pcs) = sum_list (map to_count pcs)"
    using to_count_update [OF i(1), of Returned] i(2) by simp
  have send: "(\<exists>pc \<in> set ?pcs. will_send steps pc) \<or> (s = steps \<and> l < s)" if "\<exists>pc \<in> set pcs. will_send steps pc"
    using that Bex_update_other [of pcs "will_send steps" i Returned] i(2) by auto
  have reach: "(\<exists>pc \<in> set ?pcs. will_send steps pc \<or> at_total tot pc) \<or> (s = steps \<and> l < s)"
    if "\<exists>pc \<in> set pcs. will_send steps pc \<or> at_total tot pc"
    using that Bex_update_other [of pcs "\<lambda>pc. will_send steps pc \<or> at_total tot pc" i Returned] i(2)
    by auto
  show ?thesis
  proof (cases "l < s")
    case True
    then have "0 < s" by (metis le_less_trans word_zero_le)
    with True inv ok sum le send reach show ?thesis unfolding inc_inv_def by auto
  next
    case False
    with inv ok sum send reach show ?thesis unfolding inc_inv_def by auto
  qed
qed

lemma inc_inv_step:
  assumes "inc_step checks st st'" and "inc_inv tot steps goal st" and "goal < 2 ^ 64"
    and tot: "0 < unat tot" "unat tot * unat steps < 2 ^ 64"
  shows "inc_inv tot steps goal st'"
  using assms(1)
proof (cases rule: inc_step.cases)
  case (1 i pcs em pc em')
  with assms(2) have inv: "inc_inv tot steps goal (em, pcs)" by simp
  note at = 1(4)
  show ?thesis
  proof (cases "pcs ! i")
    case (Entered a)
    with at inc_inv_entered [OF inv assms(3) 1(3) this] 1(2) show ?thesis by (simp add: inc_atomic_def)
  next
    case (Counted c)
    with at inc_inv_counted [OF inv 1(3) this] 1(2) show ?thesis by (auto simp: inc_atomic_def)
  next
    case (Loaded c t)
    with at inc_inv_loaded [OF inv tot 1(3) this, of checks] 1(2) show ?thesis by (auto simp: inc_atomic_def)
  next
    case (Swapped s l)
    with at inc_inv_swapped [OF inv 1(3) this] 1(2) show ?thesis by (simp add: inc_atomic_def)
  qed (use at in \<open>simp_all add: inc_atomic_def\<close>)
qed

lemma inc_inv_steps:
  assumes "(inc_step checks)\<^sup>*\<^sup>* st st'" and "inc_inv tot steps goal st" and "goal < 2 ^ 64"
    and "0 < unat tot" "unat tot * unat steps < 2 ^ 64"
  shows "inc_inv tot steps goal st'"
  using assms(1,2)
proof (induction rule: rtranclp_induct)
  case (step y z)
  from inc_inv_step [OF step(2) step(3) assms(3-5)] step(4) show ?case by blast
qed


section \<open>Properties of concurrent progress\<close>


text \<open>
  When all increments have returned and together they
  reach the total, the final value \<open>steps\<close> has been sent, in every interleaving.
\<close>

theorem concurrent_progress_completes:
  assumes "(inc_step checks)\<^sup>*\<^sup>* (emitter_new tot steps, map Entered as) (em, pcs)"
    and "0 < unat tot" and "0 < unat steps" and "unat tot * unat steps < 2 ^ 64"
    and "unat tot \<le> sum_list (map unat as)" and "sum_list (map unat as) < 2 ^ 64"
    and "set pcs \<subseteq> {Returned}"
  shows "steps \<in> set (em_sent em)"
proof -
  have "tot \<noteq> 0" using assms(2) by auto
  from inc_inv_steps [OF assms(1) inc_inv_start [OF this] assms(6,2,4)]
  have inv: "inc_inv tot steps (sum_list (map unat as)) (em, pcs)" .
  have ret: "pc = Returned" if "pc \<in> set pcs" for pc using assms(7) that by blast
  then have "map to_count pcs = map (\<lambda>_. 0) pcs" by (intro map_cong refl) (metis to_count.simps(5))
  then have "sum_list (map to_count pcs) = 0" by (simp only: sum_list_0)
  with inv assms(5) have "tot \<le> em_count em" by (simp add: inc_inv_def word_le_nat_alt)
  moreover have "steps \<noteq> 0" using assms(3) by auto
  ultimately show ?thesis using inv ret unfolding inc_inv_def by fastforce
qed

text \<open>A schedule: which thread takes the next atomic operation.\<close>

fun run_schedule :: "bool \<Rightarrow> nat list \<Rightarrow> emitter \<times> inc_pc list \<Rightarrow> emitter \<times> inc_pc list" where
  "run_schedule checks [] st = st"
| "run_schedule checks (i # is) (em, pcs) =
     (if i < length pcs then
        (case inc_atomic checks (pcs ! i) em of
           Some (pc, em') \<Rightarrow> run_schedule checks is (em', pcs[i := pc])
         | None \<Rightarrow> run_schedule checks is (em, pcs))
      else run_schedule checks is (em, pcs))"

lemmas schedule_simps = inc_atomic_def emitter_new_def step_of_def add_u64_def mul_u64_def div_u64_def

lemma run_schedule_steps: "(inc_step checks)\<^sup>*\<^sup>* st (run_schedule checks is st)"
proof (induction "is" arbitrary: st)
  case (Cons i "is")
  obtain em pcs where st: "st = (em, pcs)" by fastforce
  show ?case
  proof (cases "i < length pcs \<and> inc_atomic checks (pcs ! i) em \<noteq> None")
    case True
    then obtain pc em' where a: "i < length pcs" "inc_atomic checks (pcs ! i) em = Some (pc, em')" by auto
    from inc_step.intros [of i pcs checks em pc em', OF a] Cons.IH [of "(em', pcs[i := pc])"] a show ?thesis
      unfolding st by (auto intro: converse_rtranclp_into_rtranclp)
  qed (use Cons.IH [of st] st in \<open>auto split: option.splits\<close>)
qed simp

text \<open>
  Across threads the values are not always incremental: three
  concurrent increments can send the same step twice, and can send a lower step after a
  higher one (the \<^verbatim>\<open>swap\<close> lets a thread that is behind lower the last step).
\<close>

theorem concurrent_progress_repeats:
  "\<exists>em pcs em' pcs'.
     (inc_step True)\<^sup>*\<^sup>* (emitter_new 8 4, map Entered [2, 2, 1]) (em, pcs) \<and> em_sent em = [2, 2]
   \<and> (inc_step True)\<^sup>*\<^sup>* (emitter_new 8 4, map Entered [2, 2, 2]) (em', pcs') \<and> em_sent em' = [3, 2]"
proof -
  let ?a = "run_schedule True [0, 1, 2, 1, 1, 1, 0, 0, 0, 2, 2, 2] (emitter_new 8 4, map Entered [2, 2, 1])"
  let ?b = "run_schedule True [0, 1, 2, 2, 2, 2, 0, 0, 0, 1, 1, 1] (emitter_new 8 4, map Entered [2, 2, 2])"
  have "em_sent (fst ?a) = [2, 2]" "em_sent (fst ?b) = [3, 2]" by (simp_all add: schedule_simps)
  then show ?thesis
    using run_schedule_steps [of True] by (metis prod.collapse)
qed


theorem concurrent_progress_completes_witness:
  "4 \<in> set (em_sent (fst (run_schedule True [0, 1, 1, 1, 1, 0, 0, 0] (emitter_new 8 4, map Entered [2, 6]))))"
proof -
  let ?st = "run_schedule True [0, 1, 1, 1, 1, 0, 0, 0] (emitter_new 8 4, map Entered [2, 6])"
  have ret: "snd ?st = [Returned, Returned]" by (simp add: schedule_simps)
  have "(inc_step True)\<^sup>*\<^sup>* (emitter_new 8 4, map Entered [2, 6]) (fst ?st, snd ?st)"
    by (metis run_schedule_steps prod.collapse)
  from concurrent_progress_completes [OF this] ret show ?thesis by simp
qed

end
