(* ===== verification/Watching.thy ===== *)
theory Watching
  imports Progress
begin

text \<open>
  \<^verbatim>\<open>src/progress.rs\<close> as a caller uses it: subscribers of the broadcast channel, a total that is
  set when it becomes known, copying a stream through a wrapped reader, and the tests of the
  file as functions. tokio's broadcast channel is a parameter; the locale says what its
  documentation promises to a receiver.
\<close>

section \<open>The broadcast channel\<close>

datatype recv_error = ChannelEmpty | Lagged nat

text \<open>
  \<^verbatim>\<open>try_recv\<close> of a channel with a capacity, to which a list of values has been sent, by a
  receiver that has taken all values before a position. A receiver that is behind by more
  than the capacity may be told how many values it has missed.
\<close>

type_synonym 'v try_recv = "nat \<Rightarrow> 'v list \<Rightarrow> nat \<Rightarrow> (recv_error + 'v) \<times> nat"

locale broadcast =
  fixes try_recv :: "'v try_recv"
  assumes recv_empty: "try_recv cap sent (length sent) = (Inl ChannelEmpty, length sent)"
    and recv_next:
      "at < length sent \<Longrightarrow> length sent - at \<le> cap \<Longrightarrow> try_recv cap sent at = (Inr (sent ! at), Suc at)"
    and recv_behind:
      "cap < length sent - at \<Longrightarrow>
       try_recv cap sent at = (Inr (sent ! at), Suc at)
       \<or> (\<exists>n. 0 < n \<and> at + n \<le> length sent \<and> try_recv cap sent at = (Inl (Lagged n), at + n))"

definition exact_try_recv :: "'v try_recv" where
  "exact_try_recv cap sent at =
     (if at \<ge> length sent then (Inl ChannelEmpty, at)
      else if length sent - at \<le> cap then (Inr (sent ! at), Suc at)
      else (Inl (Lagged (length sent - at - cap)), length sent - cap))"

interpretation exact_channel: broadcast exact_try_recv
proof
  fix cap "at" and sent :: "'v list"
  assume "cap < length sent - at"
  then show "exact_try_recv cap sent at = (Inr (sent ! at), Suc at)
    \<or> (\<exists>n. 0 < n \<and> at + n \<le> length sent \<and> exact_try_recv cap sent at = (Inl (Lagged n), at + n))"
    by (intro disjI2 exI [of _ "length sent - at - cap"]) (auto simp: exact_try_recv_def)
qed (simp_all add: exact_try_recv_def)

text \<open>Taking values until there is an error, as \<^verbatim>\<open>while let Ok(val) = rx.try_recv()\<close>.\<close>

partial_function (option) recv_all :: "'v try_recv \<Rightarrow> nat \<Rightarrow> 'v list \<Rightarrow> nat \<Rightarrow> 'v list \<Rightarrow> ('v list \<times> nat) option" where
  "recv_all try_recv cap sent at acc =
     (case try_recv cap sent at of
        (Inl e, at') \<Rightarrow> Some (acc, at')
      | (Inr v, at') \<Rightarrow> recv_all try_recv cap sent at' (acc @ [v]))"

context broadcast
begin

text \<open>A receiver that has not fallen behind gets all that was sent since its last value.\<close>

lemma recv_all_complete:
  assumes "at \<le> length sent" and "length sent - at \<le> cap"
  shows "recv_all try_recv cap sent at acc = Some (acc @ drop at sent, length sent)"
  using assms
proof (induction "length sent - at" arbitrary: "at" acc)
  case 0
  then have "at = length sent" by simp
  then show ?case by (simp add: recv_all.simps recv_empty)
next
  case (Suc n)
  then have lt: "at < length sent" by simp
  have "recv_all try_recv cap sent (Suc at) (acc @ [sent ! at]) = Some ((acc @ [sent ! at]) @ drop (Suc at) sent, length sent)"
    by (rule Suc.hyps(1)) (use Suc lt in simp_all)
  with lt show ?case
    by (subst recv_all.simps) (simp add: recv_next [OF lt Suc.prems(2)] Cons_nth_drop_Suc)
qed

end

section \<open>The handle of an emitter\<close>

text \<open>
  \<^verbatim>\<open>ProgressEmitter\<close> is a reference to the shared emitter; its methods are those of the inner
  one. A subscriber receives the values that are sent from then on.
\<close>

definition progress_capacity :: nat where
  "progress_capacity = 16"

definition progress_subscribe :: "emitter \<Rightarrow> nat" where
  "progress_subscribe em = length (em_sent em)"

definition progress_inc :: "bool \<Rightarrow> u64 \<Rightarrow> (emitter, unit, unit) io" where
  [simp]: "progress_inc checks amount em = inc checks amount em"

definition progress_set_total :: "u64 \<Rightarrow> emitter \<Rightarrow> emitter" where
  [simp]: "progress_set_total v em = set_total v em"

section \<open>A total that changes\<close>

datatype progress_op = IncBy u64 | SetTotal u64

fun progress_ops :: "bool \<Rightarrow> progress_op list \<Rightarrow> (emitter, unit, unit) io" where
  "progress_ops checks [] = io_ret ()"
| "progress_ops checks (IncBy a # ops) = io_bind (progress_inc checks a) (\<lambda>_. progress_ops checks ops)"
| "progress_ops checks (SetTotal v # ops) = (\<lambda>em. progress_ops checks ops (progress_set_total v em))"

text \<open>
  The step after each increment, for the total that holds then, and which of a list of
  steps are higher than the one before.
\<close>

fun steps_reached :: "nat \<Rightarrow> nat \<Rightarrow> nat \<Rightarrow> progress_op list \<Rightarrow> nat list" where
  "steps_reached steps tot count [] = []"
| "steps_reached steps tot count (IncBy a # ops) =
     exact_step steps (count + unat a) tot # steps_reached steps tot (count + unat a) ops"
| "steps_reached steps tot count (SetTotal v # ops) = steps_reached steps (unat v) count ops"

fun rises :: "nat \<Rightarrow> nat list \<Rightarrow> nat list" where
  "rises prev [] = []"
| "rises prev (s # ss) = (if prev < s then [s] else []) @ rises s ss"

fun op_amount :: "progress_op \<Rightarrow> nat" where
  "op_amount (IncBy a) = unat a"
| "op_amount (SetTotal v) = 0"

text \<open>No total is zero, and none times the number of steps exceeds 64 bits.\<close>

fun total_ok :: "u16 \<Rightarrow> progress_op \<Rightarrow> bool" where
  "total_ok steps (IncBy a) = True"
| "total_ok steps (SetTotal v) \<longleftrightarrow> 0 < unat v \<and> unat v * unat steps < 2 ^ 64"

lemma inc_any_last:
  assumes "0 < unat (em_total em)" and "unat (em_total em) * unat (em_steps em) < 2 ^ 64"
    and "unat (em_count em) + unat amount < 2 ^ 64"
  shows "inc checks amount em =
      (Ok (), em\<lparr>em_count := em_count em + amount, em_last_step := next_step em amount,
        em_sent := em_sent em @ (if next_step em amount > em_last_step em then [next_step em amount] else [])\<rparr>)"
    and "unat (next_step em amount) = exact_step (unat (em_steps em)) (unat (em_count em) + unat amount) (unat (em_total em))"
proof -
  note count = add_u64_small [OF assms(3), THEN conjunct1] add_u64_small [OF assms(3), THEN conjunct2]
  note s = step_of_exact [OF assms(1,2), where count = "em_count em + amount", unfolded count(2), folded next_step_def]
  show "inc checks amount em = (Ok (), em\<lparr>em_count := em_count em + amount, em_last_step := next_step em amount,
        em_sent := em_sent em @ (if next_step em amount > em_last_step em then [next_step em amount] else [])\<rparr>)"
    by (simp add: inc_def count s(1) Let_def)
  show "unat (next_step em amount) = exact_step (unat (em_steps em)) (unat (em_count em) + unat amount) (unat (em_total em))"
    by (rule s(2))
qed

lemma progress_ops_rises:
  assumes "0 < unat (em_total em)" and "unat (em_total em) * unat (em_steps em) < 2 ^ 64"
    and "list_all (total_ok (em_steps em)) ops"
    and "unat (em_count em) + sum_list (map op_amount ops) < 2 ^ 64"
  shows "\<exists>em'. progress_ops checks ops em = (Ok (), em')
    \<and> unat (em_count em') = unat (em_count em) + sum_list (map op_amount ops)
    \<and> map unat (em_sent em') = map unat (em_sent em)
        @ rises (unat (em_last_step em)) (steps_reached (unat (em_steps em)) (unat (em_total em)) (unat (em_count em)) ops)"
  using assms
proof (induction ops arbitrary: em)
  case Nil
  then show ?case by (simp add: io_simps)
next
  case (Cons op ops)
  show ?case
  proof (cases op)
    case (IncBy a)
    have small: "unat (em_count em) + unat a < 2 ^ 64" using Cons.prems(4) IncBy by simp
    note count = add_u64_small [OF small, THEN conjunct2]
    note 1 = inc_any_last [OF Cons.prems(1,2) small]
    let ?s = "next_step em a"
    let ?em1 = "em\<lparr>em_count := em_count em + a, em_last_step := ?s,
        em_sent := em_sent em @ (if ?s > em_last_step em then [?s] else [])\<rparr>"
    from Cons.IH [of ?em1] Cons.prems IncBy count obtain em' where
      "progress_ops checks ops ?em1 = (Ok (), em')"
      "unat (em_count em') = unat (em_count em) + unat a + sum_list (map op_amount ops)"
      "map unat (em_sent em') = map unat (em_sent em @ (if ?s > em_last_step em then [?s] else []))
        @ rises (unat ?s) (steps_reached (unat (em_steps em)) (unat (em_total em)) (unat (em_count em) + unat a) ops)"
      by auto
    then show ?thesis using IncBy 1(2)
      by (intro exI [of _ em']) (simp add: 1(1) word_less_nat_alt)
  next
    case (SetTotal v)
    with Cons.IH [of "set_total v em"] Cons.prems show ?thesis by (auto simp: set_total_def)
  qed
qed

lemma rises_last:
  assumes "list_all (\<lambda>s. s \<le> m) ss" and "last (prev # ss) = m" and "prev \<le> m"
  shows "last (prev # rises prev ss) = m"
  using assms
proof (induction ss arbitrary: prev)
  case (Cons s ss)
  then have IH: "last (s # rises s ss) = m" by simp
  show ?case
  proof (cases "prev < s")
    case False
    with IH Cons.prems show ?thesis by (cases "rises s ss = []") auto
  qed (use IH in simp)
qed simp

lemma steps_reached_le:
  assumes "0 < tot" and "list_all (total_ok steps) ops"
  shows "list_all (\<lambda>s. s \<le> unat steps) (steps_reached (unat steps) tot count ops)"
  using assms
proof (induction "unat steps" tot count ops rule: steps_reached.induct)
  case (2 tot count a ops)
  then show ?case using exact_step_le by simp
qed simp_all

lemma rises_subset: "set (rises prev ss) \<subseteq> set ss"
  by (induction ss arbitrary: prev) auto

lemma rises_positive: "s \<in> set (rises prev ss) \<Longrightarrow> 0 < s"
  by (induction ss arbitrary: prev) (auto split: if_splits)

text \<open>
  C36: the total may be set at any time, as long as it is never zero and
  nothing exceeds 64 bits. A value is sent exactly when an increment reaches a step that is
  higher than the step of the increment before it; all values are from 1 to \<open>steps\<close>, and
  when the last increment reaches the total that holds then, the last value sent is
  \<open>steps\<close>. (After a larger total was set, the values begin lower again.)
\<close>

theorem progress_total_changes:
  assumes "0 < unat tot" and "unat tot * unat steps < 2 ^ 64" and "list_all (total_ok steps) ops"
    and "sum_list (map op_amount ops) < 2 ^ 64"
  shows "\<exists>em. progress_ops checks ops (emitter_new tot steps) = (Ok (), em)
    \<and> map unat (em_sent em) = rises 0 (steps_reached (unat steps) (unat tot) 0 ops)
    \<and> set (map unat (em_sent em)) \<subseteq> {1..unat steps}
    \<and> (0 < unat steps \<longrightarrow> last (0 # steps_reached (unat steps) (unat tot) 0 ops) = unat steps \<longrightarrow>
        em_sent em \<noteq> [] \<and> last (em_sent em) = steps)"
proof -
  let ?ss = "steps_reached (unat steps) (unat tot) 0 ops"
  from progress_ops_rises [of "emitter_new tot steps" ops checks] assms obtain em where
    em: "progress_ops checks ops (emitter_new tot steps) = (Ok (), em)" "map unat (em_sent em) = rises 0 ?ss"
    by (auto simp: emitter_new_def)
  have le: "list_all (\<lambda>s. s \<le> unat steps) ?ss" by (rule steps_reached_le [OF assms(1,3)])
  have "set (map unat (em_sent em)) \<subseteq> {1..unat steps}"
    unfolding em(2) using rises_subset [of 0 ?ss] rises_positive [of _ 0 ?ss] le by (fastforce simp: list_all_iff Suc_le_eq)
  moreover have "em_sent em \<noteq> [] \<and> last (em_sent em) = steps" if pos: "0 < unat steps" and full: "last (0 # ?ss) = unat steps"
  proof -
    from rises_last [OF le full] have l: "last (0 # map unat (em_sent em)) = unat steps" by (simp add: em(2))
    with pos have ne: "em_sent em \<noteq> []" by auto
    with l have "unat (last (em_sent em)) = unat steps" by (simp add: last_map)
    with ne show ?thesis by (simp add: word_unat_eq_iff)
  qed
  ultimately show ?thesis using em by (intro exI [of _ em]) blast
qed

theorem progress_total_changes_witness:
  "\<exists>em. progress_ops True [IncBy 50, SetTotal 1000, IncBy 50, IncBy 300, IncBy 600] (emitter_new 100 10) = (Ok (), em)
    \<and> map unat (em_sent em) = [5, 4, 10] \<and> last (em_sent em) = 10"
proof -
  from progress_total_changes [of 100 10 "[IncBy 50, SetTotal 1000, IncBy 50, IncBy 300, IncBy 600]" True] obtain em where
    em: "progress_ops True [IncBy 50, SetTotal 1000, IncBy 50, IncBy 300, IncBy 600] (emitter_new 100 10) = (Ok (), em)"
      "map unat (em_sent em) = rises 0 (steps_reached 10 100 0 [IncBy 50, SetTotal 1000, IncBy 50, IncBy 300, IncBy 600])"
      "last (0 # steps_reached 10 100 0 [IncBy 50, SetTotal 1000, IncBy 50, IncBy 300, IncBy 600]) = 10 \<longrightarrow> last (em_sent em) = 10"
    by auto
  then show ?thesis by (auto simp: exact_step_def)
qed

section \<open>Copying through a wrapped reader\<close>

text \<open>
  \<^verbatim>\<open>tokio::io::copy\<close> to a sink that keeps the bytes: it polls with an empty buffer until a
  poll reads nothing. A pending poll is made again.
\<close>

partial_function (option) io_copy :: "'r poll_fun \<Rightarrow> nat \<Rightarrow> 'r \<Rightarrow> bytes \<Rightarrow> ((io_error + bytes, unit) outcome \<times> 'r) option" where
  "io_copy poll_read cap r acc =
     (case poll_read (r, \<lparr>rb_filled = [], rb_capacity = cap\<rparr>) of
        (Ok (Ready (Inr u)), (r', buf)) \<Rightarrow>
          (if rb_filled buf = [] then Some (Ok (Inr acc), r') else io_copy poll_read cap r' (acc @ rb_filled buf))
      | (Ok (Ready (Inl e)), (r', buf)) \<Rightarrow> Some (Ok (Inl e), r')
      | (Ok Pending, (r', buf)) \<Rightarrow> io_copy poll_read cap r' acc
      | (Err e, (r', buf)) \<Rightarrow> Some (Err e, r')
      | (Panic p, (r', buf)) \<Rightarrow> Some (Panic p, r'))"

text \<open>The amounts of the polls of a slice: full buffers, a rest, and the end.\<close>

function poll_amounts :: "nat \<Rightarrow> nat \<Rightarrow> nat list" where
  "poll_amounts cap n = (if n = 0 \<or> cap = 0 then [0] else min n cap # poll_amounts cap (n - min n cap))"
  by auto
termination by (relation "measure snd") auto

declare poll_amounts.simps [simp del]

lemma sum_poll_amounts: "0 < cap \<Longrightarrow> sum_list (poll_amounts cap n) = n"
proof (induction cap n rule: poll_amounts.induct)
  case (1 cap n)
  then show ?case by (subst poll_amounts.simps) auto
qed

lemma io_copy_slice:
  assumes "emitter_ok em" and "0 < cap" and "cap < 2 ^ 64" and "unat (em_count em) + length data < 2 ^ 64"
  shows "\<exists>em'. io_copy (progress_poll_read checks slice_poll_read) cap (wrap_async_read em data) acc =
      Some (Ok (Inr (acc @ data)), wrap_async_read em' [])
    \<and> incs checks (map of_nat (poll_amounts cap (length data))) em = (Ok (), em')"
  using assms(1,4)
proof (induction "length data" arbitrary: data em acc rule: less_induct)
  case less
  let ?n = "min (length data) cap"
  have n: "unat (of_nat ?n :: u64) = ?n" using assms(3) by (simp add: unat_of_nat take_bit_nat_eq_self)
  have small: "unat (em_count em) + unat (of_nat ?n :: u64) < 2 ^ 64" using less.prems(2) n by simp
  let ?em1 = "em\<lparr>em_count := em_count em + of_nat ?n, em_last_step := next_step em (of_nat ?n),
        em_sent := em_sent em @ (if next_step em (of_nat ?n) > em_last_step em then [next_step em (of_nat ?n)] else [])\<rparr>"
  note 1 = inc_ok(1) [OF less.prems(1) small]
  have poll: "progress_poll_read checks slice_poll_read (wrap_async_read em data, \<lparr>rb_filled = [], rb_capacity = cap\<rparr>) =
      (Ok (Ready (Inr ())), (wrap_async_read ?em1 (drop ?n data), \<lparr>rb_filled = take ?n data, rb_capacity = cap\<rparr>))"
    using 1 by (simp add: progress_poll_read_def slice_poll_read_def wrap_async_read_def sub_u64_def Let_def min.commute)
  show ?case
  proof (cases "data = []")
    case True
    with poll 1 show ?thesis
      by (subst io_copy.simps) (simp add: poll_amounts.simps io_simps wrap_async_read_def)
  next
    case False
    have count: "unat (em_count em + of_nat ?n) = unat (em_count em) + ?n"
      using add_u64_small [OF small, THEN conjunct2] n by simp
    have ok1: "emitter_ok ?em1"
      using less.prems(1) inc_ok(2) [OF less.prems(1) small] count n by (simp add: emitter_ok_def)
    have "length (drop ?n data) < length data" using False assms(2) by simp
    from less.hyps [OF this ok1, of "acc @ take ?n data"] less.prems(2) count obtain em' where
      2: "io_copy (progress_poll_read checks slice_poll_read) cap (wrap_async_read ?em1 (drop ?n data)) (acc @ take ?n data) =
          Some (Ok (Inr (acc @ data)), wrap_async_read em' [])"
        "incs checks (map of_nat (poll_amounts cap (length data - ?n))) ?em1 = (Ok (), em')"
      by (auto simp del: take_append drop_append)
    have "take ?n data \<noteq> []" using False assms(2) by simp
    with 2(1) have "io_copy (progress_poll_read checks slice_poll_read) cap (wrap_async_read em data) acc =
        Some (Ok (Inr (acc @ data)), wrap_async_read em' [])"
      by (subst io_copy.simps) (simp add: poll)
    moreover have "poll_amounts cap (length data) = ?n # poll_amounts cap (length data - ?n)"
      using False assms(2) by (subst poll_amounts.simps) simp
    ultimately show ?thesis using 1 2(2) by simp
  qed
qed

lemma expected_steps_final:
  "last (exact_step steps c tot # expected_steps steps tot c as) = exact_step steps (c + sum_list (map unat as)) tot"
proof -
  let ?es = "map (\<lambda>n. exact_step steps n tot) (c # counts c as)"
  have "last ?es = exact_step steps (last (c # counts c as)) tot" by (rule last_map) simp
  then have "last (remdups_adj ?es) = exact_step steps (c + sum_list (map unat as)) tot"
    by (simp only: last_remdups_adj last_counts)
  moreover have "remdups_adj ?es = exact_step steps c tot # expected_steps steps tot c as"
    unfolding expected_steps_def list.map(2) by (subst hd_remdups_adj_Cons) simp
  ultimately show ?thesis by (simp only:)
qed

text \<open>
  What copying a slice comes to, for an emitter with any total: the values sent are the
  increasing steps reached, and the last one is the step of all of the data.
\<close>

lemma copied_slice:
  assumes "0 < unat tot" and "unat tot * unat steps < 2 ^ 64" and "0 < cap" and "cap < 2 ^ 64" and "length data < 2 ^ 64"
  shows "\<exists>em. io_copy (progress_poll_read checks slice_poll_read) cap (wrap_async_read (emitter_new tot steps) data) [] =
      Some (Ok (Inr data), wrap_async_read em [])
    \<and> unat (em_count em) = length data
    \<and> sorted_wrt (<) (0 # map unat (em_sent em)) \<and> set (map unat (em_sent em)) \<subseteq> {1..unat steps}
    \<and> last (0 # map unat (em_sent em)) = exact_step (unat steps) (length data) (unat tot)"
proof -
  let ?as = "map of_nat (poll_amounts cap (length data)) :: u64 list"
  have ok: "emitter_ok (emitter_new tot steps)" by (rule emitter_new_ok [OF assms(1,2)])
  from io_copy_slice [OF ok assms(3,4), of data checks "[]"] assms(5) obtain em where
    1: "io_copy (progress_poll_read checks slice_poll_read) cap (wrap_async_read (emitter_new tot steps) data) [] =
      Some (Ok (Inr data), wrap_async_read em [])"
    and 2: "incs checks ?as (emitter_new tot steps) = (Ok (), em)"
    by (auto simp: emitter_new_def)
  have "a < 2 ^ 64" if "a \<in> set (poll_amounts cap (length data))" for a
    using member_le_sum_list [OF that] assms(5) by (simp add: sum_poll_amounts [OF assms(3)])
  then have "map unat ?as = poll_amounts cap (length data)"
    by (simp add: map_idI unat_of_nat take_bit_nat_eq_self)
  then have sum: "sum_list (map unat ?as) = length data" by (simp only: sum_poll_amounts [OF assms(3)])
  from incs_expected [OF ok, of ?as checks] 2 sum assms(5) have
    3: "unat (em_count em) = length data" "map unat (em_sent em) = expected_steps (unat steps) (unat tot) 0 ?as"
    by (auto simp: emitter_new_def)
  have zero: "exact_step (unat steps) 0 (unat tot) = 0" by (simp add: exact_step_def)
  have "sorted_wrt (<) (0 # map unat (em_sent em))"
    unfolding 3(2) using expected_steps_strict [of "unat steps" 0 "unat tot" ?as] by (simp only: zero)
  moreover have "set (map unat (em_sent em)) \<subseteq> {1..unat steps}"
    unfolding 3(2) using expected_steps_range [OF assms(1)] by blast
  moreover have "last (0 # map unat (em_sent em)) = exact_step (unat steps) (length data) (unat tot)"
    unfolding 3(2) using expected_steps_final [of "unat steps" 0 "unat tot" ?as] by (simp only: zero sum add_0)
  ultimately show ?thesis using 1 3(1) by blast
qed



section \<open>The tests of progress.rs\<close>

text \<open>One round of \<^verbatim>\<open>test_inc\<close>: an amount, the count and the received value that are expected.\<close>

fun test_inc_rounds ::
    "bool \<Rightarrow> u16 try_recv \<Rightarrow> (u64 \<times> u64 \<times> (recv_error + u16)) list \<Rightarrow> emitter \<Rightarrow> nat \<Rightarrow> (unit, unit) outcome" where
  "test_inc_rounds checks try_recv [] em rx = Ok ()"
| "test_inc_rounds checks try_recv ((amount, count, expected) # rounds) em rx =
     (case progress_inc checks amount em of
        (Err e, em1) \<Rightarrow> Err e
      | (Panic p, em1) \<Rightarrow> Panic p
      | (Ok u, em1) \<Rightarrow>
          if em_count em1 \<noteq> count then Panic AssertionFailed
          else (case try_recv progress_capacity (em_sent em1) rx of (res, rx1) \<Rightarrow>
            if res = expected then test_inc_rounds checks try_recv rounds em1 rx1 else Panic AssertionFailed))"

definition test_inc :: "bool \<Rightarrow> u16 try_recv \<Rightarrow> (unit, unit) outcome" where
  "test_inc checks try_recv =
     (let progress = emitter_new 160 16 in
      test_inc_rounds checks try_recv
        [(1, 1, Inl ChannelEmpty), (9, 10, Inr 1), (30, 40, Inr 4), (120, 160, Inr 16)] progress (progress_subscribe progress))"

definition test_async_reader :: "bool \<Rightarrow> u16 try_recv \<Rightarrow> nat \<Rightarrow> (unit, unit) outcome option" where
  "test_async_reader checks try_recv cap =
     (let progress = emitter_new 160 16;
          rx = progress_subscribe progress;
          data = replicate 100 1 in
      case io_copy (progress_poll_read checks slice_poll_read) cap (wrap_async_read progress data) [] of
        None \<Rightarrow> None
      | Some (Err e, reader) \<Rightarrow> Some (Err e)
      | Some (Panic p, reader) \<Rightarrow> Some (Panic p)
      | Some (Ok (Inl e), reader) \<Rightarrow> Some (Panic UnwrapFailed)
      | Some (Ok (Inr copied), reader) \<Rightarrow>
          (case recv_all try_recv progress_capacity (em_sent (pr_emitter reader)) rx [] of
             None \<Rightarrow> None
           | Some (vals, rx1) \<Rightarrow> Some (if last (0 # vals) = 10 then Ok () else Panic AssertionFailed)))"

theorem test_inc_passes:
  assumes "broadcast try_recv"
  shows "test_inc checks try_recv = Ok ()"
  using broadcast.recv_empty [OF assms, of 16 "[]"] broadcast.recv_next [OF assms, of 0 "[1]" 16]
    broadcast.recv_next [OF assms, of 1 "[1, 4]" 16] broadcast.recv_next [OF assms, of "Suc (Suc 0)" "[1, 4, 16]" 16]
  by (simp add: test_inc_def progress_capacity_def progress_subscribe_def inc_def emitter_new_def step_of_def
      add_u64_def mul_u64_def div_u64_def Let_def)

theorem test_async_reader_passes:
  assumes "broadcast try_recv" and "0 < cap" and "cap < 2 ^ 64"
  shows "test_async_reader checks try_recv cap = Some (Ok ())"
proof -
  from copied_slice [of 160 16 cap "replicate 100 1" checks] assms(2,3) obtain em where
    1: "io_copy (progress_poll_read checks slice_poll_read) cap (wrap_async_read (emitter_new 160 16) (replicate 100 1)) [] =
      Some (Ok (Inr (replicate 100 1)), wrap_async_read em [])"
    and 2: "sorted_wrt (<) (0 # map unat (em_sent em))" "set (map unat (em_sent em)) \<subseteq> {1..16}"
      "last (0 # map unat (em_sent em)) = exact_step 16 100 160"
    by auto
  have "exact_step 16 100 160 = 10" by (simp add: exact_step_def)
  with 2(3) have last: "last (0 # em_sent em) = 10" and "em_sent em \<noteq> []"
    by (auto simp: last_map word_unat_eq_iff split: if_splits)
  have "distinct (map unat (em_sent em))"
    using 2(1) by (simp add: strict_sorted_iff)
  then have "length (em_sent em) = card (set (map unat (em_sent em)))"
    by (metis distinct_card length_map)
  also have "\<dots> \<le> card {1..16 :: nat}" by (rule card_mono [OF _ 2(2)]) simp
  finally have "length (em_sent em) - 0 \<le> 16" by simp
  from broadcast.recv_all_complete [OF assms(1) _ this, of "[]"]
  have "recv_all try_recv 16 (em_sent em) 0 [] = Some (em_sent em, length (em_sent em))" by simp
  with 1 last show ?thesis
    by (simp add: test_async_reader_def progress_capacity_def progress_subscribe_def wrap_async_read_def emitter_new_def)
qed

end
