(* ===== verification/Subscribing.thy ===== *)
theory Subscribing
  imports Sessions Watching "HOL-Library.Sublist"
begin

text \<open>
  \<^verbatim>\<open>Provider::subscribe\<close> with the channel it really has: tokio's broadcast channel keeps eight
  events for a subscriber, and tells one that is further behind how many it has missed. The
  provider runs on in the meantime, in any interleaving.
\<close>

section \<open>A subscriber of a running provider\<close>

text \<open>The capacity that \<^verbatim>\<open>spawn\<close> gives the channel.\<close>

definition event_capacity :: nat where
  "event_capacity = 8"

text \<open>The next event of a position, what has been received, and how many events were missed.\<close>

record subscriber =
  sb_next :: nat
  sb_got :: "event list"
  sb_missed :: nat

definition subscribed :: "('s, 'w) server_state \<Rightarrow> subscriber" where
  "subscribed st = \<lparr>sb_next = provider_subscribe st, sb_got = [], sb_missed = 0\<rparr>"

fun receive_event :: "event try_recv \<Rightarrow> event list \<Rightarrow> subscriber \<Rightarrow> subscriber option" where
  "receive_event try_recv sent sb =
     (case try_recv event_capacity sent (sb_next sb) of
        (Inr e, at') \<Rightarrow> Some (sb\<lparr>sb_next := at', sb_got := sb_got sb @ [e]\<rparr>)
      | (Inl (Lagged n), at') \<Rightarrow> Some (sb\<lparr>sb_next := at', sb_missed := sb_missed sb + n\<rparr>)
      | (Inl ChannelEmpty, at') \<Rightarrow> None)"

inductive watched ::
    "event try_recv \<Rightarrow> (u64 \<Rightarrow> 's \<times> 'w \<Rightarrow> event list) \<Rightarrow> ('s, 'w) server_state \<times> subscriber
       \<Rightarrow> ('s, 'w) server_state \<times> subscriber \<Rightarrow> bool"
  for try_recv events where
  serves: "server_step events st st' \<Longrightarrow> watched try_recv events (st, sb) (st', sb)"
| receives: "receive_event try_recv (sv_events st) sb = Some sb' \<Longrightarrow> watched try_recv events (st, sb) (st, sb')"

section \<open>What it has received\<close>

text \<open>The events sent between a position and the subscriber's.\<close>

definition window :: "nat \<Rightarrow> event list \<Rightarrow> subscriber \<Rightarrow> event list" where
  "window start sent sb = take (sb_next sb - start) (drop start sent)"

definition subscriber_ok :: "nat \<Rightarrow> event list \<Rightarrow> subscriber \<Rightarrow> bool" where
  "subscriber_ok start sent sb \<longleftrightarrow>
     start \<le> sb_next sb \<and> sb_next sb \<le> length sent
   \<and> length (sb_got sb) + sb_missed sb = sb_next sb - start
   \<and> subseq (sb_got sb) (window start sent sb)"

lemma window_append: "sb_next sb \<le> length sent \<Longrightarrow> window start (sent @ es) sb = window start sent sb"
  by (simp add: window_def)

lemma window_extend:
  assumes "start \<le> sb_next sb" and "sb_next sb \<le> at'" and "at' \<le> length sent" and "sb_next sb' = at'"
  shows "window start sent sb' = window start sent sb @ drop (sb_next sb) (take at' sent)"
proof -
  have "start \<le> at'" using assms(1,2) by (rule order_trans)
  then have "take (at' - start) (drop start sent) = drop start (take at' sent)" by (simp add: take_drop)
  also have "\<dots> = drop start (take (sb_next sb) sent @ drop (sb_next sb) (take at' sent))"
    using append_take_drop_id [of "sb_next sb" "take at' sent"] assms(2) by (simp add: min_def)
  also have "\<dots> = take (sb_next sb - start) (drop start sent) @ drop (sb_next sb) (take at' sent)"
    using assms by (simp add: take_drop)
  finally show ?thesis by (simp add: window_def assms(4))
qed

context broadcast
begin

lemma receive_cases:
  assumes "at \<le> length sent" and "try_recv cap sent at = (r, at')"
  shows "(r = Inl ChannelEmpty \<and> at = length sent) \<or> (r = Inr (sent ! at) \<and> at' = Suc at \<and> at < length sent)
    \<or> (\<exists>n. 0 < n \<and> r = Inl (Lagged n) \<and> at' = at + n \<and> at + n \<le> length sent \<and> cap < length sent - at)"
proof -
  consider "at = length sent" | "at < length sent" "length sent - at \<le> cap" | "cap < length sent - at"
    using assms(1) by linarith
  then show ?thesis
  proof cases
    case 1
    with recv_empty [of cap sent] assms(2) show ?thesis by simp
  next
    case 2
    with recv_next [OF 2] assms(2) show ?thesis by simp
  next
    case 3
    with recv_behind [OF 3] assms(2) show ?thesis by auto
  qed
qed

end

lemma receive_event_ok:
  assumes "broadcast try_recv" and ok: "subscriber_ok start sent sb" and step: "receive_event try_recv sent sb = Some sb'"
  shows "subscriber_ok start sent sb'"
proof -
  obtain r at' where r: "try_recv event_capacity sent (sb_next sb) = (r, at')" by fastforce
  from ok have at: "start \<le> sb_next sb" "sb_next sb \<le> length sent" by (simp_all add: subscriber_ok_def)
  from broadcast.receive_cases [OF assms(1) at(2) r] show ?thesis
  proof (elim disjE exE conjE)
    assume e: "r = Inr (sent ! sb_next sb)" "at' = Suc (sb_next sb)" "sb_next sb < length sent"
    with step r have sb': "sb' = sb\<lparr>sb_next := Suc (sb_next sb), sb_got := sb_got sb @ [sent ! sb_next sb]\<rparr>" by simp
    have "window start sent sb' = window start sent sb @ [sent ! sb_next sb]"
      using window_extend [OF at(1), of "Suc (sb_next sb)" sent sb'] e(3) by (simp add: sb' take_Suc_conv_app_nth)
    with ok e(3) sb' show ?thesis by (auto simp: subscriber_ok_def)
  next
    fix n assume l: "r = Inl (Lagged n)" "at' = sb_next sb + n" "sb_next sb + n \<le> length sent"
    with step r have sb': "sb' = sb\<lparr>sb_next := sb_next sb + n, sb_missed := sb_missed sb + n\<rparr>" by simp
    have "window start sent sb' = window start sent sb @ drop (sb_next sb) (take (sb_next sb + n) sent)"
      using window_extend [OF at(1), of "sb_next sb + n" sent sb'] l(3) by (simp add: sb')
    with ok l(3) sb' show ?thesis by (auto simp: subscriber_ok_def intro: subseq_drop_many list_emb_append_mono subseq_rev_drop_many)
  qed (use step r in simp)
qed

lemma watched_ok:
  assumes "broadcast try_recv"
  shows "watched try_recv events x y \<Longrightarrow> subscriber_ok start (sv_events (fst x)) (snd x) \<Longrightarrow>
    subscriber_ok start (sv_events (fst y)) (snd y)"
proof (induction rule: watched.induct)
  case (serves st st' sb)
  from serves(1) have "\<exists>es. sv_events st' = sv_events st @ es" by (induction rule: server_step.induct) auto
  with serves(2) show ?case by (auto simp: subscriber_ok_def window_append)
next
  case (receives st sb sb')
  then show ?case using receive_event_ok [OF assms] by simp
qed

lemma watched_steps_ok:
  assumes "broadcast try_recv" and "(watched try_recv events)\<^sup>*\<^sup>* (st0, subscribed st0) x"
  shows "subscriber_ok (provider_subscribe st0) (sv_events (fst x)) (snd x)"
  using assms(2)
proof (induction rule: rtranclp_induct)
  case base
  show ?case by (simp add: subscriber_ok_def subscribed_def window_def provider_subscribe_def)
next
  case (step y z)
  then show ?case using watched_ok [OF assms(1)] by blast
qed

text \<open>A subscriber that is at most eight events behind gets all of them by receiving.\<close>

lemma watched_catches_up:
  assumes "broadcast try_recv" and "sb_next sb \<le> length (sv_events st)" and "length (sv_events st) - sb_next sb \<le> event_capacity"
  shows "(watched try_recv events)\<^sup>*\<^sup>* (st, sb)
    (st, sb\<lparr>sb_next := length (sv_events st), sb_got := sb_got sb @ drop (sb_next sb) (sv_events st)\<rparr>)"
  using assms(2,3)
proof (induction "length (sv_events st) - sb_next sb" arbitrary: sb)
  case 0
  then show ?case by simp
next
  case (Suc n)
  then have lt: "sb_next sb < length (sv_events st)" by simp
  let ?sb = "sb\<lparr>sb_next := Suc (sb_next sb), sb_got := sb_got sb @ [sv_events st ! sb_next sb]\<rparr>"
  have "watched try_recv events (st, sb) (st, ?sb)"
    using broadcast.recv_next [OF assms(1) lt Suc.prems(2)] by (intro watched.receives) simp
  moreover have "(watched try_recv events)\<^sup>*\<^sup>* (st, ?sb)
      (st, ?sb\<lparr>sb_next := length (sv_events st), sb_got := sb_got ?sb @ drop (sb_next ?sb) (sv_events st)\<rparr>)"
    by (rule Suc.hyps(1)) (use Suc lt in simp_all)
  ultimately show ?case using lt by (simp add: Cons_nth_drop_Suc converse_rtranclp_into_rtranclp)
qed


text \<open>A provider that has accepted one stream, with a subscriber from the start.\<close>

lemma one_event_watched:
  fixes events :: "u64 \<Rightarrow> 's \<times> 'w \<Rightarrow> event list" and x :: "'s \<times> 'w"
  assumes "broadcast try_recv"
  shows "\<exists>st sb. (watched try_recv events)\<^sup>*\<^sup>*
      (server_start, subscribed (server_start :: ('s, 'w) server_state)) (st, sb)
    \<and> sv_events st = [EvClientConnected cid] \<and> sb_got sb = [EvClientConnected cid] \<and> sb_missed sb = 0"
proof -
  let ?s0 = "server_start :: ('s, 'w) server_state"
  let ?s1 = "?s0\<lparr>sv_connecting := [Inr (cid, [x])]\<rparr>"
  let ?s2 = "?s0\<lparr>sv_conns := [(cid, [x], [], [])]\<rparr>"
  let ?s3 = "?s2\<lparr>sv_conns := [(cid, [], [events cid x], [EvClientConnected cid])], sv_events := [EvClientConnected cid]\<rparr>"
  let ?sb = "subscribed ?s0"
  have "server_step events ?s0 ?s1"
    using server_step.arrive [of ?s0 events "Inr (cid, [x])"] by (simp add: server_start_def)
  moreover have "server_step events ?s1 ?s2"
    using server_step.connected [of 0 ?s1 "(cid, [x], [], [])" events]
    by (simp add: server_start_def handle_connection_def remove_nth_def)
  moreover have "server_step events ?s2 ?s3"
    using server_step.works [of 0 ?s2 cid "([x], [], [])" events "([], [events cid x], [EvClientConnected cid])"]
      connection_step.accept [of "events cid" cid x "[]" "[]" "[]"]
    by (simp add: server_start_def)
  ultimately have run: "(watched try_recv events)\<^sup>*\<^sup>* (?s0, ?sb) (?s3, ?sb)"
    by (meson watched.serves converse_rtranclp_into_rtranclp rtranclp.rtrancl_refl)
  have "sv_events ?s3 = [EvClientConnected cid]" "sb_next ?sb = 0" "sb_got ?sb = []" "sb_missed ?sb = 0"
    by (simp_all add: subscribed_def provider_subscribe_def server_start_def)
  moreover from this have "(watched try_recv events)\<^sup>*\<^sup>* (?s3, ?sb)
      (?s3, ?sb\<lparr>sb_next := 1, sb_got := [EvClientConnected cid]\<rparr>)"
    using watched_catches_up [OF assms, of ?sb ?s3 events] by (simp add: event_capacity_def)
  ultimately show ?thesis using rtranclp_trans [OF run]
    by (intro exI [of _ ?s3] exI [of _ "?sb\<lparr>sb_next := 1, sb_got := [EvClientConnected cid]\<rparr>"]) simp
qed


end
