(* ===== verification/Cli.thy ===== *)
theory Cli
  imports Server Exchange
begin

text \<open>
  \<^verbatim>\<open>src/main.rs\<close>, first part: the content identifiers, the key file, the choice of sources,
  the files that a download writes and the way the commands call the library. The terminal
  and \<^verbatim>\<open>main\<close> are in the theory \<^verbatim>\<open>Program\<close>.
\<close>

section \<open>Content identifiers\<close>

text \<open>
  \<^verbatim>\<open>BASE32_NOPAD\<close> of the crate data_encoding and \<^verbatim>\<open>multibase::decode\<close> are parameters.
\<close>

record ('be, 'me) cid_engine =
  b32_encode :: "bytes \<Rightarrow> string"
  b32_decode :: "string \<Rightarrow> 'be + bytes"
  multibase_decode :: "string \<Rightarrow> 'me + bytes"

datatype blake3_cid = Blake3Cid (cid_as_hash: hash)

definition CID_PREFIX :: bytes where
  "CID_PREFIX = [0x01, 0x55, 0x1e, 0x20]"

definition cid_as_bytes :: "blake3_cid \<Rightarrow> bytes" where
  "cid_as_bytes c = CID_PREFIX @ hash_as_ref (cid_as_hash c)"

datatype ('be, 'me) cid_error =
    CidLength nat
  | CidPrefix
  | InvalidBase32
  | Multibase 'me

definition cid_from_bytes :: "bytes \<Rightarrow> (blake3_cid, ('be, 'me) cid_error) outcome" where
  "cid_from_bytes bs =
     and_then (ensure (length bs = 36) (CidLength (length bs))) (\<lambda>_.
     and_then (ensure (take 4 bs = CID_PREFIX) CidPrefix) (\<lambda>_.
     Ok (Blake3Cid (hash_from_array (Bytes32 (drop 4 bs))))))"

definition cid_display :: "('be, 'me) cid_engine \<Rightarrow> blake3_cid \<Rightarrow> string" where
  "cid_display ce c = make_ascii_lowercase (''b'' @ b32_encode ce (cid_as_bytes c))"

definition cid_from_str ::
    "('be, 'me) cid_engine \<Rightarrow> string \<Rightarrow> (blake3_cid, ('be, 'me) cid_error) outcome" where
  "cid_from_str ce s =
     (if length s = 59 \<and> hd s = CHR ''b'' then
        let t = drop 1 s in
        if \<not> utf8_valid t then Panic UnwrapFailed
        else
          and_then (of_sum (\<lambda>_. InvalidBase32) (b32_decode ce (make_ascii_uppercase t))) (\<lambda>res.
          cid_from_bytes res)
      else
        and_then (of_sum Multibase (multibase_decode ce s)) (\<lambda>bytes. cid_from_bytes bytes))"

locale base32 =
  fixes ce :: "('be, 'me) cid_engine"
  assumes b32_decode_encode: "b32_decode ce (b32_encode ce bs) = Inr bs"
    and b32_no_lower: "no_lower (b32_encode ce bs)"
    and b32_ascii: "\<forall>c \<in> set (b32_encode ce bs). (of_char c :: nat) < 128"
    and b32_length: "length bs = 36 \<Longrightarrow> length (b32_encode ce bs) = 58"
begin

lemma cid_bytes_round_trip: "cid_from_bytes (cid_as_bytes c) = Ok c"
  by (cases c) (simp add: cid_from_bytes_def cid_as_bytes_def CID_PREFIX_def hash_as_ref_def
      hash_from_array_def bytes_of_inverse)

lemma cid_str_display: "cid_from_str ce (cid_display ce c) = Ok c"
proof -
  let ?e = "b32_encode ce (cid_as_bytes c)"
  have len: "length ?e = 58"
    by (rule b32_length) (simp add: cid_as_bytes_def CID_PREFIX_def hash_as_ref_def)
  have b: "cid_display ce c = CHR ''b'' # make_ascii_lowercase ?e"
    by (simp add: cid_display_def make_ascii_lowercase_def ascii_lower_def)
  have lower: "(of_char (ascii_lower x) :: nat) < 128" if "(of_char x :: nat) < 128" for x
    using that by (auto simp: ascii_lower_def Let_def)
  have "utf8_valid (make_ascii_lowercase ?e)"
    by (rule utf8_valid_ascii) (use b32_ascii lower in \<open>auto simp: make_ascii_lowercase_def\<close>)
  then show ?thesis
    by (simp add: cid_from_str_def b len upper_lower [OF b32_no_lower] b32_decode_encode cid_bytes_round_trip)
qed

end

sublocale base32 \<subseteq> cid_text: text_form "cid_display ce" "cid_from_str ce"
  by unfold_locales (rule cid_str_display)

definition rfc_cid_engine :: "(unit, unit) cid_engine" where
  "rfc_cid_engine =
     \<lparr>b32_encode = base32_encode,
      b32_decode = (\<lambda>s. case base32_decode s of None \<Rightarrow> Inl () | Some bs \<Rightarrow> Inr bs),
      multibase_decode = (\<lambda>s. Inl ())\<rparr>"

lemma base32_alphabet_chars: "c \<in> set (base32_encode bs) \<Longrightarrow> ascii_upper c = c \<and> (of_char c :: nat) < 128"
proof -
  have "list_all (\<lambda>c. ascii_upper c = c \<and> (of_char c :: nat) < 128) base32_alphabet" by code_simp
  moreover have "set (base32_encode bs) \<subseteq> set base32_alphabet"
    unfolding base32_encode_def by (rule set_text_encode) (simp_all add: base32_alphabet_ok)
  moreover assume "c \<in> set (base32_encode bs)"
  ultimately show ?thesis by (auto simp: list_all_iff)
qed

interpretation rfc_cid: base32 rfc_cid_engine
  by unfold_locales
    (auto simp: rfc_cid_engine_def no_lower_def list_all_iff base32_alphabet_chars length_base32_encode)

section \<open>The key file\<close>

text \<open>The file system, as far as the key file needs it, over a state \<open>'f\<close>.\<close>

record 'f key_store =
  ks_exists :: "'f \<Rightarrow> path \<Rightarrow> bool"
  ks_read :: "'f \<Rightarrow> path \<Rightarrow> io_error + bytes"
  ks_write :: "'f \<Rightarrow> path \<Rightarrow> bytes \<Rightarrow> (io_error + unit) \<times> 'f"

datatype 'se keypair_error = KeyIo io_error | KeyParse "'se openssh_error" | KeyWrite 'se

definition get_keypair ::
    "('pk, 'sk, 'k, 'se) ssh_ops \<Rightarrow> 'f key_store \<Rightarrow> ('pk, 'sk) keypair \<Rightarrow> path option
       \<Rightarrow> ('f, ('pk, 'sk) keypair, 'se keypair_error) io" where
  "get_keypair ssh ks generated key fs =
     (case key of
        Some key_path \<Rightarrow>
          if ks_exists ks fs key_path then
            (and_then (of_sum KeyIo (ks_read ks fs key_path)) (\<lambda>keystr.
             map_err KeyParse (try_from_openssh ssh keystr)), fs)
          else
            (case to_openssh ssh generated of
               Err e \<Rightarrow> (Err (KeyWrite e), fs)
             | Panic p \<Rightarrow> (Panic p, fs)
             | Ok ser_key \<Rightarrow>
                 (case ks_write ks fs key_path (str_bytes ser_key) of
                    (Inl e, fs') \<Rightarrow> (Err (KeyIo e), fs')
                  | (Inr _, fs') \<Rightarrow> (Ok generated, fs')))
      | None \<Rightarrow> (Ok generated, fs))"

locale file_store =
  fixes ks :: "'f key_store"
  assumes written_read:
    "ks_write ks fs p d = (Inr (), fs') \<Longrightarrow> ks_exists ks fs' p \<and> ks_read ks fs' p = Inr d"
begin

lemma stored_keypair:
  assumes "openssh ssh" and "\<not> ks_exists ks fs p"
    and "get_keypair ssh ks kp (Some p) fs = (Ok kp', fs')"
  shows "kp' = kp \<and> get_keypair ssh ks other (Some p) fs' = (Ok kp, fs')"
proof -
  from assms(2,3) obtain s where s: "to_openssh ssh kp = Ok s" "ks_write ks fs p (str_bytes s) = (Inr (), fs')"
    and kp': "kp' = kp"
    by (auto simp: get_keypair_def split: outcome.splits prod.splits sum.splits)
  with written_read [OF s(2)] openssh.openssh_round_trip [OF assms(1) s(1)] show ?thesis
    by (simp add: get_keypair_def)
qed

end

definition map_store :: "(path \<rightharpoonup> bytes) key_store" where
  "map_store =
     \<lparr>ks_exists = (\<lambda>fs p. fs p \<noteq> None),
      ks_read = (\<lambda>fs p. case fs p of None \<Rightarrow> Inl (OtherIo 2) | Some d \<Rightarrow> Inr d),
      ks_write = (\<lambda>fs p d. (Inr (), fs(p \<mapsto> d)))\<rparr>"

interpretation map_store: file_store map_store
  by unfold_locales (auto simp: map_store_def)

section \<open>Writing what is received\<close>

text \<open>
  \<open>copy_reader\<close> is \<^verbatim>\<open>tokio::io::copy\<close> from a verified stream: the bytes it hands on, and
  the error that stops it, if one does. The other fields are the steps that can fail.
\<close>

record 'd out_ops =
  copy_reader :: "'d \<Rightarrow> (bytes \<times> io_error option) \<times> 'd"
  create_dir_all :: "path \<Rightarrow> io_error option"
  tempfile_in :: "path \<Rightarrow> io_error option"
  persist :: "path \<Rightarrow> io_error option"

record out_state =
  os_files :: "path \<rightharpoonup> bytes"
  os_stdout :: bytes

definition on_blob ::
    "'de base64_engine \<Rightarrow> 'd out_ops \<Rightarrow> path option \<Rightarrow> hash \<Rightarrow> 'd \<Rightarrow> string \<Rightarrow> out_state
       \<Rightarrow> (error + 'd) \<times> out_state" where
  "on_blob eng oo out h reader name st =
     (let name = (if name = [] then hash_display eng h else name) in
      case out of
        Some outpath \<Rightarrow>
          (case create_dir_all oo outpath of
             Some e \<Rightarrow> (Inl (IoError e), st)
           | None \<Rightarrow>
               (let filepath = path_join outpath name in
                case tempfile_in oo outpath of
                  Some e \<Rightarrow> (Inl (IoError e), st)
                | None \<Rightarrow>
                    (case copy_reader oo reader of
                       ((data, Some e), reader') \<Rightarrow> (Inl (IoError e), st)
                     | ((data, None), reader') \<Rightarrow>
                         (case persist oo filepath of
                            Some e \<Rightarrow> (Inl (IoError e), st)
                          | None \<Rightarrow> (Inr reader', st\<lparr>os_files := (os_files st)(filepath \<mapsto> data)\<rparr>)))))
      | None \<Rightarrow>
          (case copy_reader oo reader of
             ((data, Some e), reader') \<Rightarrow> (Inl (IoError e), st\<lparr>os_stdout := os_stdout st @ data\<rparr>)
           | ((data, None), reader') \<Rightarrow> (Inr reader', st\<lparr>os_stdout := os_stdout st @ data\<rparr>)))"

definition interactive_callbacks ::
    "'de base64_engine \<Rightarrow> 'd out_ops \<Rightarrow> path option \<Rightarrow> (out_state, 'd) callbacks" where
  "interactive_callbacks eng oo out =
     \<lparr>cb_connected = (\<lambda>st. (Inr (), st)),
      cb_collection = (\<lambda>c st. (Inr (), st)),
      cb_blob = on_blob eng oo out\<rparr>"

section \<open>The commands\<close>

text \<open>The options that \<^verbatim>\<open>get\<close> and \<^verbatim>\<open>get-ticket\<close> make of their arguments.\<close>

definition get_options :: "'pk peer_id \<Rightarrow> socket_addr option \<Rightarrow> bool \<Rightarrow> 'pk options" where
  "get_options peer addr keylog =
     (let opts = default_options\<lparr>opt_peer_id := Some peer, opt_keylog := keylog\<rparr> in
      case addr of Some a \<Rightarrow> opts\<lparr>opt_addr := a\<rparr> | None \<Rightarrow> opts)"

definition get_ticket_options :: "'pk ticket \<Rightarrow> bool \<Rightarrow> 'pk options" where
  "get_ticket_options t keylog =
     \<lparr>opt_addr = tk_addr t, opt_peer_id = Some (tk_peer t), opt_keylog = keylog\<rparr>"

text \<open>\<open>get_run\<close> is \<^verbatim>\<open>get::run\<close> with the callbacks of \<^verbatim>\<open>get_interactive\<close>.\<close>

definition command_get ::
    "'de base64_engine \<Rightarrow> (hash \<Rightarrow> auth_token \<Rightarrow> 'pk options \<Rightarrow> path option \<Rightarrow> 'r)
       \<Rightarrow> blake3_cid \<Rightarrow> 'pk peer_id \<Rightarrow> string \<Rightarrow> socket_addr option \<Rightarrow> path option \<Rightarrow> bool
       \<Rightarrow> ('r, 'de auth_token_parse_error) outcome" where
  "command_get eng get_run cid peer token addr out keylog =
     (let opts = get_options peer addr keylog in
      and_then (auth_token_from_str eng token) (\<lambda>token.
      Ok (get_run (cid_as_hash cid) token opts out)))"

definition command_get_ticket ::
    "(hash \<Rightarrow> auth_token \<Rightarrow> 'pk options \<Rightarrow> path option \<Rightarrow> 'r) \<Rightarrow> 'pk ticket \<Rightarrow> path option \<Rightarrow> bool \<Rightarrow> 'r" where
  "command_get_ticket get_run t out keylog =
     get_run (tk_hash t) (tk_token t) (get_ticket_options t keylog) out"

text \<open>
  The sources of \<^verbatim>\<open>provide\<close>: the files directly in a directory, one file, or what the
  standard input held, in a temporary file.
\<close>

record path_ops =
  po_is_dir :: "path \<Rightarrow> bool"
  po_is_file :: "path \<Rightarrow> bool"
  po_read_dir :: "path \<Rightarrow> io_error + (io_error + path) list"
  po_stdin_to_file :: "io_error + path"

datatype provide_command_error =
    ProvidePathIo io_error
  | NotADirectoryOrFile
  | ProvideCollection provide_error

fun dir_sources :: "path_ops \<Rightarrow> (io_error + path) list \<Rightarrow> (data_source list, provide_command_error) outcome" where
  "dir_sources po [] = Ok []"
| "dir_sources po (Inl e # els) = Err (ProvidePathIo e)"
| "dir_sources po (Inr p # els) =
     (if po_is_file po p then and_then (dir_sources po els) (\<lambda>paths. Ok (data_source_from p # paths))
      else dir_sources po els)"

definition provide_sources ::
    "path_ops \<Rightarrow> path option \<Rightarrow> (data_source list, provide_command_error) outcome" where
  "provide_sources po path =
     (case path of
        Some p \<Rightarrow>
          if po_is_dir po p then
            and_then (of_sum ProvidePathIo (po_read_dir po p)) (dir_sources po)
          else if po_is_file po p then Ok [data_source_from p]
          else Err NotADirectoryOrFile
      | None \<Rightarrow> and_then (of_sum ProvidePathIo (po_stdin_to_file po)) (\<lambda>p. Ok [data_source_from p]))"

text \<open>The builder that \<^verbatim>\<open>provide\<close> sets up, and what it prints of the provider.\<close>

definition provide_builder ::
    "'de base64_engine \<Rightarrow> ('pk, 'sk) keypair \<Rightarrow> auth_token \<Rightarrow> database \<Rightarrow> ('pk, 'sk) keypair \<Rightarrow> bool
       \<Rightarrow> socket_addr option \<Rightarrow> string option
       \<Rightarrow> (('pk, 'sk) builder, 'de auth_token_parse_error) outcome" where
  "provide_builder eng gen_keypair gen_token db keypair keylog addr auth_token =
     (let b1 = with_keylog keylog (with_keypair keypair (provider_builder gen_keypair gen_token db));
          b2 = (case addr of Some a \<Rightarrow> bind_addr a b1 | None \<Rightarrow> b1)
      in case auth_token of
           Some encoded \<Rightarrow> and_then (auth_token_from_str eng encoded) (\<lambda>t. Ok (with_auth_token t b2))
         | None \<Rightarrow> Ok b2)"

record provide_output =
  po_collection :: string
  po_blobs :: "(path \<times> u64) list"
  po_peer_id :: string
  po_auth_token :: string
  po_ticket :: string

definition provide_prints ::
    "'de base64_engine \<Rightarrow> ('be, 'me) cid_engine \<Rightarrow> ('pk, 'sk, 'sg, 'ke) ed25519_ops \<Rightarrow> format \<Rightarrow> 'pk ticket_codec
       \<Rightarrow> database \<Rightarrow> hash \<Rightarrow> ('pk, 'sk) provider \<Rightarrow> provide_output" where
  "provide_prints eng ce ed fmt tc db h pv =
     \<lparr>po_collection = cid_display ce (Blake3Cid h),
      po_blobs = map (\<lambda>(k, p, n). (p, n)) (database_blobs db),
      po_peer_id = peer_id_display eng ed (provider_peer_id pv),
      po_auth_token = auth_token_display eng (pv_auth_token pv),
      po_ticket = ticket_display eng fmt tc (provider_ticket pv h)\<rparr>"

section \<open>What is received ends up in files\<close>

text \<open>One blob handed over: a file under the output path, or more on the standard output.\<close>

definition put_out :: "'de base64_engine \<Rightarrow> path option \<Rightarrow> out_state \<Rightarrow> hash \<times> bytes \<times> string \<Rightarrow> out_state" where
  "put_out eng out st = (\<lambda>(h, data, name).
     case out of
       Some outpath \<Rightarrow>
         st\<lparr>os_files := (os_files st)(path_join outpath (if name = [] then hash_display eng h else name) \<mapsto> data)\<rparr>
     | None \<Rightarrow> st\<lparr>os_stdout := os_stdout st @ data\<rparr>)"

definition no_out_errors :: "'d out_ops \<Rightarrow> bool" where
  "no_out_errors oo \<longleftrightarrow>
     create_dir_all oo = (\<lambda>p. None) \<and> tempfile_in oo = (\<lambda>p. None) \<and> persist oo = (\<lambda>p. None)"

text \<open>Copying a decoder that has its data hands all of it on.\<close>

locale copying =
  fixes oo :: "'d out_ops"
    and pos :: "'d \<Rightarrow> bytes \<Rightarrow> bytes \<Rightarrow> bytes \<Rightarrow> bool"
  assumes copy_all: "pos x al lft rs \<Longrightarrow> \<exists>x'. copy_reader oo x = ((lft, None), x') \<and> pos x' al [] rs"
begin

lemma interactive_consumes:
  assumes "no_out_errors oo"
  shows "consumes pos (interactive_callbacks eng oo out) (put_out eng out)"
  unfolding consumes_def
proof (intro allI impI)
  fix h x n and st :: out_state and al rs
  assume "pos x al al rs"
  from copy_all [OF this] obtain x' where "copy_reader oo x = ((al, None), x')" "pos x' al [] rs" by blast
  with assms show "\<exists>x'. cb_blob (interactive_callbacks eng oo out) h x n st = (Inr x', put_out eng out st (h, al, n))
      \<and> pos x' al [] rs"
    by (auto simp: interactive_callbacks_def on_blob_def put_out_def no_out_errors_def Let_def split: option.splits)
qed

end

definition plain_out_ops :: "plain_decoder out_ops" where
  "plain_out_ops =
     \<lparr>copy_reader = (\<lambda>x. case dec_read_to_end plain_dec_ops x of
        (Inl e, x') \<Rightarrow> (([], Some e), x') | (Inr d, x') \<Rightarrow> ((d, None), x')),
      create_dir_all = (\<lambda>p. None), tempfile_in = (\<lambda>p. None), persist = (\<lambda>p. None)\<rparr>"

interpretation plain_copying: copying plain_out_ops plain_pos
proof
  fix x al lft rs
  assume "plain_pos x al lft rs"
  from plain_transfer.dec_to_end [OF this]
  show "\<exists>x'. copy_reader plain_out_ops x = ((lft, None), x') \<and> plain_pos x' al [] rs"
    by (auto simp: plain_out_ops_def)
qed

section \<open>Properties of the command line program\<close>

lemma utf8_valid_tail: "utf8_valid s \<Longrightarrow> s \<noteq> [] \<Longrightarrow> (of_char (hd s) :: nat) < 128 \<Longrightarrow> utf8_valid (tl s)"
  by (cases s) (simp_all add: utf8_valid_def)

lemma cid_from_bytes_no_panic: "cid_from_bytes bs \<noteq> Panic p"
  by (simp add: cid_from_bytes_def ensure_def)

lemma cid_from_sum_no_panic [simp]: "and_then (of_sum g r) cid_from_bytes \<noteq> Panic p"
  by (cases r) (simp_all add: cid_from_bytes_no_panic)

lemma cid_from_str_panic: "cid_from_str ce s = Panic p \<Longrightarrow> \<not> utf8_valid s"
proof
  assume "cid_from_str ce s = Panic p" and "utf8_valid s"
  then have "length s = 59" "hd s = CHR ''b''" "\<not> utf8_valid (drop 1 s)"
    by (auto simp: cid_from_str_def Let_def split: if_splits)
  moreover from this(1) have "s \<noteq> []" by auto
  ultimately show False using utf8_valid_tail [OF \<open>utf8_valid s\<close>] by (simp add: drop_Suc)
qed

text \<open>
  A key file that does not exist is created with the generated key pair;
  every later start reads the same key pair back, whatever it would have generated.
\<close>

theorem keypair_persists:
  assumes "file_store ks" and "openssh ssh" and "\<not> ks_exists ks fs p"
    and "get_keypair ssh ks kp (Some p) fs = (Ok kp', fs')"
  shows "kp' = kp \<and> get_keypair ssh ks other (Some p) fs' = (Ok kp, fs')"
  by (rule file_store.stored_keypair [OF assms])

theorem keypair_persists_witness:
  "\<exists>fs'. get_keypair plain_ssh map_store \<lparr>kp_public = fill32 1, kp_secret = fill32 2\<rparr> (Some ''key'') Map.empty =
      (Ok \<lparr>kp_public = fill32 1, kp_secret = fill32 2\<rparr>, fs')
    \<and> get_keypair plain_ssh map_store \<lparr>kp_public = fill32 3, kp_secret = fill32 4\<rparr> (Some ''key'') fs' =
      (Ok \<lparr>kp_public = fill32 1, kp_secret = fill32 2\<rparr>, fs')"
proof -
  let ?kp = "\<lparr>kp_public = fill32 1, kp_secret = fill32 2\<rparr> :: (bytes32, bytes32) keypair"
  obtain kp' fs' where g: "get_keypair plain_ssh map_store ?kp (Some ''key'') Map.empty = (Ok kp', fs')"
    by (simp add: get_keypair_def map_store_def to_openssh_def plain_ssh_def)
  have "\<not> ks_exists map_store Map.empty ''key''" by (simp add: map_store_def)
  from keypair_persists [OF map_store.file_store_axioms plain_ssh.openssh_axioms this g] g show ?thesis by auto
qed

text \<open>
  The content identifier printed for a collection parses back to its hash,
  and parsing panics on no valid string, whatever it holds.
\<close>

theorem cid_round_trip:
  assumes "base32 ce"
  shows "cid_from_str ce (cid_display ce c) = Ok c \<and> {s. \<exists>p. cid_from_str ce s = Panic p} \<inter> {s. utf8_valid s} = {}"
  using base32.cid_str_display [OF assms] cid_from_str_panic by blast

theorem cid_round_trip_witness:
  "cid_from_str rfc_cid_engine (cid_display rfc_cid_engine (Blake3Cid (Hash (fill32 9)))) = Ok (Blake3Cid (Hash (fill32 9)))"
  using cid_round_trip [OF rfc_cid.base32_axioms] by blast



text \<open>
  What \<^verbatim>\<open>provide\<close> prints can be given to \<^verbatim>\<open>get\<close> and \<^verbatim>\<open>get-ticket\<close>:
  the collection, the peer id and the token parse back to the hash, the peer id and the
  token of the provider, and the ticket to all of them and the address it listens on.
\<close>

theorem provide_prints_parse:
  assumes "base32 ce" and "identity eng ed genuine" and "ticket_format eng fmt tc"
  shows "cid_from_str ce (po_collection (provide_prints eng ce ed fmt tc db h pv)) = Ok (Blake3Cid h)
    \<and> peer_id_from_str eng ed (po_peer_id (provide_prints eng ce ed fmt tc db h pv)) = Ok (provider_peer_id pv)
    \<and> auth_token_from_str eng (po_auth_token (provide_prints eng ce ed fmt tc db h pv)) = Ok (pv_auth_token pv)
    \<and> ticket_from_str eng fmt tc (po_ticket (provide_prints eng ce ed fmt tc db h pv)) =
        Ok \<lparr>tk_hash = h, tk_peer = PeerId (keypair_public (pv_keypair pv)), tk_addr = pv_listen_addr pv,
            tk_token = pv_auth_token pv\<rparr>"
proof -
  have b: "base64 eng" using assms(2) by (simp add: identity_def)
  show ?thesis
    using base32.cid_str_display [OF assms(1)] identity.peer_id_round_trip [OF assms(2)]
      base64.auth_token_round_trip [OF b] ticket_format.ticket_round_trip [OF assms(3)]
    by (simp add: provide_prints_def provider_ticket_def provider_peer_id_def)
qed

theorem provide_prints_parse_witness:
  "ticket_from_str rfc_engine wire_format plain_codec
     (po_ticket (provide_prints rfc_engine rfc_cid_engine plain_ed wire_format plain_codec [] (Hash (fill32 1))
       \<lparr>pv_listen_addr = SocketAddr (V4 0x7F000001) 4433, pv_keypair = \<lparr>kp_public = fill32 2, kp_secret = fill32 2\<rparr>,
        pv_auth_token = AuthToken (fill32 3), pv_cancelled = False\<rparr>)) =
   Ok \<lparr>tk_hash = Hash (fill32 1), tk_peer = PeerId (fill32 2), tk_addr = SocketAddr (V4 0x7F000001) 4433,
       tk_token = AuthToken (fill32 3)\<rparr>"
  using provide_prints_parse [OF rfc_cid.base32_axioms plain.identity_axioms plain_ticket.ticket_format_axioms]
  by (simp add: keypair_public_def)

end
