(* ===== verification/Connect.thy ===== *)
theory Connect
  imports Exchange Verifier
begin

text \<open>
  \<^verbatim>\<open>src/get.rs\<close>, \<^verbatim>\<open>setup\<close>: how the getter opens its connection, and what the TLS
  configuration it makes for it means for who can be at the other end. quinn is a parameter;
  \<open>quic_client\<close> states what its handshake promises, in terms of the functions of the
  verifier that it calls.
\<close>

section \<open>Setting up\<close>

record 'pk client_config =
  cc_tls :: "'pk tls_config"
  cc_keep_alive :: "nat option"

text \<open>
  The operations of quinn: an endpoint bound to an address, its default client
  configuration, the start of a connection, its completion, a bidirectional stream. The
  errors of the last three are numbers.
\<close>

record ('pk, 'ep, 'ing, 'c, 'w, 's) quic_ops =
  qc_endpoint :: "socket_addr \<Rightarrow> io_error + 'ep"
  qc_set_default :: "'ep \<Rightarrow> 'pk client_config \<Rightarrow> 'ep"
  qc_connect :: "'ep \<Rightarrow> socket_addr \<Rightarrow> string \<Rightarrow> nat + 'ing"
  qc_await :: "'ing \<Rightarrow> nat + 'c"
  qc_open_bi :: "'c \<Rightarrow> nat + ('w \<times> 's)"

text \<open>The key pair that \<^verbatim>\<open>Keypair::generate\<close> draws is an argument.\<close>

definition setup_connection ::
    "('pk, 'ep, 'ing, 'c, 'w, 's) quic_ops \<Rightarrow> x509_ops \<Rightarrow> ('pk, 'sk, 'sg, 'ke) ed25519_ops
       \<Rightarrow> ('ck, 'ge) rcgen_ops \<Rightarrow> rustls_ops \<Rightarrow> ('pk, 'sk) keypair \<Rightarrow> 'pk options \<Rightarrow> ('c, error) outcome" where
  "setup_connection qc xo ed rc rl keypair opts =
     and_then (map_err (\<lambda>_. CertificateError)
       (make_client_config xo ed rc rl keypair (opt_peer_id opts) (opt_keylog opts))) (\<lambda>tls_client_config.
     and_then (of_sum IoError (qc_endpoint qc (SocketAddr (V4 0) 0))) (\<lambda>endpoint.
     let client_config = \<lparr>cc_tls = tls_client_config, cc_keep_alive = Some 1\<rparr>;
         endpoint = qc_set_default qc endpoint client_config in
     and_then (of_sum ConnectError (qc_connect qc endpoint (opt_addr opts) ''localhost'')) (\<lambda>connect.
     of_sum ConnectError (qc_await qc connect))))"

text \<open>The beginning of \<^verbatim>\<open>run\<close>: the connection and the one stream on it.\<close>

definition open_stream ::
    "('pk, 'ep, 'ing, 'c, 'w, 's) quic_ops \<Rightarrow> x509_ops \<Rightarrow> ('pk, 'sk, 'sg, 'ke) ed25519_ops
       \<Rightarrow> ('ck, 'ge) rcgen_ops \<Rightarrow> rustls_ops \<Rightarrow> ('pk, 'sk) keypair \<Rightarrow> 'pk options
       \<Rightarrow> ('w \<times> 's, error) outcome" where
  "open_stream qc xo ed rc rl keypair opts =
     and_then (setup_connection qc xo ed rc rl keypair opts) (\<lambda>connection.
     of_sum ConnectError (qc_open_bi qc connection))"

lemma of_sum_eq_Ok: "of_sum g r = Ok y \<longleftrightarrow> r = Inr y"
  by (cases r) auto

lemma setup_connection_Ok:
  "setup_connection qc xo ed rc rl kp opts = Ok c \<longleftrightarrow>
     (\<exists>tls ep ing. make_client_config xo ed rc rl kp (opt_peer_id opts) (opt_keylog opts) = Ok tls
        \<and> qc_endpoint qc (SocketAddr (V4 0) 0) = Inr ep
        \<and> qc_connect qc (qc_set_default qc ep \<lparr>cc_tls = tls, cc_keep_alive = Some 1\<rparr>) (opt_addr opts) ''localhost'' = Inr ing
        \<and> qc_await qc ing = Inr c)"
  by (auto simp: setup_connection_def and_then_eq_Ok of_sum_eq_Ok Let_def)

lemma client_config_verifier:
  "make_client_config xo ed rc rl kp remote keylog = Ok tls \<Longrightarrow> tls_verifier tls = with_remote_peer_id remote"
  by (auto simp: make_client_config_def and_then_eq_Ok dest: build_config_Ok)

section \<open>What the handshake promises\<close>

text \<open>
  \<open>presented\<close> are the certificates that the other end of a connection showed, \<open>transcript\<close>
  is what it signed during the handshake. A connection is only established when the verifier
  of the client's configuration accepted both.
\<close>

locale quic_client =
  fixes qc :: "('pk, 'ep, 'ing, 'c, 'w, 's) quic_ops"
    and xo :: x509_ops and ed :: "('pk, 'sk, 'sg, 'ke) ed25519_ops"
    and ep_config :: "'ep \<Rightarrow> 'pk client_config option"
    and presented :: "'c \<Rightarrow> bytes list" and transcript :: "'c \<Rightarrow> bytes"
  assumes default_config: "ep_config (qc_set_default qc ep cfg) = Some cfg"
    and handshake:
      "ep_config ep = Some cfg \<Longrightarrow> qc_connect qc ep addr name = Inr ing \<Longrightarrow> qc_await qc ing = Inr c \<Longrightarrow>
       \<exists>ee ints dss. presented c = ee # ints
         \<and> verify_server_cert xo ed (tls_verifier (cc_tls cfg)) ee ints = Ok ()
         \<and> server_verify_tls13_signature xo ed (tls_verifier (cc_tls cfg)) (transcript c) ee dss = Ok ()"
begin

lemma connected_peer:
  assumes "setup_connection qc xo ed rc rl kp opts = Ok c" and "opt_peer_id opts = Some p"
  shows "\<exists>ee cert alg sig. presented c = [ee] \<and> parse xo ed ee = Ok cert \<and> cert_peer_id cert = p
    \<and> ring_verify xo alg (x_spki_key (pc_certificate cert)) (transcript c) sig"
proof -
  from assms(1) obtain tls ep ing where
    1: "make_client_config xo ed rc rl kp (opt_peer_id opts) (opt_keylog opts) = Ok tls"
    and 2: "qc_connect qc (qc_set_default qc ep \<lparr>cc_tls = tls, cc_keep_alive = Some 1\<rparr>) (opt_addr opts) ''localhost'' = Inr ing"
      "qc_await qc ing = Inr c"
    unfolding setup_connection_Ok by blast
  have v: "tls_verifier tls = with_remote_peer_id (Some p)"
    using client_config_verifier [OF 1] assms(2) by simp
  from handshake [OF default_config 2] obtain ee ints dss where
    3: "presented c = ee # ints" "verify_server_cert xo ed (with_remote_peer_id (Some p)) ee ints = Ok ()"
      "server_verify_tls13_signature xo ed (with_remote_peer_id (Some p)) (transcript c) ee dss = Ok ()"
    by (auto simp: v)
  from 3(2) obtain cert where 4: "ints = []" "parse xo ed ee = Ok cert" "cert_peer_id cert = p"
    by (auto simp: verify_server_cert_def and_then_eq_Ok verify_presented_certs_Ok with_remote_peer_id_def split: if_splits)
  from 3(3) 4(2) obtain alg where
    "ring_verify xo alg (x_spki_key (pc_certificate cert)) (transcript c) (dss_signature dss)"
    by (auto simp: server_verify_tls13_signature_def verify_tls13_signature_def and_then_eq_Ok verify_signature_Ok)
  with 3(1) 4 show ?thesis by blast
qed

end

text \<open>
  What two TLS configurations agree on: a version, a cipher suite and an application
  protocol in common, and each side's verifier accepts what the other presents.
\<close>

definition mutually_accepted ::
    "x509_ops \<Rightarrow> ('pk, 'sk, 'sg, 'ke) ed25519_ops \<Rightarrow> 'pk tls_config \<Rightarrow> 'pk tls_config \<Rightarrow> bool" where
  "mutually_accepted xo ed client server \<longleftrightarrow>
     list_ex (\<lambda>v. v \<in> set (tls_versions server)) (tls_versions client)
     \<and> list_ex (\<lambda>v. v \<in> set (tls_cipher_suites server)) (tls_cipher_suites client)
     \<and> list_ex (\<lambda>v. v \<in> set (tls_alpn server)) (tls_alpn client)
     \<and> (case tls_certs server of [] \<Rightarrow> False
        | ee # ints \<Rightarrow> verify_server_cert xo ed (tls_verifier client) ee ints = Ok ())
     \<and> (case tls_certs client of [] \<Rightarrow> False
        | ee # ints \<Rightarrow> verify_client_cert xo ed (tls_verifier server) ee ints = Ok ())"

text \<open>
  A network that works: an endpoint can be bound, and a connection to a server's address is
  established with that server exactly when the two accept each other.
\<close>

locale quic_network = quic_client qc xo ed ep_config presented transcript
  for qc :: "('pk, 'ep, 'ing, 'c, 'w, 's) quic_ops"
    and xo :: x509_ops and ed :: "('pk, 'sk, 'sg, 'ke) ed25519_ops"
    and ep_config :: "'ep \<Rightarrow> 'pk client_config option"
    and presented :: "'c \<Rightarrow> bytes list" and transcript :: "'c \<Rightarrow> bytes" +
  fixes server_at :: "socket_addr \<Rightarrow> 'pk tls_config option"
  assumes endpoint_bound: "\<exists>ep. qc_endpoint qc (SocketAddr (V4 0) 0) = Inr ep"
    and reached:
      "ep_config ep = Some cfg \<Longrightarrow> server_at addr = Some server \<Longrightarrow>
       \<exists>ing. qc_connect qc ep addr name = Inr ing
         \<and> (if mutually_accepted xo ed (cc_tls cfg) server
            then \<exists>c. qc_await qc ing = Inr c \<and> presented c = tls_certs server
            else \<exists>e. qc_await qc ing = Inl e)"
begin

lemma setup_reached:
  assumes "make_client_config xo ed rc rl kp (opt_peer_id opts) (opt_keylog opts) = Ok client"
    and "server_at (opt_addr opts) = Some server"
  shows "if mutually_accepted xo ed client server
    then \<exists>c. setup_connection qc xo ed rc rl kp opts = Ok c \<and> presented c = tls_certs server
    else \<exists>e. setup_connection qc xo ed rc rl kp opts = Err (ConnectError e)"
proof -
  obtain ep where ep: "qc_endpoint qc (SocketAddr (V4 0) 0) = Inr ep" using endpoint_bound by blast
  from reached [OF default_config assms(2), of ep "\<lparr>cc_tls = client, cc_keep_alive = Some 1\<rparr>" "''localhost''"]
  show ?thesis by (auto simp: setup_connection_def assms(1) ep Let_def split: if_splits)
qed

end

lemma made_configs_accepted:
  assumes "certificates ed genuine xo rc" and "genuine kp" and "genuine kp'"
    and "make_server_config xo ed rc rl kp keylog = Ok server"
    and "make_client_config xo ed rc rl kp' remote keylog' = Ok client"
  shows "mutually_accepted xo ed client server \<longleftrightarrow> remote \<in> {None, Some (PeerId (keypair_public kp))}"
proof -
  from assms(4) obtain cert key where 1: "generate xo ed rc kp = Ok (cert, key)"
      "build_config rl verifier_new cert key keylog = (Ok server :: ('a tls_config, 'f gen_error) outcome)"
    by (auto simp: make_server_config_def and_then_eq_Ok)
  from assms(5) obtain cert' key' where 2: "generate xo ed rc kp' = Ok (cert', key')"
      "build_config rl (with_remote_peer_id remote) cert' key' keylog' = (Ok client :: ('a tls_config, 'f gen_error) outcome)"
    by (auto simp: make_client_config_def and_then_eq_Ok)
  obtain c where c: "parse xo ed cert = Ok c" "cert_peer_id c = PeerId (keypair_public kp)"
    using certificates.generated_certificate [OF assms(1) 1(1) assms(2)] by blast
  obtain c' where c': "parse xo ed cert' = Ok c'"
    using certificates.generated_certificate [OF assms(1) 2(1) assms(3)] by blast
  have "tls_cipher_suites server = CIPHERSUITES" "tls_cipher_suites client = CIPHERSUITES"
    using 1(2) 2(2) by (auto simp: build_config_def split: if_splits)
  with build_config_Ok [OF 1(2)] build_config_Ok [OF 2(2)] c c' show ?thesis
    by (auto simp: mutually_accepted_def verify_server_cert_def verify_client_cert_def
        verify_presented_certs_def with_remote_peer_id_def CIPHERSUITES_def split: option.splits)
qed

section \<open>An instance\<close>

text \<open>
  Servers at addresses, and connections that are established when both configurations
  agree. A connection is what the server presented.
\<close>

definition plain_quic ::
    "(socket_addr \<Rightarrow> bytes32 tls_config option) \<Rightarrow> 'w \<Rightarrow> 's
       \<Rightarrow> (bytes32, bytes32 client_config option, bytes32 client_config \<times> bytes32 tls_config, bytes list, 'w, 's) quic_ops" where
  "plain_quic server_at w s =
     \<lparr>qc_endpoint = (\<lambda>a. Inr None),
      qc_set_default = (\<lambda>ep cfg. Some cfg),
      qc_connect = (\<lambda>ep addr name.
        case (ep, server_at addr) of (Some cfg, Some server) \<Rightarrow> Inr (cfg, server) | _ \<Rightarrow> Inl 1),
      qc_await = (\<lambda>(cfg, server).
        if mutually_accepted plain_x509 plain_ed (cc_tls cfg) server then Inr (tls_certs server) else Inl 2),
      qc_open_bi = (\<lambda>c. Inr (w, s))\<rparr>"

lemma plain_handshake:
  assumes "parse plain_x509 plain_ed ee = Ok cert"
  shows "\<exists>dss. server_verify_tls13_signature plain_x509 plain_ed self msg ee dss = Ok ()"
proof -
  from assms obtain scheme alg where "cert_signature_scheme plain_x509 cert = Ok scheme" "scheme_algorithm scheme = Ok alg"
    by (auto simp: parse_Ok cert_verify_Ok)
  then have "server_verify_tls13_signature plain_x509 plain_ed self msg ee
      \<lparr>dss_scheme = scheme, dss_signature = x_spki_key (pc_certificate cert) @ msg\<rparr> = Ok ()"
    using assms by (simp add: server_verify_tls13_signature_def verify_tls13_signature_def verify_signature_def cert_public_key_def plain_x509_def)
  then show ?thesis by blast
qed

interpretation plain_net: quic_network "plain_quic server_at w s" plain_x509 plain_ed id id "\<lambda>_. []" server_at
  for server_at :: "socket_addr \<Rightarrow> bytes32 tls_config option" and w :: 'w and s :: 's
proof
  fix ep cfg addr name ing c
  assume a: "id ep = Some cfg" "qc_connect (plain_quic server_at w s) ep addr name = Inr ing"
    "qc_await (plain_quic server_at w s) ing = Inr c"
  then obtain server where "server_at addr = Some server" "mutually_accepted plain_x509 plain_ed (cc_tls cfg) server"
      "c = tls_certs server"
    by (auto simp: plain_quic_def split: option.splits if_splits)
  then obtain ee ints where 1: "c = ee # ints"
      "verify_server_cert plain_x509 plain_ed (tls_verifier (cc_tls cfg)) ee ints = Ok ()"
    by (auto simp: mutually_accepted_def split: list.splits)
  then obtain cert where "parse plain_x509 plain_ed ee = Ok cert"
    by (auto simp: verify_server_cert_def and_then_eq_Ok verify_presented_certs_Ok)
  from plain_handshake [OF this] 1 show "\<exists>ee ints dss. id c = ee # ints
      \<and> verify_server_cert plain_x509 plain_ed (tls_verifier (cc_tls cfg)) ee ints = Ok ()
      \<and> server_verify_tls13_signature plain_x509 plain_ed (tls_verifier (cc_tls cfg)) [] ee dss = Ok ()"
    by auto
qed (auto simp: plain_quic_def)

section \<open>Properties of connections\<close>

text \<open>
  C5: a getter that was given a peer id sends nothing, and calls
  none of its caller's callbacks, unless it is connected to a peer that presented one
  acceptable certificate, for that peer id: the peer's identity key signed the certificate's
  key, and that key signed the handshake.
\<close>

theorem nothing_sent_to_strangers:
  assumes "quic_client qc xo ed ep_config presented transcript" and "opt_peer_id opts = Some (PeerId k)"
  shows "(\<exists>c ee cert alg sig. setup_connection qc xo ed rc rl kp opts = Ok c
      \<and> presented c = [ee] \<and> parse xo ed ee = Ok cert
      \<and> ed_verify ed k (P2P_SIGNING_PREFIX @ x_spki_raw (pc_certificate cert)) (px_signature (pc_extension cert))
      \<and> ring_verify xo alg (x_spki_key (pc_certificate cert)) (transcript c) sig)
    \<or> (case run checks (open_stream qc xo ed rc rl kp) ro wo dops fmt cbs h token opts elapsed u of
         (r, w, u') \<Rightarrow> (\<forall>st. r \<noteq> Ok st) \<and> w = None \<and> u' = u)"
proof (cases "setup_connection qc xo ed rc rl kp opts")
  case (Ok c)
  from quic_client.connected_peer [OF assms(1) this assms(2)] obtain ee cert alg sig where
    1: "presented c = [ee]" "parse xo ed ee = Ok cert" "cert_peer_id cert = PeerId k"
      "ring_verify xo alg (x_spki_key (pc_certificate cert)) (transcript c) sig"
    by blast
  from 1(2,3) have "ed_verify ed k (P2P_SIGNING_PREFIX @ x_spki_raw (pc_certificate cert)) (px_signature (pc_extension cert))"
    by (simp add: parse_Ok cert_verify_Ok cert_peer_id_def)
  with Ok 1 show ?thesis by blast
qed (simp_all add: open_stream_def run_def)

text \<open>
  C33: with the provider's TLS configuration at the other end, the
  getter connects exactly when it expects the provider's peer id or none; otherwise it gets
  a connection error.
\<close>

theorem connects_to_expected_peer:
  assumes "quic_network qc xo ed ep_config presented transcript server_at"
    and "certificates ed genuine xo rc" and "genuine kp" and "genuine kp'"
    and "make_server_config xo ed rc rl kp keylog = Ok server"
    and "make_client_config xo ed rc rl kp' (opt_peer_id opts) (opt_keylog opts) = Ok client"
    and "server_at (opt_addr opts) = Some server"
  shows "if opt_peer_id opts \<in> {None, Some (PeerId (keypair_public kp))}
    then \<exists>c. setup_connection qc xo ed rc rl kp' opts = Ok c \<and> presented c = tls_certs server
    else \<exists>e. setup_connection qc xo ed rc rl kp' opts = Err (ConnectError e)"
  using quic_network.setup_reached [OF assms(1,6,7)] made_configs_accepted [OF assms(2-6)] by presburger

lemma plain_configs:
  "\<exists>server. make_server_config plain_x509 plain_ed (plain_rcgen ck) plain_rustls kp keylog = Ok server"
  "\<exists>client. make_client_config plain_x509 plain_ed (plain_rcgen ck) plain_rustls kp remote keylog = Ok client"
  by (simp_all add: make_server_config_def make_client_config_def generate_def plain_rcgen_def
      make_libp2p_extension_def Let_def build_config_def plain_rustls_def CIPHERSUITES_def PROTOCOL_VERSIONS_def)

theorem connects_to_expected_peer_witness:
  "\<exists>server. make_server_config plain_x509 plain_ed (plain_rcgen (fill32 3)) plain_rustls
       \<lparr>kp_public = fill32 5, kp_secret = fill32 5\<rparr> False = Ok server
    \<and> (\<exists>c. setup_connection (plain_quic (\<lambda>a. Some server) () ()) plain_x509 plain_ed (plain_rcgen (fill32 3)) plain_rustls
        \<lparr>kp_public = fill32 6, kp_secret = fill32 6\<rparr>
        \<lparr>opt_addr = SocketAddr (V4 1) 4433, opt_peer_id = Some (PeerId (fill32 5)), opt_keylog = False\<rparr> = Ok c)"
proof -
  let ?kp = "\<lparr>kp_public = fill32 5, kp_secret = fill32 5\<rparr> :: (bytes32, bytes32) keypair"
  let ?kp' = "\<lparr>kp_public = fill32 6, kp_secret = fill32 6\<rparr> :: (bytes32, bytes32) keypair"
  let ?opts = "\<lparr>opt_addr = SocketAddr (V4 1) 4433, opt_peer_id = Some (PeerId (fill32 5)), opt_keylog = False\<rparr>"
  obtain server where s: "make_server_config plain_x509 plain_ed (plain_rcgen (fill32 3)) plain_rustls ?kp False = Ok server"
    using plain_configs(1) by blast
  obtain client where c: "make_client_config plain_x509 plain_ed (plain_rcgen (fill32 3)) plain_rustls ?kp'
      (opt_peer_id ?opts) (opt_keylog ?opts) = Ok client"
    using plain_configs(2) by blast
  have "plain_genuine ?kp" "plain_genuine ?kp'" by (simp_all add: plain_genuine_def)
  from connects_to_expected_peer [OF plain_net.quic_network_axioms [of "\<lambda>a. Some server" "()" "()"]
      plain_certificates.certificates_axioms this s c] s
  show ?thesis by (auto simp: keypair_public_def)
qed

definition idle :: "(unit, plain_decoder) callbacks" where
  "idle = \<lparr>cb_connected = (\<lambda>u. (Inr (), u)), cb_collection = (\<lambda>c u. (Inr (), u)), cb_blob = (\<lambda>h d n u. (Inr d, u))\<rparr>"

theorem nothing_sent_to_strangers_witness:
  "\<exists>server. make_server_config plain_x509 plain_ed (plain_rcgen (fill32 3)) plain_rustls
       \<lparr>kp_public = fill32 5, kp_secret = fill32 5\<rparr> False = Ok server
    \<and> fst (snd (run True (open_stream (plain_quic (\<lambda>a. Some server) \<lparr>mem_sent = [], mem_finished = False\<rparr> []) plain_x509 plain_ed
         (plain_rcgen (fill32 3)) plain_rustls \<lparr>kp_public = fill32 6, kp_secret = fill32 6\<rparr>)
        chunk_ops mem_eager_ops plain_dec_ops wire_format idle (Hash (fill32 1)) (AuthToken (fill32 2))
        \<lparr>opt_addr = SocketAddr (V4 1) 4433, opt_peer_id = Some (PeerId (fill32 7)), opt_keylog = False\<rparr> 0 ())) = None"
proof -
  let ?kp = "\<lparr>kp_public = fill32 5, kp_secret = fill32 5\<rparr> :: (bytes32, bytes32) keypair"
  let ?kp' = "\<lparr>kp_public = fill32 6, kp_secret = fill32 6\<rparr> :: (bytes32, bytes32) keypair"
  let ?opts = "\<lparr>opt_addr = SocketAddr (V4 1) 4433, opt_peer_id = Some (PeerId (fill32 7)), opt_keylog = False\<rparr>"
  obtain server where s: "make_server_config plain_x509 plain_ed (plain_rcgen (fill32 3)) plain_rustls ?kp False = Ok server"
    using plain_configs(1) by blast
  obtain client where c: "make_client_config plain_x509 plain_ed (plain_rcgen (fill32 3)) plain_rustls ?kp'
      (opt_peer_id ?opts) (opt_keylog ?opts) = Ok client"
    using plain_configs(2) by blast
  let ?net = "plain_quic (\<lambda>a. Some server) \<lparr>mem_sent = [], mem_finished = False\<rparr> ([] :: chunk_stream)"
  have "plain_genuine ?kp" "plain_genuine ?kp'" by (simp_all add: plain_genuine_def)
  from made_configs_accepted [OF plain_certificates.certificates_axioms this s c]
  have "\<not> mutually_accepted plain_x509 plain_ed client server" by (simp add: keypair_public_def)
  then have "setup_connection ?net plain_x509 plain_ed (plain_rcgen (fill32 3)) plain_rustls ?kp' ?opts \<noteq> Ok x" for x
    using plain_net.setup_reached [OF c, of "\<lambda>a. Some server" server "\<lparr>mem_sent = [], mem_finished = False\<rparr>" "[] :: chunk_stream"]
    by auto
  with nothing_sent_to_strangers [OF plain_net.quic_client_axioms [of "\<lambda>a. Some server"
        "\<lparr>mem_sent = [], mem_finished = False\<rparr>" "[] :: chunk_stream"], where opts = ?opts and k = "fill32 7"
      and rc = "plain_rcgen (fill32 3)" and rl = plain_rustls and kp = ?kp' and checks = True and ro = chunk_ops
      and wo = mem_eager_ops and dops = plain_dec_ops and fmt = wire_format and cbs = idle and h = "Hash (fill32 1)"
      and token = "AuthToken (fill32 2)" and elapsed = 0 and u = "()"]
  have "fst (snd (run True (open_stream ?net plain_x509 plain_ed (plain_rcgen (fill32 3)) plain_rustls ?kp')
        chunk_ops mem_eager_ops plain_dec_ops wire_format idle (Hash (fill32 1)) (AuthToken (fill32 2)) ?opts 0 ())) = None"
    by (auto split: prod.splits)
  with s show ?thesis by blast
qed

end
