(* ===== verification/Program.thy ===== *)
theory Program
  imports Cli Connect Samples
begin

text \<open>
  \<^verbatim>\<open>src/main.rs\<close>, second part: the commands with everything they show on the terminal,
  and \<^verbatim>\<open>main\<close>. The texts that the crates console and indicatif make are parameters, the
  progress bar is the list of the operations called on it. Writing to the terminal is taken
  to succeed, as the program does (\<^verbatim>\<open>unwrap\<close>, \<^verbatim>\<open>println!\<close>).
\<close>

section \<open>The terminal\<close>

record term_ops =
  tm_dim :: "string \<Rightarrow> string"
  human_bytes :: "u64 \<Rightarrow> string"
  human_duration :: "nat \<Rightarrow> string"

datatype bar_op =
    BarTick | BarStyle | BarLength u64 | BarReset | BarToStderr | BarMessage string | BarWrap | BarFinish

text \<open>The standard error, the progress bar, and the files and standard output.\<close>

record screen =
  sn_stderr :: string
  sn_bar :: "bar_op list"
  sn_out :: out_state

definition text_lines :: "string list \<Rightarrow> string" where
  "text_lines ls = concat (map (\<lambda>l. l @ [CHR 0x0A]) ls)"

lemma text_lines_simps [simp]:
  "text_lines [] = []" "text_lines (l # ls) = l @ CHR 0x0A # text_lines ls"
  "text_lines (ls @ ls') = text_lines ls @ text_lines ls'"
  by (simp_all add: text_lines_def)

text \<open>\<^verbatim>\<open>OutWriter::println\<close>, and Rust's \<^verbatim>\<open>println!\<close>.\<close>

definition out_println :: "string \<Rightarrow> screen \<Rightarrow> screen" where
  "out_println content s = s\<lparr>sn_stderr := sn_stderr s @ content @ [CHR 0x0A]\<rparr>"

definition stdout_println :: "string \<Rightarrow> screen \<Rightarrow> screen" where
  "stdout_println content s =
     s\<lparr>sn_out := (sn_out s)\<lparr>os_stdout := os_stdout (sn_out s) @ str_bytes (content @ [CHR 0x0A])\<rparr>\<rparr>"

definition bar_do :: "bar_op list \<Rightarrow> screen \<Rightarrow> screen" where
  "bar_do ops s = s\<lparr>sn_bar := sn_bar s @ ops\<rparr>"

text \<open>A number as \<^verbatim>\<open>Display\<close> prints it.\<close>

fun decimal :: "nat \<Rightarrow> string" where
  "decimal n = (if n < 10 then [char_of (48 + n)] else decimal (n div 10) @ [char_of (48 + n mod 10)])"

declare decimal.simps [simp del]

section \<open>Getting\<close>

definition get_callbacks ::
    "'de base64_engine \<Rightarrow> term_ops \<Rightarrow> 'd out_ops \<Rightarrow> path option \<Rightarrow> (screen, 'd) callbacks" where
  "get_callbacks eng tm oo out =
     \<lparr>cb_connected = (\<lambda>s. (Inr (), out_println (tm_dim tm ''[2/3]'' @ '' Requesting ...'') s)),
      cb_collection = (\<lambda>collection s.
        let name = collection_name collection;
            entries = total_entries collection;
            size = total_blobs_size collection;
            s1 = out_println (tm_dim tm ''[3/3]'' @ '' Downloading '' @ name @ ''...'') s;
            s2 = out_println (''  '' @ decimal (unat entries) @ '' file(s) with total transfer size '' @ human_bytes tm size) s1
        in (Inr (), bar_do [BarLength size, BarReset, BarToStderr] s2)),
      cb_blob = (\<lambda>h reader name s.
        let shown = (if name = [] then hash_display eng h else name);
            s1 = bar_do [BarMessage (''Receiving '' @ CHR 0x27 # shown @ CHR 0x27 # ''...''), BarWrap] s
        in case on_blob eng oo out h reader name (sn_out s1) of (r, written) \<Rightarrow> (r, s1\<lparr>sn_out := written\<rparr>))\<rparr>"

definition get_interactive ::
    "bool \<Rightarrow> ('pk options \<Rightarrow> ('w \<times> 's, error) outcome) \<Rightarrow> 's recv_ops \<Rightarrow> 'w send_ops \<Rightarrow> ('s, 'd) decoder_ops
       \<Rightarrow> format \<Rightarrow> 'de base64_engine \<Rightarrow> ('be, 'me) cid_engine \<Rightarrow> term_ops \<Rightarrow> 'd out_ops \<Rightarrow> nat
       \<Rightarrow> hash \<Rightarrow> 'pk options \<Rightarrow> auth_token \<Rightarrow> path option \<Rightarrow> (screen, unit, error) io" where
  "get_interactive checks net_open ro wo dops fmt eng ce tm oo elapsed h opts token out s =
     (let s1 = out_println (''Fetching: '' @ cid_display ce (Blake3Cid h)) s;
          s2 = out_println (tm_dim tm ''[1/3]'' @ '' Connecting ...'') s1;
          s3 = bar_do [BarTick, BarStyle] s2
      in case run checks net_open ro wo dops fmt (get_callbacks eng tm oo out) h token opts elapsed s3 of
           (Err e, w, s4) \<Rightarrow> (Err e, s4)
         | (Panic p, w, s4) \<Rightarrow> (Panic p, s4)
         | (Ok st, w, s4) \<Rightarrow>
             (Ok (), out_println (''Done in '' @ human_duration tm (st_elapsed st)) (bar_do [BarFinish] s4)))"

section \<open>Providing\<close>

datatype ('se, 'de, 'ge) provide_failure =
    FailedKey "'se keypair_error"
  | FailedSources provide_command_error
  | FailedCollection provide_error
  | FailedToken "'de auth_token_parse_error"
  | FailedSpawn "'ge spawn_error"
  | FailedServing nat

definition show_text :: "(screen \<Rightarrow> screen) \<Rightarrow> ('f \<times> screen, unit, 'e) io" where
  "show_text f = (\<lambda>(fs, s). (Ok (), (fs, f s)))"

definition collection_lines :: "('be, 'me) cid_engine \<Rightarrow> database \<Rightarrow> hash \<Rightarrow> screen \<Rightarrow> screen" where
  "collection_lines ce db h s =
     (let s1 = stdout_println (''Collection: '' @ cid_display ce (Blake3Cid h) @ [CHR 0x0A]) s;
          s2 = fold (\<lambda>(k, path, size). stdout_println (''- '' @ path @ '': '' @ decimal (unat size) @ '' bytes''))
            (database_blobs db) s1
      in stdout_println [] s2)"

definition provider_lines ::
    "'de base64_engine \<Rightarrow> ('pk, 'sk, 'sg, 'ke) ed25519_ops \<Rightarrow> format \<Rightarrow> 'pk ticket_codec \<Rightarrow> hash
       \<Rightarrow> ('pk, 'sk) provider \<Rightarrow> screen \<Rightarrow> screen" where
  "provider_lines eng ed fmt tc h pv s =
     (let s1 = out_println (''PeerID: '' @ peer_id_display eng ed (provider_peer_id pv)) s;
          s2 = out_println (''Auth token: '' @ auth_token_display eng (provider_auth_token pv)) s1
      in out_println (''All-in-one ticket: '' @ ticket_display eng fmt tc (provider_ticket pv h)) s2)"

text \<open>
  \<^verbatim>\<open>provide_interactive\<close> up to the point where the provider runs. The state is that of the
  key store and the screen; the arguments in the first line are the crates and the values
  drawn at random.
\<close>

definition provide_start ::
    "bool \<Rightarrow> format \<Rightarrow> bao_ops \<Rightarrow> fs_ops \<Rightarrow> path_ops \<Rightarrow> ('pk, 'sk, 'k, 'se) ssh_ops \<Rightarrow> 'f key_store
       \<Rightarrow> 'de base64_engine \<Rightarrow> ('be, 'me) cid_engine \<Rightarrow> 'pk ticket_codec
       \<Rightarrow> x509_ops \<Rightarrow> ('pk, 'sk, 'sg, 'ke) ed25519_ops \<Rightarrow> ('ck, 'ge) rcgen_ops \<Rightarrow> rustls_ops
       \<Rightarrow> ('pk server_config \<Rightarrow> socket_addr \<Rightarrow> io_error + socket_addr)
       \<Rightarrow> ('pk, 'sk) keypair \<Rightarrow> ('pk, 'sk) keypair \<Rightarrow> auth_token
       \<Rightarrow> path option \<Rightarrow> socket_addr option \<Rightarrow> string option \<Rightarrow> path option \<Rightarrow> bool
       \<Rightarrow> ('f \<times> screen, database \<times> hash \<times> ('pk, 'sk) provider \<times> 'pk server_config, ('se, 'de, 'ge) provide_failure) io" where
  "provide_start checks fmt bao fs po ssh ks eng ce tc xo ed rc rl listen fresh_keypair builder_keypair builder_token
      path addr auth_token key keylog =
     io_bind (\<lambda>(keys, s).
       case get_keypair ssh ks fresh_keypair key keys of (r, keys') \<Rightarrow> (map_err FailedKey r, (keys', s))) (\<lambda>keypair.
     io_bind (case path of Some p \<Rightarrow> show_text (out_println (''Reading '' @ p)) | None \<Rightarrow> io_ret ()) (\<lambda>_.
     io_bind (io_lift (map_err FailedSources (provide_sources po path))) (\<lambda>sources.
     io_bind (io_lift (map_err FailedCollection (create_collection checks fmt bao fs sources))) (\<lambda>(db, h).
     io_bind (show_text (collection_lines ce db h)) (\<lambda>_.
     io_bind (io_lift (map_err FailedToken
       (provide_builder eng builder_keypair builder_token db keypair keylog addr auth_token))) (\<lambda>builder.
     io_bind (io_lift (map_err FailedSpawn (spawn xo ed rc rl listen builder))) (\<lambda>(provider, server_config).
     io_bind (show_text (provider_lines eng ed fmt tc h provider)) (\<lambda>_.
     io_ret (db, h, provider, server_config)))))))))"

text \<open>\<open>serve\<close> is what awaiting the provider's task comes to.\<close>

definition provide_interactive ::
    "('st, 'p, ('se, 'de, 'ge) provide_failure) io \<Rightarrow> ('p \<Rightarrow> nat + unit)
       \<Rightarrow> ('st, unit, ('se, 'de, 'ge) provide_failure) io" where
  "provide_interactive start serve = io_bind start (\<lambda>provider. io_lift (of_sum FailedServing (serve provider)))"

section \<open>main\<close>

datatype 'pk commands =
    Provide "path option" "socket_addr option" "string option" "path option" bool
  | Get blake3_cid "'pk peer_id" string "socket_addr option" "path option" bool
  | GetTicket "path option" "'pk ticket" bool

datatype ('se, 'de, 'ge) main_error =
    GetFailed error
  | TokenFormat "'de auth_token_parse_error"
  | ProvideFailed "('se, 'de, 'ge) provide_failure"

text \<open>
  \<^verbatim>\<open>select!\<close> between a command and the interrupt of the user: \<open>interrupted\<close> is the state
  in which the interrupt finds the command, if it comes before the command is done.
\<close>

definition or_interrupt ::
    "('st \<Rightarrow> 'st) \<Rightarrow> 'st option \<Rightarrow> ('st, unit, 'e) io \<Rightarrow> ('st, unit, 'e) io" where
  "or_interrupt farewell interrupted cmd st =
     (case interrupted of None \<Rightarrow> cmd st | Some st' \<Rightarrow> (Ok (), farewell st'))"

definition io_map_err :: "('e \<Rightarrow> 'f) \<Rightarrow> ('st, 'a, 'e) io \<Rightarrow> ('st, 'a, 'f) io" where
  "io_map_err g m st = (case m st of (r, st') \<Rightarrow> (map_err g r, st'))"

definition on_terminal :: "(screen, 'a, 'e) io \<Rightarrow> ('f \<times> screen, 'a, 'e) io" where
  "on_terminal m = (\<lambda>(fs, s). case m s of (r, s') \<Rightarrow> (r, (fs, s')))"

fun program_main ::
    "'de base64_engine \<Rightarrow> (hash \<Rightarrow> 'pk options \<Rightarrow> auth_token \<Rightarrow> path option \<Rightarrow> (screen, unit, error) io)
       \<Rightarrow> (path option \<Rightarrow> socket_addr option \<Rightarrow> string option \<Rightarrow> path option \<Rightarrow> bool
            \<Rightarrow> ('f \<times> screen, unit, ('se, 'de, 'ge) provide_failure) io)
       \<Rightarrow> ('f \<times> screen) option \<Rightarrow> 'pk commands \<Rightarrow> ('f \<times> screen, unit, ('se, 'de, 'ge) main_error) io" where
  "program_main eng get provide interrupted (Get cid peer token addr out keylog) =
     io_bind (io_lift (map_err TokenFormat
       (command_get eng (\<lambda>h token opts out. get h opts token out) cid peer token addr out keylog))) (\<lambda>getting.
     or_interrupt (map_prod id (stdout_println ''Ending transfer early...'')) interrupted
       (on_terminal (io_map_err GetFailed getting)))"
| "program_main eng get provide interrupted (GetTicket out ticket keylog) =
     or_interrupt (map_prod id (stdout_println ''Ending transfer early...'')) interrupted
       (on_terminal (io_map_err GetFailed
         (command_get_ticket (\<lambda>h token opts out. get h opts token out) ticket out keylog)))"
| "program_main eng get provide interrupted (Provide path addr auth_token key keylog) =
     or_interrupt (map_prod id (stdout_println (CHR 0x0A # ''Shutting down provider...''))) interrupted
       (io_map_err ProvideFailed (provide path addr auth_token key keylog))"

section \<open>What a download shows and writes\<close>

lemma println_sel [simp]:
  "sn_stderr (out_println l s) = sn_stderr s @ l @ [CHR 0x0A]" "sn_out (out_println l s) = sn_out s"
  "sn_stderr (bar_do ops s) = sn_stderr s" "sn_out (bar_do ops s) = sn_out s"
  "sn_stderr (stdout_println l s) = sn_stderr s"
  by (simp_all add: out_println_def bar_do_def stdout_println_def)

text \<open>The screen after one more blob.\<close>

definition shown_blob :: "'de base64_engine \<Rightarrow> path option \<Rightarrow> screen \<Rightarrow> hash \<times> bytes \<times> string \<Rightarrow> screen" where
  "shown_blob eng out s = (\<lambda>(h, data, name).
     let shown = (if name = [] then hash_display eng h else name);
         s1 = bar_do [BarMessage (''Receiving '' @ CHR 0x27 # shown @ CHR 0x27 # ''...''), BarWrap] s
     in s1\<lparr>sn_out := put_out eng out (sn_out s) (h, data, name)\<rparr>)"

lemma shown_blobs:
  "sn_stderr (foldl (shown_blob eng out) s xs) = sn_stderr s"
  "sn_out (foldl (shown_blob eng out) s xs) = foldl (put_out eng out) (sn_out s) xs"
  by (induction xs arbitrary: s) (auto simp: shown_blob_def Let_def split: prod.splits)

context copying
begin

lemma get_consumes:
  assumes "no_out_errors oo"
  shows "consumes pos (get_callbacks eng tm oo out) (shown_blob eng out)"
  unfolding consumes_def
proof (intro allI impI)
  fix h x n and s :: screen and al rs
  assume "pos x al al rs"
  then have "\<exists>x'. cb_blob (interactive_callbacks eng oo out) h x n (sn_out s) =
      (Inr x', put_out eng out (sn_out s) (h, al, n)) \<and> pos x' al [] rs"
    using interactive_consumes [OF assms, of eng out] unfolding consumes_def by blast
  then obtain x' where "on_blob eng oo out h x n (sn_out s) = (Inr x', put_out eng out (sn_out s) (h, al, n))"
      "pos x' al [] rs"
    by (auto simp: interactive_callbacks_def)
  then show "\<exists>x'. cb_blob (get_callbacks eng tm oo out) h x n s = (Inr x', shown_blob eng out s (h, al, n))
      \<and> pos x' al [] rs"
    by (intro exI [of _ x']) (simp add: get_callbacks_def shown_blob_def Let_def)
qed

end

text \<open>The lines of a successful download.\<close>

definition download_lines ::
    "('be, 'me) cid_engine \<Rightarrow> term_ops \<Rightarrow> fs_ops \<Rightarrow> data_source list \<Rightarrow> hash \<Rightarrow> nat \<Rightarrow> string list" where
  "download_lines ce tm fs sources h elapsed =
     [''Fetching: '' @ cid_display ce (Blake3Cid h),
      tm_dim tm ''[1/3]'' @ '' Connecting ...'',
      tm_dim tm ''[2/3]'' @ '' Requesting ...'',
      tm_dim tm ''[3/3]'' @ '' Downloading collection...'',
      ''  '' @ decimal (length sources) @ '' file(s) with total transfer size ''
        @ human_bytes tm (of_nat (sum_list (map (length \<circ> source_content fs) sources))),
      ''Done in '' @ human_duration tm elapsed]"

lemma get_interactive_delivers:
  assumes parties: "exchange fmt bao ro rest dops pos wo sent fin"
    and "copying oo pos" and "no_out_errors oo"
    and created: "create_collection checks fmt bao fs sources = Ok (db, h)"
    and "deliverable bao fs sources h"
    and "sent wc = []" and "sent wp = []"
  shows "\<exists>wc'. send_request wo fmt token h wc = (Ok (), wc')
    \<and> (\<forall>s. rest s = sent wc' \<longrightarrow>
        (\<exists>wp' buf. handle_stream ro wo fmt bao fs db token cid s wp =
            (Ok (), \<lparr>tx_writer = wp', tx_buffer = buf\<rparr>, [EvRequestReceived cid 1 h, EvTransferCompleted cid 1])
          \<and> (\<forall>s'. rest s' = sent wp' \<longrightarrow>
              (\<exists>scr'. get_interactive checks' (\<lambda>opts. Ok (wc, s')) ro wo dops fmt eng ce tm oo elapsed h opts token out scr =
                  (Ok (), scr')
                \<and> sn_out scr' = foldl (put_out eng out) (sn_out scr) (map (delivered bao fs) sources)
                \<and> sn_stderr scr' = sn_stderr scr @ text_lines (download_lines ce tm fs sources h elapsed)))))"
proof -
  let ?cbs = "get_callbacks eng tm oo out"
  have keep: "consumes pos ?cbs (shown_blob eng out)"
    by (rule copying.get_consumes [OF assms(2,3)])
  have "length sources < 512"
    using create_collection_few [OF _ created] parties by (simp add: exchange_def)
  then have len: "unat (of_nat (length sources) :: u64) = length sources"
    by (simp add: unat_of_nat take_bit_eq_mod)
  define s3 where "s3 = bar_do [BarTick, BarStyle] (out_println (tm_dim tm ''[1/3]'' @ '' Connecting ...'')
    (out_println (''Fetching: '' @ cid_display ce (Blake3Cid h)) scr))"
  define s4 where "s4 = out_println (tm_dim tm ''[2/3]'' @ '' Requesting ...'') s3"
  obtain s5 where s5: "cb_collection ?cbs (shared_collection bao fs sources) s4 = (Inr (), s5)"
    and out5: "sn_out s5 = sn_out scr"
    and err5: "sn_stderr s5 = sn_stderr scr @ text_lines (butlast (download_lines ce tm fs sources h elapsed))"
    by (simp add: get_callbacks_def shared_collection_def s4_def s3_def download_lines_def
        collection_name_def total_entries_def total_blobs_size_def len Let_def)
  have conn: "cb_connected ?cbs s3 = (Inr (), s4)" by (simp add: get_callbacks_def s4_def)
  have last: "download_lines ce tm fs sources h elapsed =
      butlast (download_lines ce tm fs sources h elapsed) @ [''Done in '' @ human_duration tm elapsed]"
    by (simp add: download_lines_def)
  let ?final = "out_println (''Done in '' @ human_duration tm elapsed)
    (bar_do [BarFinish] (foldl (shown_blob eng out) s5 (map (delivered bao fs) sources)))"
  have "sn_stderr ?final = sn_stderr scr @ text_lines (download_lines ce tm fs sources h elapsed)"
    by (subst last) (simp add: shown_blobs err5)
  moreover have "sn_out ?final = foldl (put_out eng out) (sn_out scr) (map (delivered bao fs) sources)"
    by (simp add: shown_blobs out5)
  moreover have "get_interactive checks' (\<lambda>opts. Ok (wc, s')) ro wo dops fmt eng ce tm oo elapsed h opts token out scr = (Ok (), ?final)"
    if "run checks' (\<lambda>opts. Ok (wc, s')) ro wo dops fmt ?cbs h token opts elapsed s3 =
      (Ok \<lparr>st_data_len = n, st_elapsed = elapsed\<rparr>, wr, foldl (shown_blob eng out) s5 (map (delivered bao fs) sources))" for s' n wr
    using that by (simp add: get_interactive_def s3_def Let_def)
  ultimately show ?thesis
    using exchange_delivers [OF parties created assms(5-7) keep s5 conn, of token cid checks' opts elapsed] by metis
qed

section \<open>From one command to the other\<close>

lemma show_text_Ok: "show_text f st = (Ok u, st') \<longleftrightarrow> st' = map_prod id f st"
  by (cases st) (auto simp: show_text_def)

lemma provide_start_Ok:
  assumes "provide_start checks fmt bao fs po ssh ks eng ce tc xo ed rc rl listen fresh bkp btok
      path addr auth_token key keylog (keys, scr) = (Ok (db, h, pv, sc), (keys', scr'))"
  obtains keypair sources b where "get_keypair ssh ks fresh key keys = (Ok keypair, keys')"
    and "provide_sources po path = Ok sources" and "create_collection checks fmt bao fs sources = Ok (db, h)"
    and "provide_builder eng bkp btok db keypair keylog addr auth_token = Ok b"
    and "spawn xo ed rc rl listen b = Ok (pv, sc)"
    and "scr' = provider_lines eng ed fmt tc h pv (collection_lines ce db h
      (case path of Some p \<Rightarrow> out_println (''Reading '' @ p) scr | None \<Rightarrow> scr))"
proof -
  obtain r keys1 where k: "get_keypair ssh ks fresh key keys = (r, keys1)" by fastforce
  with assms obtain keypair where r: "r = Ok keypair"
    by (cases r) (auto simp: provide_start_def io_bind_def)
  define s1 where "s1 = (case path of Some p \<Rightarrow> out_println (''Reading '' @ p) scr | None \<Rightarrow> scr)"
  have reading: "(case path of Some p \<Rightarrow> show_text (out_println (''Reading '' @ p)) | None \<Rightarrow> io_ret ()) (keys1, scr) =
      (Ok (), (keys1, s1))"
    by (cases path) (simp_all add: show_text_def io_ret_def s1_def)
  from assms show thesis
    by (simp add: provide_start_def k r reading)
      (auto simp: io_bind_eq_Ok io_simps show_text_Ok s1_def [symmetric] split: prod.splits
        intro!: that [unfolded s1_def [symmetric]] simp: k r)
qed

text \<open>The ticket is the last line that \<^verbatim>\<open>provide\<close> shows.\<close>

lemma provider_lines_ticket:
  "\<exists>shown. sn_stderr (provider_lines eng ed fmt tc h pv s) =
     shown @ ''All-in-one ticket: '' @ ticket_display eng fmt tc (provider_ticket pv h) @ [CHR 0x0A]"
  by (simp add: provider_lines_def Let_def)

text \<open>
  The two commands together. When \<^verbatim>\<open>provide\<close> has started,
  the last line it showed holds a ticket; \<^verbatim>\<open>get-ticket\<close> with that ticket asks the address
  the provider listens on, for the peer it is, with its token. The provider answers the
  request to its end, and \<^verbatim>\<open>get-ticket\<close> succeeds, having written the contents of every
  source, and nothing else, and shown the lines of a download.
\<close>

theorem provide_then_get_ticket:
  fixes scr :: screen and ce :: "('be, 'me) cid_engine"
  assumes "exchange fmt bao ro rest dops pos wo sent fin"
    and "copying oo pos" and "no_out_errors oo" and "ticket_format eng fmt tc"
    and "provide_start checks fmt bao fs po ssh ks eng ce tc xo ed rc rl listen fresh bkp btok
      path addr auth_token key keylog (keys, scr) = (Ok (db, h, pv, sc), (keys', scr'))"
    and "provide_sources po path = Ok sources" and "deliverable bao fs sources h"
    and "sent wc = []" and "sent wp = []"
  shows "\<exists>shown text t wc'. sn_stderr scr' = shown @ ''All-in-one ticket: '' @ text @ [CHR 0x0A]
    \<and> ticket_from_str eng fmt tc text = Ok t
    \<and> get_ticket_options t keylog' =
        \<lparr>opt_addr = pv_listen_addr pv, opt_peer_id = Some (provider_peer_id pv), opt_keylog = keylog'\<rparr>
    \<and> send_request wo fmt (tk_token t) (tk_hash t) wc = (Ok (), wc')
    \<and> (\<forall>s. rest s = sent wc' \<longrightarrow>
        (\<exists>wp' buf. handle_stream ro wo fmt bao fs db (pv_auth_token pv) cid s wp =
            (Ok (), \<lparr>tx_writer = wp', tx_buffer = buf\<rparr>, [EvRequestReceived cid 1 h, EvTransferCompleted cid 1])
          \<and> (\<forall>s'. rest s' = sent wp' \<longrightarrow>
              (\<exists>gscr'. program_main eng
                  (get_interactive checks' (\<lambda>opts. Ok (wc, s')) ro wo dops fmt eng ce tm oo elapsed)
                  provide None (GetTicket out t keylog') (files, gscr) = (Ok (), (files, gscr'))
                \<and> sn_out gscr' = foldl (put_out eng out) (sn_out gscr) (map (delivered bao fs) sources)
                \<and> sn_stderr gscr' = sn_stderr gscr @ text_lines (download_lines ce tm fs sources h elapsed)))))"
proof -
  from assms(5) obtain keypair sources' b where "provide_sources po path = Ok sources'"
    and created: "create_collection checks fmt bao fs sources' = Ok (db, h)"
    and scr': "scr' = provider_lines eng ed fmt tc h pv (collection_lines ce db h
      (case path of Some p \<Rightarrow> out_println (''Reading '' @ p) scr | None \<Rightarrow> scr))"
    by (rule provide_start_Ok)
  with assms(6) have created: "create_collection checks fmt bao fs sources = Ok (db, h)" by simp
  let ?t = "provider_ticket pv h"
  obtain shown where shown: "sn_stderr scr' =
      shown @ ''All-in-one ticket: '' @ ticket_display eng fmt tc ?t @ [CHR 0x0A]"
    unfolding scr' using provider_lines_ticket by blast
  have parsed: "ticket_from_str eng fmt tc (ticket_display eng fmt tc ?t) = Ok ?t"
    by (rule ticket_format.ticket_round_trip [OF assms(4)])
  have opts: "get_ticket_options ?t keylog' =
      \<lparr>opt_addr = pv_listen_addr pv, opt_peer_id = Some (provider_peer_id pv), opt_keylog = keylog'\<rparr>"
    by (simp add: get_ticket_options_def provider_ticket_def)
  have main: "program_main eng get provide None (GetTicket out ?t keylog') (files, gscr) = (Ok (), (files, gscr'))"
    if "get h (get_ticket_options ?t keylog') (pv_auth_token pv) out gscr = (Ok (), gscr')" for get gscr'
    using that by (simp add: or_interrupt_def on_terminal_def io_map_err_def command_get_ticket_def provider_ticket_def)
  let ?get = "\<lambda>s'. get_interactive checks' (\<lambda>opts. Ok (wc, s')) ro wo dops fmt eng ce tm oo elapsed"
  obtain wc' where 1: "send_request wo fmt (pv_auth_token pv) h wc = (Ok (), wc')"
    and 2: "\<And>s. rest s = sent wc' \<Longrightarrow>
        \<exists>wp' buf. handle_stream ro wo fmt bao fs db (pv_auth_token pv) cid s wp =
            (Ok (), \<lparr>tx_writer = wp', tx_buffer = buf\<rparr>, [EvRequestReceived cid 1 h, EvTransferCompleted cid 1])
          \<and> (\<forall>s'. rest s' = sent wp' \<longrightarrow>
              (\<exists>gscr'. ?get s' h (get_ticket_options ?t keylog') (pv_auth_token pv) out gscr = (Ok (), gscr')
                \<and> sn_out gscr' = foldl (put_out eng out) (sn_out gscr) (map (delivered bao fs) sources)
                \<and> sn_stderr gscr' = sn_stderr gscr @ text_lines (download_lines ce tm fs sources h elapsed)))"
    using get_interactive_delivers [OF assms(1-3) created assms(7-9)] by blast
  have "\<exists>wp' buf. handle_stream ro wo fmt bao fs db (pv_auth_token pv) cid s wp =
        (Ok (), \<lparr>tx_writer = wp', tx_buffer = buf\<rparr>, [EvRequestReceived cid 1 h, EvTransferCompleted cid 1])
      \<and> (\<forall>s'. rest s' = sent wp' \<longrightarrow>
          (\<exists>gscr'. program_main eng (?get s') provide None (GetTicket out ?t keylog') (files, gscr) = (Ok (), (files, gscr'))
            \<and> sn_out gscr' = foldl (put_out eng out) (sn_out gscr) (map (delivered bao fs) sources)
            \<and> sn_stderr gscr' = sn_stderr gscr @ text_lines (download_lines ce tm fs sources h elapsed)))"
    if s: "rest s = sent wc'" for s
    using 2 [OF s] main by blast
  moreover have "tk_hash ?t = h" "tk_token ?t = pv_auth_token pv" by (simp_all add: provider_ticket_def)
  ultimately show ?thesis using shown parsed opts 1 by metis
qed

section \<open>The commands on a concrete file\<close>

text \<open>A file system with one file to provide, no directories and an empty standard input.\<close>

definition file_paths :: path_ops where
  "file_paths =
     \<lparr>po_is_dir = (\<lambda>p. False), po_is_file = (\<lambda>p. p = ''/data/a.txt''), po_read_dir = (\<lambda>p. Inl (OtherIo 20)),
      po_stdin_to_file = Inl UnexpectedEof\<rparr>"

abbreviation one_sources :: "data_source list" where
  "one_sources \<equiv> [File ''/data/a.txt'']"

definition one_collection :: collection where
  "one_collection = \<lparr>coll_name = ''collection'',
     coll_blobs = [\<lparr>blob_name = ''a.txt'', blob_hash = Hash (digest [1, 2, 3])\<rparr>], coll_total_blobs_size = 3\<rparr>"

lemma one_collection_length: "length (put_collection wire_format one_collection) \<le> 1061"
  by (simp add: one_collection_def put_collection_def put_vec_def put_blob_def wire.length_put_hash)
    (simp add: wire_format_def varint_small)

abbreviation one_h :: hash where
  "one_h \<equiv> Hash (digest (put_collection wire_format one_collection))"

lemma one_created: "\<exists>db. create_collection True wire_format plain_bao two_files one_sources = Ok (db, one_h)"
proof -
  have outboards: "map (source_outboard plain_bao two_files) one_sources = map Ok
     [(''/data/a.txt'', None, Hash (digest [1, 2, 3]), u64_to_le_bytes 3)]"
    by (simp add: two_files_def plain_bao_def source_outboard_def compute_outboard_def Let_def)
  from one_collection_length show ?thesis
    unfolding create_collection_def outboards
    by (simp add: insert_outboard_def slice_to_def building_new_def add_u64_def two_names Let_def
        to_slice_def one_collection_def [symmetric] plain_bao_def)
qed

lemma one_deliverable: "deliverable plain_bao two_files one_sources one_h"
proof -
  have "\<exists>rs. put_collection wire_format one_collection = 10 # rs"
    by (simp add: one_collection_def put_collection_def wire_format_def varint_small)
  then have "digest [1, 2, 3] \<noteq> digest (put_collection wire_format one_collection)"
    by (auto simp: digest_eq)
  then show ?thesis
    by (simp add: deliverable_def two_names source_content_def content_of_def two_files_def
        root_hash_def plain_bao_def Let_def)
qed

definition blank :: screen where
  "blank = \<lparr>sn_stderr = [], sn_bar = [], sn_out = \<lparr>os_files = Map.empty, os_stdout = []\<rparr>\<rparr>"

definition plain_term :: term_ops where
  "plain_term = \<lparr>tm_dim = id, human_bytes = (\<lambda>n. decimal (unat n) @ ''B''), human_duration = (\<lambda>n. decimal n @ ''s'')\<rparr>"

abbreviation plain_start ::
    "path option \<Rightarrow> ((path \<rightharpoonup> bytes) \<times> screen, database \<times> hash \<times> (bytes32, bytes32) provider \<times> bytes32 server_config,
      (unit, unit, unit) provide_failure) io" where
  "plain_start path \<equiv>
     provide_start True wire_format plain_bao two_files file_paths plain_ssh map_store rfc_engine rfc_cid_engine plain_codec
       plain_x509 plain_ed (plain_rcgen (fill32 3)) plain_rustls (\<lambda>cfg a. Inr a)
       \<lparr>kp_public = fill32 5, kp_secret = fill32 5\<rparr> \<lparr>kp_public = fill32 6, kp_secret = fill32 6\<rparr> (AuthToken (fill32 7))
       path None None None False"

lemma plain_started:
  "\<exists>db pv sc scr'. plain_start (Some ''/data/a.txt'') (Map.empty, blank) = (Ok (db, one_h, pv, sc), (Map.empty, scr'))"
proof -
  obtain db where db: "create_collection True wire_format plain_bao two_files one_sources = Ok (db, one_h)"
    using one_created by blast
  have src: "provide_sources file_paths (Some ''/data/a.txt'') = Ok one_sources"
    by (simp add: provide_sources_def file_paths_def data_source_new_def)
  let ?b = "with_keylog False (with_keypair \<lparr>kp_public = fill32 5, kp_secret = fill32 5\<rparr>
    (with_db \<lparr>kp_public = fill32 6, kp_secret = fill32 6\<rparr> (AuthToken (fill32 7)) db))"
  have b: "provide_builder rfc_engine \<lparr>kp_public = fill32 6, kp_secret = fill32 6\<rparr> (AuthToken (fill32 7)) db
      \<lparr>kp_public = fill32 5, kp_secret = fill32 5\<rparr> False None None = Ok ?b"
    by (simp add: provide_builder_def Let_def)
  obtain server where "make_server_config plain_x509 plain_ed (plain_rcgen (fill32 3)) plain_rustls (bd_keypair ?b) (bd_keylog ?b) = Ok server"
    using plain_configs(1) by blast
  then obtain pv sc where s: "spawn plain_x509 plain_ed (plain_rcgen (fill32 3)) plain_rustls (\<lambda>cfg a. Inr a) ?b = Ok (pv, sc)"
    by (simp add: spawn_def Let_def)
  show ?thesis
    by (simp add: provide_start_def get_keypair_def src db b s show_text_def io_ret_def)
qed

theorem provide_then_get_ticket_witness:
  "\<exists>db pv sc scr' t wc' wp' buf gscr'.
     plain_start (Some ''/data/a.txt'') (Map.empty, blank) = (Ok (db, one_h, pv, sc), (Map.empty, scr'))
   \<and> send_request mem_eager_ops wire_format (tk_token t) (tk_hash t) \<lparr>mem_sent = [], mem_finished = False\<rparr> = (Ok (), wc')
   \<and> handle_stream chunk_ops mem_eager_ops wire_format plain_bao two_files db (pv_auth_token pv) 9 [mem_sent wc']
       \<lparr>mem_sent = [], mem_finished = False\<rparr> =
      (Ok (), \<lparr>tx_writer = wp', tx_buffer = buf\<rparr>, [EvRequestReceived 9 1 one_h, EvTransferCompleted 9 1])
   \<and> (program_main rfc_engine
        (get_interactive True (\<lambda>opts :: bytes32 options. Ok (\<lparr>mem_sent = [], mem_finished = False\<rparr>, [mem_sent wp'])) chunk_ops mem_eager_ops
          plain_dec_ops wire_format rfc_engine rfc_cid_engine plain_term plain_out_ops 2)
        (\<lambda>path addr auth_token key keylog. provide_interactive (plain_start path) (\<lambda>p. Inr ()))
        None (GetTicket (Some ''out'') t False) (Map.empty, blank) :: (unit, (unit, unit, unit) main_error) outcome \<times> _) =
      (Ok (), (Map.empty, gscr'))
   \<and> os_files (sn_out gscr') = [''out/a.txt'' \<mapsto> [1, 2, 3]]"
proof -
  let ?w = "\<lparr>mem_sent = [], mem_finished = False\<rparr>"
  let ?provide = "\<lambda>path (addr :: socket_addr option) (auth_token :: string option) (key :: path option) (keylog :: bool).
    provide_interactive (plain_start path) (\<lambda>p. Inr ())"
  let ?get = "\<lambda>s'. get_interactive True (\<lambda>opts :: bytes32 options. Ok (?w, s')) chunk_ops mem_eager_ops
    plain_dec_ops wire_format rfc_engine rfc_cid_engine plain_term plain_out_ops 2"
  obtain db pv sc scr' where s: "plain_start (Some ''/data/a.txt'') (Map.empty, blank) = (Ok (db, one_h, pv, sc), (Map.empty, scr'))"
    using plain_started by blast
  have src: "provide_sources file_paths (Some ''/data/a.txt'') = Ok one_sources"
    by (simp add: provide_sources_def file_paths_def data_source_new_def)
  have ok: "no_out_errors plain_out_ops" by (simp add: no_out_errors_def plain_out_ops_def)
  have w: "mem_sent ?w = []" by simp
  have files: "os_files (foldl (put_out rfc_engine (Some ''out'')) (sn_out blank) (map (delivered plain_bao two_files) one_sources)) =
      [''out/a.txt'' \<mapsto> [1, 2, 3]]"
    by (simp add: blank_def delivered_def put_out_def two_names source_content_def content_of_def two_files_def
        path_join_def path_is_absolute_def Let_def)
  from provide_then_get_ticket [OF plain_exchange.exchange_axioms plain_copying.copying_axioms ok
      plain_ticket.ticket_format_axioms s src one_deliverable w w, where keylog' = False and cid = 9
      and checks' = True and tm = plain_term and elapsed = 2 and out = "Some ''out''" and gscr = blank
      and files = "Map.empty :: path \<rightharpoonup> bytes" and provide = ?provide]
  obtain t wc' where 1: "send_request mem_eager_ops wire_format (tk_token t) (tk_hash t) ?w = (Ok (), wc')"
    and 2: "\<And>s. concat s = mem_sent wc' \<Longrightarrow>
        \<exists>wp' buf. handle_stream chunk_ops mem_eager_ops wire_format plain_bao two_files db (pv_auth_token pv) 9 s ?w =
            (Ok (), \<lparr>tx_writer = wp', tx_buffer = buf\<rparr>, [EvRequestReceived 9 1 one_h, EvTransferCompleted 9 1])
          \<and> (\<forall>s'. concat s' = mem_sent wp' \<longrightarrow>
              (\<exists>gscr'. program_main rfc_engine (?get s') ?provide None (GetTicket (Some ''out'') t False) (Map.empty, blank) =
                  (Ok (), (Map.empty, gscr'))
                \<and> sn_out gscr' = foldl (put_out rfc_engine (Some ''out'')) (sn_out blank)
                    (map (delivered plain_bao two_files) one_sources)
                \<and> sn_stderr gscr' = sn_stderr blank
                    @ text_lines (download_lines rfc_cid_engine plain_term two_files one_sources one_h 2)))"
    by (elim exE conjE) (rule that, assumption, drule spec, drule mp, assumption, assumption)
  from 2 [of "[mem_sent wc']"] obtain wp' buf where
    3: "handle_stream chunk_ops mem_eager_ops wire_format plain_bao two_files db (pv_auth_token pv) 9 [mem_sent wc'] ?w =
        (Ok (), \<lparr>tx_writer = wp', tx_buffer = buf\<rparr>, [EvRequestReceived 9 1 one_h, EvTransferCompleted 9 1])"
    and 4: "\<And>s'. concat s' = mem_sent wp' \<Longrightarrow>
        \<exists>gscr'. program_main rfc_engine (?get s') ?provide None (GetTicket (Some ''out'') t False) (Map.empty, blank) =
            (Ok (), (Map.empty, gscr'))
          \<and> sn_out gscr' = foldl (put_out rfc_engine (Some ''out'')) (sn_out blank)
              (map (delivered plain_bao two_files) one_sources)
          \<and> sn_stderr gscr' = sn_stderr blank
              @ text_lines (download_lines rfc_cid_engine plain_term two_files one_sources one_h 2)"
    by (elim meta_impE exE conjE) (simp, rule that, assumption, drule spec, drule mp, assumption, assumption)
  have "concat [mem_sent wp'] = mem_sent wp'" by simp
  from 4 [OF this] obtain gscr' where
    5: "program_main rfc_engine (?get [mem_sent wp']) ?provide None (GetTicket (Some ''out'') t False) (Map.empty, blank) =
      (Ok (), (Map.empty, gscr'))"
    and "sn_out gscr' = foldl (put_out rfc_engine (Some ''out'')) (sn_out blank) (map (delivered plain_bao two_files) one_sources)"
    by (elim exE conjE) (rule that)
  then have "os_files (sn_out gscr') = [''out/a.txt'' \<mapsto> [1, 2, 3]]" using files by (simp only:)
  with s 1 3 5 show ?thesis by (intro exI conjI)
qed

end
