(* ===== verification/Lifecycle.thy ===== *)
theory Lifecycle
  imports Program Sessions
begin

text \<open>
  The two commands over a network and over time: how \<^verbatim>\<open>provide\<close> fails, what a ticket leads to
  through quinn's operations, and what is left of it when the provider is started again.
\<close>

section \<open>Where provide can stop\<close>

definition reading :: "path option \<Rightarrow> screen \<Rightarrow> screen" where
  "reading path s = (case path of Some p \<Rightarrow> out_println (''Reading '' @ p) s | None \<Rightarrow> s)"

lemma collection_lines_stderr [simp]: "sn_stderr (collection_lines ce db h s) = sn_stderr s"
proof -
  have "sn_stderr (fold (\<lambda>(k, path, size). stdout_println (''- '' @ path @ '': '' @ decimal (unat size) @ '' bytes'')) bs s) =
      sn_stderr s" for bs :: "(hash \<times> path \<times> u64) list" and s
    by (induction bs arbitrary: s) auto
  then show ?thesis by (simp add: collection_lines_def)
qed

lemma provide_start_stages:
  "provide_start checks fmt bao fs po ssh ks eng ce tc xo ed rc rl listen fresh bkp btok
      path addr auth_token key keylog (keys, scr) =
    (case get_keypair ssh ks fresh key keys of
       (Err e, keys') \<Rightarrow> (Err (FailedKey e), (keys', scr))
     | (Panic p, keys') \<Rightarrow> (Panic p, (keys', scr))
     | (Ok keypair, keys') \<Rightarrow>
    (case provide_sources po path of
       Err e \<Rightarrow> (Err (FailedSources e), (keys', reading path scr))
     | Panic p \<Rightarrow> (Panic p, (keys', reading path scr))
     | Ok sources \<Rightarrow>
    (case create_collection checks fmt bao fs sources of
       Err e \<Rightarrow> (Err (FailedCollection e), (keys', reading path scr))
     | Panic p \<Rightarrow> (Panic p, (keys', reading path scr))
     | Ok (db, h) \<Rightarrow>
       (let scr1 = collection_lines ce db h (reading path scr) in
        case provide_builder eng bkp btok db keypair keylog addr auth_token of
          Err e \<Rightarrow> (Err (FailedToken e), (keys', scr1))
        | Panic p \<Rightarrow> (Panic p, (keys', scr1))
        | Ok b \<Rightarrow>
       (case spawn xo ed rc rl listen b of
          Err e \<Rightarrow> (Err (FailedSpawn e), (keys', scr1))
        | Panic p \<Rightarrow> (Panic p, (keys', scr1))
        | Ok (pv, sc) \<Rightarrow> (Ok (db, h, pv, sc), (keys', provider_lines eng ed fmt tc h pv scr1)))))))"
  by (cases path)
    (simp_all add: provide_start_def io_bind_def io_simps show_text_def reading_def Let_def
      split: prod.split outcome.split)



section \<open>Through the network\<close>

lemma get_interactive_net:
  "net_open opts = net_open' opts \<Longrightarrow>
   get_interactive checks net_open ro wo dops fmt eng ce tm oo elapsed h opts token out =
   get_interactive checks net_open' ro wo dops fmt eng ce tm oo elapsed h opts token out"
  by (rule ext) (simp add: get_interactive_def run_def)

lemma get_interactive_pair:
  assumes parties: "exchange fmt bao ro rest dops pos wo sent fin"
    and "copying oo pos" and "no_out_errors oo"
    and created: "create_collection checks fmt bao fs sources = Ok (db, h)" "deliverable bao fs sources h"
    and pair: "stream_pair ro wo fmt bao fs rest sent db token cid token h (w, s) (sp, wp)"
    and "net_open opts = Ok (w, s)"
  shows "\<exists>scr'. get_interactive checks' net_open ro wo dops fmt eng ce tm oo elapsed h opts token out scr = (Ok (), scr')
    \<and> sn_out scr' = foldl (put_out eng out) (sn_out scr) (map (delivered bao fs) sources)
    \<and> sn_stderr scr' = sn_stderr scr @ text_lines (download_lines ce tm fs sources h elapsed)"
proof -
  from pair have p: "sent w = []" "sent wp = []" "rest sp = sent (snd (send_request wo fmt token h w))"
      "rest s = sent (tx_writer (fst (snd (handle_stream ro wo fmt bao fs db token cid sp wp))))"
    by (simp_all add: stream_pair_def)
  from get_interactive_delivers [OF assms(1-5) p(1,2), of token cid checks' eng ce tm elapsed opts out scr] p(3,4)
  have "\<exists>scr'. get_interactive checks' (\<lambda>opts. Ok (w, s)) ro wo dops fmt eng ce tm oo elapsed h opts token out scr = (Ok (), scr')
    \<and> sn_out scr' = foldl (put_out eng out) (sn_out scr) (map (delivered bao fs) sources)
    \<and> sn_stderr scr' = sn_stderr scr @ text_lines (download_lines ce tm fs sources h elapsed)"
    by force
  moreover have "net_open opts = (\<lambda>opts. Ok (w, s)) opts" by (simp add: assms(7))
  note get_interactive_net [where net_open = net_open and opts = opts and net_open' = "\<lambda>opts. Ok (w, s)", OF this]
  ultimately show ?thesis by metis
qed

text \<open>
  C3: the two commands over a network that works. When \<^verbatim>\<open>provide\<close> has
  started, the last line it showed holds a ticket. If the provider can be reached at the
  address it listens on, and the streams of connections to it carry what either end writes,
  \<^verbatim>\<open>get-ticket\<close> with that ticket connects to the provider, writes every file that was
  provided, shows what it should, and ends without error.
\<close>

theorem ticket_fetches:
  assumes parties: "exchange fmt bao ro rest dops pos wo sent fin" "copying oo pos" "no_out_errors oo"
    and net: "quic_network qc xo ed ep_config presented transcript server_at"
    and certs: "certificates ed genuine xo rc" and tickets: "ticket_format eng fmt tc"
    and started: "provide_start checks fmt bao fs po ssh ks eng ce tc xo ed rc rl listen fresh bkp btok
      path addr auth_token key keylog (keys, scr) = (Ok (db, h, pv, sc), (keys', scr'))"
    and shared: "provide_sources po path = Ok sources" "deliverable bao fs sources h"
    and genuine: "genuine (pv_keypair pv)" "genuine kp"
    and client: "make_client_config xo ed rc rl kp (Some (provider_peer_id pv)) keylog' = Ok client"
    and at: "server_at (pv_listen_addr pv) = Some (sc_tls sc)"
    and carried: "\<And>c. presented c = tls_certs (sc_tls sc) \<Longrightarrow> \<exists>getter_end task_end. qc_open_bi qc c = Inr getter_end
      \<and> stream_pair ro wo fmt bao fs rest sent db (pv_auth_token pv) cid (pv_auth_token pv) h getter_end task_end"
  shows "\<exists>shown text t gscr'. sn_stderr scr' = shown @ ''All-in-one ticket: '' @ text @ [CHR 0x0A]
    \<and> ticket_from_str eng fmt tc text = Ok t
    \<and> program_main eng
        (get_interactive checks' (open_stream qc xo ed rc rl kp) ro wo dops fmt eng ce tm oo elapsed)
        provide None (GetTicket out t keylog') (files, gscr) = (Ok (), (files, gscr'))
    \<and> sn_out gscr' = foldl (put_out eng out) (sn_out gscr) (map (delivered bao fs) sources)
    \<and> sn_stderr gscr' = sn_stderr gscr @ text_lines (download_lines ce tm fs sources h elapsed)"
proof -
  from started obtain keypair sources' b where "provide_sources po path = Ok sources'"
    and created: "create_collection checks fmt bao fs sources' = Ok (db, h)"
    and spawned: "spawn xo ed rc rl listen b = Ok (pv, sc)"
    and scr': "scr' = provider_lines eng ed fmt tc h pv (collection_lines ce db h
      (case path of Some p \<Rightarrow> out_println (''Reading '' @ p) scr | None \<Rightarrow> scr))"
    by (rule provide_start_Ok)
  with shared(1) have created: "create_collection checks fmt bao fs sources = Ok (db, h)" by simp
  let ?t = "provider_ticket pv h"
  let ?opts = "get_ticket_options ?t keylog'"
  have server: "make_server_config xo ed rc rl (pv_keypair pv) (bd_keylog b) = Ok (sc_tls sc)"
    using spawned by (auto simp: spawn_def and_then_eq_Ok of_sum_eq_Ok Let_def)
  have opts: "opt_addr ?opts = pv_listen_addr pv" "opt_peer_id ?opts = Some (provider_peer_id pv)" "opt_keylog ?opts = keylog'"
    by (simp_all add: get_ticket_options_def provider_ticket_def)
  have c: "make_client_config xo ed rc rl kp (opt_peer_id ?opts) (opt_keylog ?opts) = Ok client"
    using client by (simp add: opts)
  have "mutually_accepted xo ed client (sc_tls sc)"
    using made_configs_accepted [OF certs genuine server c] by (simp add: opts(2) provider_peer_id_def)
  with quic_network.setup_reached [OF net c, of "sc_tls sc"] at obtain conn where
    conn: "setup_connection qc xo ed rc rl kp ?opts = Ok conn" "presented conn = tls_certs (sc_tls sc)"
    by (auto simp: opts(1))
  from carried [OF conn(2)] obtain w s sp wp where bi: "qc_open_bi qc conn = Inr (w, s)"
    and pair: "stream_pair ro wo fmt bao fs rest sent db (pv_auth_token pv) cid (pv_auth_token pv) h (w, s) (sp, wp)"
    by (metis surj_pair)
  have opened: "open_stream qc xo ed rc rl kp ?opts = Ok (w, s)"
    by (simp add: open_stream_def conn(1) bi)
  let ?get = "get_interactive checks' (open_stream qc xo ed rc rl kp) ro wo dops fmt eng ce tm oo elapsed"
  from get_interactive_pair [where net_open = "open_stream qc xo ed rc rl kp" and opts = ?opts,
      OF parties created shared(2) pair opened] obtain gscr' where
    got: "?get h ?opts (pv_auth_token pv) out gscr = (Ok (), gscr')"
      "sn_out gscr' = foldl (put_out eng out) (sn_out gscr) (map (delivered bao fs) sources)"
      "sn_stderr gscr' = sn_stderr gscr @ text_lines (download_lines ce tm fs sources h elapsed)"
    by blast
  have "program_main eng ?get provide None (GetTicket out ?t keylog') (files, gscr) = (Ok (), (files, gscr'))"
    using got(1) by (simp add: or_interrupt_def on_terminal_def io_map_err_def command_get_ticket_def provider_ticket_def)
  moreover have "ticket_from_str eng fmt tc (ticket_display eng fmt tc ?t) = Ok ?t"
    by (rule ticket_format.ticket_round_trip [OF tickets])
  moreover obtain shown where "sn_stderr scr' = shown @ ''All-in-one ticket: '' @ ticket_display eng fmt tc ?t @ [CHR 0x0A]"
    unfolding scr' using provider_lines_ticket by blast
  ultimately show ?thesis using got(2,3) by blast
qed

section \<open>Starting again\<close>

lemma started_handle:
  assumes "\<And>cfg l. listen cfg a = Inr l \<Longrightarrow> l = a" and "auth_token_from_str eng encoded = Ok tok"
    and "provide_builder eng bkp btok db kp keylog (Some a) (Some encoded) = Ok b"
    and "spawn xo ed rc rl listen b = Ok (pv, sc)"
  shows "pv_keypair pv = kp \<and> pv_listen_addr pv = a \<and> pv_auth_token pv = tok"
  using assms by (auto simp: provide_builder_def spawn_def and_then_eq_Ok of_sum_eq_Ok Let_def
      with_keylog_def with_keypair_def bind_addr_def with_auth_token_def with_db_def)


section \<open>Both on the sample file\<close>

theorem ticket_fetches_witness:
  "\<exists>db pv sc scr' t gscr'.
     plain_start (Some ''/data/a.txt'') (Map.empty, blank) = (Ok (db, one_h, pv, sc), (Map.empty, scr'))
   \<and> (program_main rfc_engine
        (get_interactive True
          (open_stream (plain_quic (\<lambda>a. if a = pv_listen_addr pv then Some (sc_tls sc) else None)
              (fst (sample_getter_end two_files db 9 (pv_auth_token pv) one_h))
              (snd (sample_getter_end two_files db 9 (pv_auth_token pv) one_h)))
            plain_x509 plain_ed (plain_rcgen (fill32 3)) plain_rustls \<lparr>kp_public = fill32 8, kp_secret = fill32 8\<rparr>)
          chunk_ops mem_eager_ops plain_dec_ops wire_format rfc_engine rfc_cid_engine plain_term plain_out_ops 2)
        (\<lambda>path addr auth_token key keylog. provide_interactive (plain_start path) (\<lambda>p. Inr ()))
        None (GetTicket (Some ''out'') t False) (Map.empty, blank) :: (unit, (unit, unit, unit) main_error) outcome \<times> _) =
      (Ok (), (Map.empty, gscr'))
   \<and> os_files (sn_out gscr') = [''out/a.txt'' \<mapsto> [1, 2, 3]]"
proof -
  obtain db pv sc scr' where s: "plain_start (Some ''/data/a.txt'') (Map.empty, blank) = (Ok (db, one_h, pv, sc), (Map.empty, scr'))"
    using plain_started by blast
  let ?kp = "\<lparr>kp_public = fill32 8, kp_secret = fill32 8\<rparr> :: (bytes32, bytes32) keypair"
  let ?pair_end = "sample_getter_end two_files db 9 (pv_auth_token pv) one_h"
  let ?at = "\<lambda>a. if a = pv_listen_addr pv then Some (sc_tls sc) else None"
  have src: "provide_sources file_paths (Some ''/data/a.txt'') = Ok one_sources"
    by (simp add: provide_sources_def file_paths_def data_source_new_def)
  have ok: "no_out_errors plain_out_ops" by (simp add: no_out_errors_def plain_out_ops_def)
  from s have "pv_keypair pv = \<lparr>kp_public = fill32 5, kp_secret = fill32 5\<rparr>"
    by (rule provide_start_Ok)
      (auto simp: get_keypair_def provide_builder_def spawn_def and_then_eq_Ok of_sum_eq_Ok Let_def with_keylog_def with_keypair_def)
  then have g: "plain_genuine (pv_keypair pv)" "plain_genuine ?kp" by (simp_all add: plain_genuine_def)
  obtain client where c: "make_client_config plain_x509 plain_ed (plain_rcgen (fill32 3)) plain_rustls ?kp
      (Some (provider_peer_id pv)) False = Ok client"
    using plain_configs(2) by blast
  have at: "?at (pv_listen_addr pv) = Some (sc_tls sc)" by simp
  have carried: "\<exists>getter_end task_end. qc_open_bi (plain_quic ?at (fst ?pair_end) (snd ?pair_end)) conn = Inr getter_end
      \<and> stream_pair chunk_ops mem_eager_ops wire_format plain_bao two_files concat mem_sent db (pv_auth_token pv) 9
          (pv_auth_token pv) one_h getter_end task_end" for conn
    by (intro exI [of _ ?pair_end] exI [of _ "sample_task_end (pv_auth_token pv) one_h"] conjI)
      (simp_all add: plain_quic_def sample_pair)
  have files: "os_files (foldl (put_out rfc_engine (Some ''out'')) (sn_out blank) (map (delivered plain_bao two_files) one_sources)) =
      [''out/a.txt'' \<mapsto> [1, 2, 3]]"
    by (simp add: blank_def delivered_def put_out_def two_names source_content_def content_of_def two_files_def
        path_join_def path_is_absolute_def Let_def)
  from ticket_fetches [OF plain_exchange.exchange_axioms plain_copying.copying_axioms ok
      plain_net.quic_network_axioms plain_certificates.certificates_axioms plain_ticket.ticket_format_axioms
      s src one_deliverable g c at carried, where checks' = True and tm = plain_term and elapsed = 2 and out = "Some ''out''"
      and gscr = blank and files = "Map.empty :: path \<rightharpoonup> bytes"
      and provide = "\<lambda>path addr auth_token key keylog. provide_interactive (plain_start path) (\<lambda>p. Inr ())"]
  obtain t gscr' where
    r: "(program_main rfc_engine
        (get_interactive True
          (open_stream (plain_quic ?at (fst ?pair_end) (snd ?pair_end)) plain_x509 plain_ed (plain_rcgen (fill32 3)) plain_rustls ?kp)
          chunk_ops mem_eager_ops plain_dec_ops wire_format rfc_engine rfc_cid_engine plain_term plain_out_ops 2)
        (\<lambda>path addr auth_token key keylog. provide_interactive (plain_start path) (\<lambda>p. Inr ()))
        None (GetTicket (Some ''out'') t False) (Map.empty, blank) :: (unit, (unit, unit, unit) main_error) outcome \<times> _) =
      (Ok (), (Map.empty, gscr'))"
    and o: "sn_out gscr' = foldl (put_out rfc_engine (Some ''out'')) (sn_out blank) (map (delivered plain_bao two_files) one_sources)"
    by (elim exE conjE) (rule that)
  from o files have "os_files (sn_out gscr') = [''out/a.txt'' \<mapsto> [1, 2, 3]]" by (simp only:)
  with s r show ?thesis by (intro exI conjI)
qed

abbreviation kept_start ::
    "(bytes32, bytes32) keypair \<Rightarrow> (path \<rightharpoonup> bytes) \<times> screen
       \<Rightarrow> (database \<times> hash \<times> (bytes32, bytes32) provider \<times> bytes32 server_config, (unit, unit, unit) provide_failure) outcome
          \<times> (path \<rightharpoonup> bytes) \<times> screen" where
  "kept_start fresh \<equiv>
     provide_start True wire_format plain_bao two_files file_paths plain_ssh map_store rfc_engine rfc_cid_engine plain_codec
       plain_x509 plain_ed (plain_rcgen (fill32 3)) plain_rustls (\<lambda>cfg a. Inr a) fresh fresh (AuthToken (fill32 9))
       (Some ''/data/a.txt'') (Some (SocketAddr (V4 1) 4000)) (Some (auth_token_display rfc_engine (AuthToken (fill32 7))))
       (Some ''key'') False"

lemma kept_started:
  assumes "get_keypair plain_ssh map_store fresh (Some ''key'') keys = (Ok kp, keys')"
  shows "\<exists>db pv sc scr'. kept_start fresh (keys, scr) = (Ok (db, one_h, pv, sc), (keys', scr'))"
proof -
  obtain db where db: "create_collection True wire_format plain_bao two_files one_sources = Ok (db, one_h)"
    using one_created by blast
  have src: "provide_sources file_paths (Some ''/data/a.txt'') = Ok one_sources"
    by (simp add: provide_sources_def file_paths_def data_source_new_def)
  have tok: "auth_token_from_str rfc_engine (auth_token_display rfc_engine (AuthToken (fill32 7))) = Ok (AuthToken (fill32 7))"
    by (rule rfc.auth_token_round_trip)
  obtain b where b: "provide_builder rfc_engine fresh (AuthToken (fill32 9)) db kp False (Some (SocketAddr (V4 1) 4000))
      (Some (auth_token_display rfc_engine (AuthToken (fill32 7)))) = (Ok b :: (_, unit auth_token_parse_error) outcome)"
    by (simp add: provide_builder_def tok Let_def)
  obtain server where "make_server_config plain_x509 plain_ed (plain_rcgen (fill32 3)) plain_rustls (bd_keypair b) (bd_keylog b) = (Ok server :: (_, unit gen_error) outcome)"
    using plain_configs(1) by blast
  then obtain pv sc where "spawn plain_x509 plain_ed (plain_rcgen (fill32 3)) plain_rustls (\<lambda>cfg a. Inr a) b = (Ok (pv, sc) :: (_, unit spawn_error) outcome)"
    by (simp add: spawn_def Let_def)
  then show ?thesis by (simp add: provide_start_stages assms src db b Let_def)
qed


end
