(* ===== verification/Capacity.thy ===== *)
theory Capacity
  imports Samples
begin

text \<open>
  \<^verbatim>\<open>create_collection\<close> from the side of a caller: which sources always make a collection.
  The buffer for the encoded collection is an estimate; it is large enough for 501 files with
  short names, and never for 512 (\<open>create_collection_too_many\<close>).
\<close>

section \<open>The encoded collection fits\<close>

context postcard
begin

lemma length_put_blobs_short:
  assumes "list_all (\<lambda>b. length (blob_name b) < 128) bs"
  shows "length (concat (map (put_blob fmt) bs)) = (\<Sum>b\<leftarrow>bs. length (blob_name b) + 34)"
  using assms by (induction bs) (simp_all add: put_blob_def length_put_hash size_str_small)

lemma length_put_collection_short:
  assumes "list_all (\<lambda>b. length (blob_name b) < 128) (coll_blobs c)" and "length (coll_name c) < 128"
    and "length (coll_blobs c) \<le> 501"
  shows "length (put_collection fmt c)
    \<le> (\<Sum>b\<leftarrow>coll_blobs c. length (blob_name b) + 32) + length (coll_name c) + 1024"
proof -
  have two: "(\<Sum>b\<leftarrow>bs. length (blob_name b) + 34) = (\<Sum>b\<leftarrow>bs. length (blob_name b) + 32) + 2 * length bs" for bs
    by (induction bs) simp_all
  note two [of "coll_blobs c"]
  moreover have "length (put_seq_len fmt (length (coll_blobs c))) \<le> 10"
    by (rule size_seq_len) (use assms(3) in simp)
  moreover note size_u64 [of "coll_total_blobs_size c"]
  ultimately show ?thesis using assms
    by (simp add: put_collection_def put_vec_def size_str_small length_put_blobs_short)
qed

end

section \<open>Sources that make a collection\<close>

text \<open>A source whose file can be opened, read and hashed.\<close>

definition hashed :: "bao_ops \<Rightarrow> fs_ops \<Rightarrow> data_source \<Rightarrow> bool" where
  "hashed bao fs src \<longleftrightarrow> (\<exists>out. source_outboard bao fs src = Ok out)"

lemma hashed_outboards:
  "list_all (hashed bao fs) sources \<Longrightarrow> \<exists>outs. map (source_outboard bao fs) sources = map Ok outs"
proof (induction sources)
  case (Cons src sources)
  then obtain out outs where "source_outboard bao fs src = Ok out" "map (source_outboard bao fs) sources = map Ok outs"
    by (auto simp: hashed_def)
  then show ?case by (intro exI [of _ "out # outs"]) simp
qed simp

lemma insert_outboards_succeeds:
  assumes "list_all (\<lambda>out. 8 \<le> length (out_outboard out)) outs"
    and "unat (b_total st) + (\<Sum>out\<leftarrow>outs. unat (out_size out)) < 2 ^ 64"
  shows "\<exists>st'. insert_outboards checks outs st = Ok st'"
  using assms
proof (induction outs arbitrary: st)
  case (Cons out outs)
  obtain p name h ob where out: "out = (p, name, h, ob)" by (cases out)
  have long: "8 \<le> length ob" using Cons.prems(1) by (simp add: out)
  have sz: "u64_from_le_bytes (take 8 ob) = out_size out" by (simp add: out_size_def out)
  have "unat (b_total st) + unat (out_size out) < 2 ^ 64" using Cons.prems(2) by simp
  then have add: "add_u64 checks (b_total st) (out_size out) = (Ok (b_total st + out_size out) :: (_, provide_error) outcome)"
    "unat (b_total st + out_size out) = unat (b_total st) + unat (out_size out)"
    by (simp_all add: add_u64_small)
  have "\<exists>st1. insert_outboard checks out st = Ok st1"
    using long by (simp add: insert_outboard_def out slice_to_def sz [unfolded out] add(1) [unfolded out] Let_def)
  then obtain st1 where 1: "insert_outboard checks out st = Ok st1" by blast
  have "\<exists>st'. insert_outboards checks outs st1 = Ok st'"
    using Cons insert_outboard_Ok(3) [OF 1] add(2) by (intro Cons.IH) simp_all
  with 1 show ?case by simp
qed simp

text \<open>
  C28: up to 501 files whose names are shorter than 128 bytes always make a
  collection, if each of them can be read and hashed and the lengths add up to less than two
  to the power of 64.
\<close>

theorem create_collection_fits:
  assumes "postcard fmt" and "bao_encoder bao"
    and "list_all (hashed bao fs) sources" and "length sources \<le> 501"
    and "list_all (\<lambda>src. length (source_label src) < 128) sources"
    and "sum_list (map (length \<circ> source_content fs) sources) < 2 ^ 64"
  shows "\<exists>db h. create_collection checks fmt bao fs sources = Ok (db, h)"
proof -
  obtain outs where outs: "map (source_outboard bao fs) sources = map Ok outs"
    using hashed_outboards [OF assms(3)] by blast
  then have collected: "collect_results (map (source_outboard bao fs) sources) = Ok outs"
    by (simp add: collect_results_Ok)
  have len: "length outs = length sources" using outs by (metis length_map)
  have each: "source_outboard bao fs (sources ! i) = Ok (outs ! i)" if "i < length outs" for i
    using outs that len by (metis nth_map)
  have size: "unat (out_size (outs ! i)) \<le> length (source_content fs (sources ! i))" if "i < length outs" for i
    using bao_encoder.source_root(3) [OF assms(2) each [OF that]] source_outboard_of(1) [OF each [OF that]]
    by (simp add: unat_of_nat)
  have "map (unat \<circ> out_size) outs = map (\<lambda>i. unat (out_size (outs ! i))) [0..<length outs]"
    by (rule nth_equalityI) simp_all
  moreover have "map (length \<circ> source_content fs) sources = map (\<lambda>i. length (source_content fs (sources ! i))) [0..<length outs]"
    by (rule nth_equalityI) (simp_all add: len)
  moreover have "(\<Sum>i\<leftarrow>[0..<length outs]. unat (out_size (outs ! i)))
      \<le> (\<Sum>i\<leftarrow>[0..<length outs]. length (source_content fs (sources ! i)))"
    by (rule sum_list_mono) (simp add: size)
  ultimately have "sum_list (map (unat \<circ> out_size) outs) \<le> sum_list (map (length \<circ> source_content fs) sources)"
    by simp
  with assms(6) have total: "unat (b_total building_new) + (\<Sum>out\<leftarrow>outs. unat (out_size out)) < 2 ^ 64"
    by (simp add: building_new_def comp_def)
  have "8 \<le> length (out_outboard (outs ! i))" if "i < length outs" for i
    using bao_encoder.outboard_header(1) [OF assms(2)] bao_encoder.source_root(1) [OF assms(2) each [OF that]]
    by (metis fst_conv)
  then have "list_all (\<lambda>out. 8 \<le> length (out_outboard out)) outs" by (simp add: list_all_length)
  from insert_outboards_succeeds [OF this total] obtain st where st: "insert_outboards checks outs building_new = Ok st"
    by blast
  have names: "blob_name (out_blob (outs ! i)) = source_label (sources ! i)" if "i < length outs" for i
    using source_outboard_of(2) [OF each [OF that]] .
  let ?c = "\<lparr>coll_name = ''collection'', coll_blobs = b_blobs st, coll_total_blobs_size = b_total st\<rparr>"
  from insert_outboards_Ok [OF st] have blobs: "b_blobs st = map out_blob outs"
      "b_estimate st = (\<Sum>b\<leftarrow>map out_blob outs. length (blob_name b) + 32)"
    by (simp_all add: building_new_def)
  have "list_all (\<lambda>b. length (blob_name b) < 128) (map out_blob outs)"
    using assms(5) len by (simp add: list_all_length names)
  with assms(4) have "length (put_collection fmt ?c) \<le> b_estimate st + length (coll_name ?c) + 1024"
    using postcard.length_put_collection_short [OF assms(1), of ?c] by (simp add: blobs len)
  then show ?thesis
    by (simp add: create_collection_def collected st to_slice_def Let_def split: prod.splits)
qed

theorem create_collection_fits_witness:
  "\<exists>db h. create_collection True wire_format plain_bao two_files (replicate 501 (File ''/data/a.txt'')) = Ok (db, h)"
proof (rule create_collection_fits [OF wire.postcard_axioms plain_bao.bao_encoder_axioms])
  show "list_all (hashed plain_bao two_files) (replicate 501 (File ''/data/a.txt''))"
    using two_outboards by (auto simp: hashed_def two_sources_def list_all_iff)
  show "list_all (\<lambda>src. length (source_label src) < 128) (replicate 501 (File ''/data/a.txt''))"
    by (simp add: list_all_iff two_names)
  show "sum_list (map (length \<circ> source_content two_files) (replicate 501 (File ''/data/a.txt''))) < 2 ^ 64"
    by (simp add: sum_list_replicate source_content_def content_of_def two_files_def)
qed simp

end
