(* ===== verification/Scenarios.thy ===== *)
theory Scenarios
  imports Lifecycle Capacity
begin

text \<open>
  \<^verbatim>\<open>src/lib.rs\<close>: the tests of the whole library, as functions over the model of provider and
  getter. A test is \<open>Ok ()\<close> when it passes, \<open>Err\<close> when it returns an error and \<open>Panic\<close> when
  an assertion, an \<^verbatim>\<open>unwrap\<close> or an \<^verbatim>\<open>expect\<close> in it fails. The theorems say under which
  conditions on the crates and on the network the tests pass, and what they cannot detect.
\<close>

section \<open>A directory for a test\<close>

definition plain_name :: "string \<Rightarrow> bool" where
  "plain_name n \<longleftrightarrow> n \<noteq> [] \<and> CHR ''/'' \<notin> set n \<and> n \<noteq> ''.'' \<and> n \<noteq> ''..'' \<and> utf8_valid n"

lemma split_on_some: "split_on d xs \<noteq> []"
  by (induction xs) (auto split: list.splits)

lemma split_on_append: "split_on d (xs @ d # ys) = split_on d xs @ split_on d ys"
  by (induction xs) (auto simp: split_on_some split: list.splits)

lemma split_on_none: "d \<notin> set xs \<Longrightarrow> split_on d xs = [xs]"
  by (induction xs) auto

lemma file_name_last:
  assumes "plain_name n" and "p = n \<or> p = xs @ CHR ''/'' # n"
  shows "path_file_name p = Some n"
proof -
  have "split_on (CHR ''/'') n = [n]" using assms(1) by (simp add: plain_name_def split_on_none)
  with assms(2) obtain cs where cs: "split_on (CHR ''/'') p = cs @ [n]"
    by (auto simp: split_on_append intro: that [of "[]"])
  from assms(1) have "n \<noteq> []" "n \<noteq> ''.''" "n \<noteq> ''..''" by (simp_all add: plain_name_def)
  then show ?thesis by (cases "filter (\<lambda>c. c \<noteq> [] \<and> c \<noteq> ''.'') cs") (simp_all add: path_file_name_def cs)
qed

lemma plain_name_relative: "plain_name n \<Longrightarrow> \<not> path_is_absolute n"
  by (cases n) (auto simp: plain_name_def path_is_absolute_def)

lemma joined_name:
  assumes "plain_name n"
  shows "source_label (File (path_join dir n)) = n"
proof -
  have "path_join dir n = n \<or> (\<exists>xs. path_join dir n = xs @ CHR ''/'' # n)"
  proof (cases "dir = [] \<or> last dir \<noteq> CHR ''/''")
    case True
    with plain_name_relative [OF assms] show ?thesis by (auto simp: path_join_def)
  next
    case False
    then have "dir = butlast dir @ [CHR ''/'']" by (metis append_butlast_last_id)
    with plain_name_relative [OF assms] False show ?thesis
      by (metis append.assoc append_Cons append_Nil path_join_def)
  qed
  then have "path_file_name (path_join dir n) = Some n" using file_name_last [OF assms] by metis
  moreover have "utf8_valid n" using assms by (simp add: plain_name_def)
  ultimately show ?thesis by (simp add: source_name_def os_to_str_def)
qed

lemma joined_inj: "plain_name n \<Longrightarrow> plain_name m \<Longrightarrow> path_join dir n = path_join dir m \<longleftrightarrow> n = m"
  by (auto simp: path_join_def plain_name_relative)

text \<open>A file as \<^verbatim>\<open>create_collection\<close> sees it: there is a regular file that holds the bytes.\<close>

definition holds :: "fs_ops \<Rightarrow> path \<Rightarrow> bytes \<Rightarrow> bool" where
  "holds fs p d \<longleftrightarrow> fs_is_file fs p
     \<and> (\<exists>f. fs_open fs p = Inr f \<and> file_len f = Inr (of_nat (length d)) \<and> file_read f = Inr d)"

lemma holds_content: "holds fs p d \<Longrightarrow> content_of fs p = d"
  by (auto simp: holds_def content_of_def)

text \<open>
  \<^verbatim>\<open>tokio::fs::write\<close> into the directory that \<^verbatim>\<open>testdir!\<close> made for the test: a file that was
  written holds what was written, and files with other names stay as they are.
\<close>

locale test_directory =
  fixes store :: "path \<Rightarrow> bytes \<Rightarrow> (fs_ops, unit, io_error) io" and dir :: path
  assumes written: "store (path_join dir n) d fs = (Ok (), fs') \<Longrightarrow> holds fs' (path_join dir n) d"
    and unchanged:
      "store (path_join dir n) d fs = (Ok (), fs') \<Longrightarrow> plain_name n \<Longrightarrow> plain_name m \<Longrightarrow> m \<noteq> n \<Longrightarrow>
       holds fs (path_join dir m) d' \<Longrightarrow> holds fs' (path_join dir m) d'"
    and no_panic: "store p d fs \<noteq> (Panic q, fs')"

text \<open>A directory that takes every file.\<close>

definition write_file :: "path \<Rightarrow> bytes \<Rightarrow> (fs_ops, unit, io_error) io" where
  "write_file p d fs =
     (Ok (), fs\<lparr>fs_is_file := (fs_is_file fs)(p := True),
                fs_open := (fs_open fs)(p := Inr \<lparr>file_len = Inr (of_nat (length d)), file_read = Inr d\<rparr>)\<rparr>)"

interpretation temp_directory: test_directory write_file dir
  by unfold_locales (auto simp: write_file_def holds_def joined_inj)

section \<open>The files of a transfer\<close>

text \<open>
  The first part of \<^verbatim>\<open>transfer_data\<close>: every file is written, becomes a source, and its name,
  path and hash are what is expected at the other end.
\<close>

fun prepare_files ::
    "bao_ops \<Rightarrow> (path \<Rightarrow> bytes \<Rightarrow> (fs_ops, unit, io_error) io) \<Rightarrow> path \<Rightarrow> (string \<times> bytes) list
       \<Rightarrow> (fs_ops, data_source list \<times> (string \<times> path \<times> hash) list, io_error) io" where
  "prepare_files bao store dir [] = io_ret ([], [])"
| "prepare_files bao store dir ((name, data) # file_opts) =
     (let path = path_join dir name;
          h = Hash (snd (bao_outboard bao data)) in
      io_bind (store path data) (\<lambda>_.
      io_bind (prepare_files bao store dir file_opts) (\<lambda>(files, expects).
      io_ret (File path # files, (name, path, h) # expects))))"

definition expected :: "bao_ops \<Rightarrow> path \<Rightarrow> string \<times> bytes \<Rightarrow> string \<times> path \<times> hash" where
  "expected bao dir = (\<lambda>(name, data). (name, path_join dir name, Hash (root_hash bao data)))"

definition stored_at :: "path \<Rightarrow> string \<times> bytes \<Rightarrow> data_source" where
  "stored_at dir = (\<lambda>(name, data). File (path_join dir name))"

lemma prepare_files_Ok:
  assumes "prepare_files bao store dir opts fs0 = (Ok (files, expects), fs)"
  shows "files = map (stored_at dir) opts \<and> expects = map (expected bao dir) opts"
  using assms
proof (induction opts arbitrary: files expects fs0)
  case (Cons nd opts)
  then show ?case
    by (cases nd) (auto simp: io_bind_eq_Ok io_ret_def root_hash_def stored_at_def expected_def Let_def)
qed (simp add: io_ret_def)

context test_directory
begin

lemma prepared_unchanged:
  assumes "prepare_files bao store dir opts fs0 = (Ok fe, fs)"
    and "plain_name m" and "m \<notin> fst ` set opts" and "list_all (plain_name \<circ> fst) opts"
    and "holds fs0 (path_join dir m) d"
  shows "holds fs (path_join dir m) d"
  using assms
proof (induction opts arbitrary: fs0 fe)
  case (Cons nd opts)
  obtain n data where nd: "nd = (n, data)" by fastforce
  from Cons.prems(1) obtain fs1 fe1 where 1: "store (path_join dir n) data fs0 = (Ok (), fs1)"
      "prepare_files bao store dir opts fs1 = (Ok fe1, fs)"
    by (auto simp: nd io_bind_eq_Ok Let_def io_ret_def)
  have "holds fs1 (path_join dir m) d"
    using unchanged [OF 1(1)] Cons.prems nd by auto
  with Cons.IH [OF 1(2)] Cons.prems show ?case by simp
qed (simp add: io_ret_def)

lemma prepared:
  assumes "prepare_files bao store dir opts fs0 = (Ok fe, fs)"
    and "distinct (map fst opts)" and "list_all (plain_name \<circ> fst) opts"
  shows "list_all (\<lambda>(n, d). holds fs (path_join dir n) d) opts"
  using assms
proof (induction opts arbitrary: fs0 fe)
  case (Cons nd opts)
  obtain n data where nd: "nd = (n, data)" by fastforce
  from Cons.prems(1) obtain fs1 fe1 where 1: "store (path_join dir n) data fs0 = (Ok (), fs1)"
      "prepare_files bao store dir opts fs1 = (Ok fe1, fs)"
    by (auto simp: nd io_bind_eq_Ok Let_def io_ret_def)
  have "holds fs (path_join dir n) data"
    by (rule prepared_unchanged [OF 1(2) _ _ _ written [OF 1(1)]]) (use Cons.prems nd in \<open>auto simp: comp_def\<close>)
  with Cons.IH [OF 1(2)] Cons.prems nd show ?case by simp
qed simp

end

section \<open>What a test checks\<close>

text \<open>
  \<open>ck_next\<close> is the counter \<^verbatim>\<open>i\<close> of \<^verbatim>\<open>transfer_data\<close>. A callback that panics unwinds the getter;
  in the model it records the panic and ends the getter with an error, and the test looks at
  the record first.
\<close>

record checker =
  ck_next :: nat
  ck_panic :: "panic option"

datatype 'ge test_error =
    TestIo io_error
  | TestCreate provide_error
  | TestSpawn "'ge spawn_error"
  | TestGet error
  | TestProvider nat
  | TestAborted
  | TestEvents

definition panicking :: "panic \<Rightarrow> checker \<Rightarrow> (error + 'r) \<times> checker" where
  "panicking p u = (Inl (CallbackError 0), u\<lparr>ck_panic := Some p\<rparr>)"

definition unwound :: "panic option \<Rightarrow> (unit, 'e) outcome" where
  "unwound p = (case p of None \<Rightarrow> Ok () | Some p \<Rightarrow> Panic p)"

definition assert_that :: "bool \<Rightarrow> (unit, 'e) outcome" where
  "assert_that b = (if b then Ok () else Panic AssertionFailed)"

definition unwrapped :: "('a, 'e) outcome \<Rightarrow> ('a, 'f) outcome" where
  "unwrapped r = (case r of Ok x \<Rightarrow> Ok x | Err e \<Rightarrow> Panic UnwrapFailed | Panic p \<Rightarrow> Panic p)"

definition file_contents :: "fs_ops \<Rightarrow> path \<Rightarrow> io_error + bytes" where
  "file_contents fs p = (case fs_open fs p of Inl e \<Rightarrow> Inl e | Inr f \<Rightarrow> file_read f)"

lemma holds_file_contents: "holds fs p d \<Longrightarrow> file_contents fs p = Inr d"
  by (auto simp: holds_def file_contents_def)

text \<open>The callbacks of \<^verbatim>\<open>transfer_data\<close>.\<close>

definition transfer_callbacks ::
    "('s, 'd) decoder_ops \<Rightarrow> fs_ops \<Rightarrow> nat \<Rightarrow> (string \<times> path \<times> hash) list \<Rightarrow> (checker, 'd) callbacks" where
  "transfer_callbacks dops fs num_blobs expects =
     \<lparr>cb_connected = (\<lambda>u. (Inr (), u)),
      cb_collection = (\<lambda>c u.
        if length (coll_blobs c) = num_blobs then (Inr (), u) else panicking AssertionFailed u),
      cb_blob = (\<lambda>got_hash reader got_name u.
        if ck_next u < length expects then
          (case expects ! ck_next u of (expect_name, path, expect_hash) \<Rightarrow>
             if expect_hash \<noteq> got_hash then panicking AssertionFailed u
             else (case file_contents fs path of
               Inl e \<Rightarrow> (Inl (IoError e), u)
             | Inr expect \<Rightarrow>
                 (case dec_read_to_end dops reader of
                    (Inl e, reader') \<Rightarrow> (Inl (IoError e), u)
                  | (Inr got, reader') \<Rightarrow>
                      if expect \<noteq> got then panicking AssertionFailed u
                      else if expect_name \<noteq> got_name then panicking AssertionFailed u
                      else (Inr reader', u\<lparr>ck_next := Suc (ck_next u)\<rparr>))))
        else panicking UnwrapFailed u)\<rparr>"

text \<open>
  The task that gathers events, over the results of the calls of \<^verbatim>\<open>recv\<close>; when these end it
  waits, and the test runs into its timeout.
\<close>

fun events_task :: "('e + event) list \<Rightarrow> event list \<Rightarrow> event list option" where
  "events_task [] events = None"
| "events_task (Inl e # results) events = Some events"
| "events_task (Inr event # results) events =
     (case event of
        EvTransferCompleted cid rid \<Rightarrow> Some (events @ [event])
      | EvTransferAborted cid rid \<Rightarrow> Some (events @ [event])
      | _ \<Rightarrow> events_task results (events @ [event]))"

definition within_timeout :: "'a option \<Rightarrow> ('a, 'e) outcome" where
  "within_timeout r = (case r of None \<Rightarrow> Panic UnwrapFailed | Some x \<Rightarrow> Ok x)"

fun is_client_connected :: "event \<Rightarrow> bool" where
  "is_client_connected (EvClientConnected cid) = True"
| "is_client_connected _ = False"

fun is_request_received :: "event \<Rightarrow> bool" where
  "is_request_received (EvRequestReceived cid rid h) = True"
| "is_request_received _ = False"

fun is_transfer_completed :: "event \<Rightarrow> bool" where
  "is_transfer_completed (EvTransferCompleted cid rid) = True"
| "is_transfer_completed _ = False"

fun is_transfer_aborted :: "event \<Rightarrow> bool" where
  "is_transfer_aborted (EvTransferAborted cid rid) = True"
| "is_transfer_aborted _ = False"

definition assert_events :: "event list \<Rightarrow> (unit, 'e) outcome" where
  "assert_events events =
     and_then (assert_that (length events = 3)) (\<lambda>_.
     and_then (assert_that (is_client_connected (events ! 0))) (\<lambda>_.
     and_then (assert_that (is_request_received (events ! 1))) (\<lambda>_.
     assert_that (is_transfer_completed (events ! 2)))))"

section \<open>The tests that transfer files\<close>

text \<open>
  What the tests see of a provider once it serves a database: the stream a getter opens,
  the results of a subscriber's calls of \<^verbatim>\<open>recv\<close>, and what awaiting the provider gives after
  its shutdown.
\<close>

record ('pk, 'w, 's, 'e) serving =
  sg_open :: "'pk options \<Rightarrow> ('w \<times> 's, error) outcome"
  sg_events :: "('e + event) list"
  sg_end :: "nat + unit"

definition test_provider ::
    "x509_ops \<Rightarrow> ('pk, 'sk, 'sg, 'ke) ed25519_ops \<Rightarrow> ('ck, 'ge) rcgen_ops \<Rightarrow> rustls_ops
       \<Rightarrow> ('pk server_config \<Rightarrow> socket_addr \<Rightarrow> io_error + socket_addr) \<Rightarrow> ('pk, 'sk) keypair \<Rightarrow> auth_token
       \<Rightarrow> database \<Rightarrow> (('pk, 'sk) provider \<times> 'pk server_config, 'ge spawn_error) outcome" where
  "test_provider xo ed rc rl listen generated_keypair generated_token db =
     spawn xo ed rc rl listen (bind_addr (SocketAddr (V4 0x7F000001) 0) (provider_builder generated_keypair generated_token db))"

definition transfer_data ::
    "bool \<Rightarrow> format \<Rightarrow> bao_ops \<Rightarrow> (path \<Rightarrow> bytes \<Rightarrow> (fs_ops, unit, io_error) io)
       \<Rightarrow> (database \<Rightarrow> (('pk, 'sk) provider \<times> 'pk server_config, 'ge spawn_error) outcome)
       \<Rightarrow> 's recv_ops \<Rightarrow> 'w send_ops \<Rightarrow> ('s, 'd) decoder_ops
       \<Rightarrow> (database \<Rightarrow> ('pk, 'sk) provider \<Rightarrow> 'pk server_config \<Rightarrow> ('pk, 'w, 's, 'e) serving) \<Rightarrow> nat
       \<Rightarrow> path \<Rightarrow> fs_ops \<Rightarrow> (string \<times> bytes) list \<Rightarrow> (unit, 'ge test_error) outcome" where
  "transfer_data checks fmt bao store spawning ro wo dops serve elapsed dir fs0 file_opts =
     (let num_blobs = length file_opts in
      case prepare_files bao store dir file_opts fs0 of (prepared, fs) \<Rightarrow>
      and_then (map_err TestIo prepared) (\<lambda>(files, expects).
      and_then (map_err TestCreate (create_collection checks fmt bao fs files)) (\<lambda>(db, collection_hash).
      and_then (map_err TestSpawn (spawning db)) (\<lambda>(provider, config).
      let sv = serve db provider config;
          opts = \<lparr>opt_addr = provider_listen_addr provider, opt_peer_id = Some (provider_peer_id provider),
            opt_keylog = True\<rparr>
      in case run checks (sg_open sv) ro wo dops fmt (transfer_callbacks dops fs num_blobs expects)
          collection_hash (provider_auth_token provider) opts elapsed \<lparr>ck_next = 0, ck_panic = None\<rparr> of (got, w, u) \<Rightarrow>
      and_then (unwound (ck_panic u)) (\<lambda>_.
      and_then (map_err TestGet got) (\<lambda>stats.
      and_then (within_timeout (events_task (sg_events sv) [])) (\<lambda>events.
      and_then (of_sum TestProvider (sg_end sv)) (\<lambda>_.
      assert_events events))))))))"

text \<open>Random contents of given sizes: \<open>random i n\<close> is what is drawn for the file at \<open>i\<close>.\<close>

definition transfer_random_data ::
    "((string \<times> bytes) list \<Rightarrow> (unit, 'e) outcome) \<Rightarrow> (nat \<Rightarrow> nat \<Rightarrow> bytes) \<Rightarrow> (string \<times> nat) list \<Rightarrow> (unit, 'e) outcome" where
  "transfer_random_data transfer random file_opts =
     transfer (map (\<lambda>(i, name, n). (name, random i n)) (enumerate 0 file_opts))"

definition basics :: "((string \<times> bytes) list \<Rightarrow> (unit, 'e) outcome) \<Rightarrow> (unit, 'e) outcome" where
  "basics transfer = transfer [(''hello_world'', str_bytes ''hello world!'')]"

definition multi_file ::
    "((string \<times> bytes) list \<Rightarrow> (unit, 'e) outcome) \<Rightarrow> (nat \<Rightarrow> nat \<Rightarrow> bytes) \<Rightarrow> (unit, 'e) outcome" where
  "multi_file transfer random =
     transfer_random_data transfer random [(''1'', 10), (''2'', 1024), (''3'', 1024 * 1024)]"

fun sizes_loop ::
    "((string \<times> bytes) list \<Rightarrow> (unit, 'e) outcome) \<Rightarrow> (nat \<Rightarrow> nat \<Rightarrow> bytes) \<Rightarrow> nat list \<Rightarrow> (unit, 'e) outcome" where
  "sizes_loop transfer random [] = Ok ()"
| "sizes_loop transfer random (n # rest) =
     and_then (transfer_random_data transfer random [(''hello_world'', n)]) (\<lambda>_. sizes_loop transfer random rest)"

definition sizes ::
    "((string \<times> bytes) list \<Rightarrow> (unit, 'e) outcome) \<Rightarrow> (nat \<Rightarrow> nat \<Rightarrow> bytes) \<Rightarrow> (unit, 'e) outcome" where
  "sizes transfer random =
     sizes_loop transfer random
       [0, 10, 100, 1024, 1024 * 100, 1024 * 500, 1024 * 1024, 1024 * 1024 + 10]"

definition empty_files ::
    "((string \<times> bytes) list \<Rightarrow> (unit, 'e) outcome) \<Rightarrow> (nat \<Rightarrow> nat \<Rightarrow> bytes) \<Rightarrow> (unit, 'e) outcome" where
  "empty_files transfer random = transfer_random_data transfer random (map (\<lambda>i. (decimal i, 0)) [0..<400])"

section \<open>A transfer passes\<close>

lemma stored_label: "plain_name n \<Longrightarrow> source_label (stored_at dir (n, d)) = n"
  using joined_name [of n dir] by (simp add: stored_at_def)

lemma stored_delivered:
  assumes "plain_name n" and "holds fs (path_join dir n) d"
  shows "source_content fs (stored_at dir (n, d)) = d"
    and "delivered bao fs (stored_at dir (n, d)) = (Hash (root_hash bao d), d, n)"
  using holds_content [OF assms(2)] joined_name [OF assms(1), of dir]
  by (simp_all add: stored_at_def delivered_def source_content_def)

context exchange
begin

lemma transfer_taken:
  assumes "list_all (\<lambda>(n, d). plain_name n \<and> holds fs (path_join dir n) d) opts"
    and "ck_next u = length before" and "expects = before @ map (expected bao dir) opts"
  shows "taken pos (transfer_callbacks dops fs k expects) u (map (delivered bao fs \<circ> stored_at dir) opts)
    (u\<lparr>ck_next := length expects\<rparr>)"
  using assms
proof (induction opts arbitrary: u before)
  case (Cons nd opts)
  obtain n d where nd: "nd = (n, d)" by fastforce
  with Cons.prems have n: "plain_name n" and h: "holds fs (path_join dir n) d" by simp_all
  let ?u = "u\<lparr>ck_next := Suc (ck_next u)\<rparr>"
  have "\<exists>x'. cb_blob (transfer_callbacks dops fs k expects) (Hash (root_hash bao d)) x n u = (Inr x', ?u) \<and> pos x' d [] rs"
    if x: "pos x d d rs" for x rs
    using dec_to_end [OF x] Cons.prems
    by (auto simp: transfer_callbacks_def nd nth_append expected_def holds_file_contents [OF h])
  moreover have "taken pos (transfer_callbacks dops fs k expects) ?u (map (delivered bao fs \<circ> stored_at dir) opts)
      (?u\<lparr>ck_next := length expects\<rparr>)"
    by (rule Cons.IH [of _ "before @ [expected bao dir nd]"]) (use Cons.prems nd in auto)
  ultimately show ?case by (auto simp: nd stored_delivered(2) [OF n h] comp_def)
qed simp

end

lemma single_getter_events:
  assumes run: "server_run events [Inr (cid, [x])] st" and "own_events events"
    and "provider_idle st" and "sv_closed st = None"
  shows "sv_events st = EvClientConnected cid # events cid x"
proof -
  have dist: "distinct (arrival_ids [Inr (cid, [x])])" by simp
  have own: "filter (\<lambda>e. event_connection e = cid) (sv_events st) = EvClientConnected cid # events cid x"
    by (rule single_stream_done [OF run assms(2) dist assms(4,3)]) simp
  note arr = server_run_arrived [OF run, unfolded arrived_def]
  have ids: "fst ` set (sv_conns st) \<subseteq> {cid}" using arr by auto
  have "distinct (arrival_ids (sv_connecting st) @ map fst (sv_conns st))"
    by (rule distinct_part [OF _ dist]) (use arr in simp)
  then have "distinct (map fst (sv_conns st))" by simp
  with channel_split_steps [OF assms(2) server_run_reach [OF run]] ids
  have "\<forall>e \<in> set (sv_events st). event_connection e = cid" unfolding channel_split_def by blast
  then have "filter (\<lambda>e. event_connection e = cid) (sv_events st) = sv_events st" by (simp add: filter_id_conv)
  with own show ?thesis by simp
qed

text \<open>
  One getter reaches the provider, on one stream, and the subscriber has been told of
  everything that followed.
\<close>

definition one_getter ::
    "'s recv_ops \<Rightarrow> 'w send_ops \<Rightarrow> format \<Rightarrow> bao_ops \<Rightarrow> fs_ops \<Rightarrow> ('s \<Rightarrow> bytes) \<Rightarrow> ('w \<Rightarrow> bytes)
       \<Rightarrow> database \<Rightarrow> auth_token \<Rightarrow> hash \<Rightarrow> 'pk options \<Rightarrow> ('pk, 'w, 's, 'e) serving \<Rightarrow> bool" where
  "one_getter ro wo fmt bao fs rest sent db token h opts sv \<longleftrightarrow>
     (\<exists>cid getter_end task_end st.
        sg_open sv opts = Ok getter_end
      \<and> stream_pair ro wo fmt bao fs rest sent db token cid token h getter_end task_end
      \<and> server_run (stream_events ro wo fmt bao fs db token) [Inr (cid, [task_end])] st
      \<and> provider_idle st \<and> sv_closed st = None
      \<and> sg_events sv = map Inr (received (provider_subscribe (server_start :: ('s, 'w) server_state)) st))"

lemma one_getter_events:
  assumes "exchange fmt bao ro rest dops pos wo sent fin"
    and "create_collection checks fmt bao fs sources = Ok (db, h)" and "deliverable bao fs sources h"
    and "one_getter ro wo fmt bao fs rest sent db token h opts sv"
  obtains cid w s sp wp where "sg_open sv opts = Ok (w, s)"
    and "stream_pair ro wo fmt bao fs rest sent db token cid token h (w, s) (sp, wp)"
    and "sg_events sv = map Inr [EvClientConnected cid, EvRequestReceived cid 1 h, EvTransferCompleted cid 1]"
proof -
  from assms(4) obtain cid w s sp wp st where o: "sg_open sv opts = Ok (w, s)"
    and p: "stream_pair ro wo fmt bao fs rest sent db token cid token h (w, s) (sp, wp)"
    and run: "server_run (stream_events ro wo fmt bao fs db token) [Inr (cid, [(sp, wp)])] st"
      "provider_idle st" "sv_closed st = None" "sg_events sv = map Inr (sv_events st)"
    by (auto simp: one_getter_def received_def provider_subscribe_def server_start_def)
  have cbs: "cb_collection (saving dops) c u = (Inr (), u)" "cb_connected (saving dops) u = (Inr (), u)" for c u
    by (simp_all add: saving_def)
  have "stream_events ro wo fmt bao fs db token cid (sp, wp) = [EvRequestReceived cid 1 h, EvTransferCompleted cid 1]"
    using stream_pair_served(3) [where net_open = "\<lambda>opts. Ok (w, s)", OF assms(1-3) p
        saving_taken [OF assms(1), of "[]", unfolded append_Nil] cbs refl]
    by (simp add: stream_events_def)
  with single_getter_events [OF run(1) own_stream_events run(2,3)] run(4)
  have "sg_events sv = map Inr [EvClientConnected cid, EvRequestReceived cid 1 h, EvTransferCompleted cid 1]"
    by simp
  with o p show thesis by (rule that)
qed


section \<open>The basic transfer on the sample crates\<close>

lemma plain_collection_hash:
  assumes "create_collection checks wire_format plain_bao fs sources = Ok (db, h)"
  shows "\<exists>rs. h = Hash (digest (10 # rs))"
proof -
  from assms obtain outs st ob where
    "bao_outboard plain_bao (put_collection wire_format (collection_of outs)) = (ob, hash_as_bytes h)"
    by (rule create_collection_Ok)
  then have "h = Hash (digest (put_collection wire_format (collection_of outs)))"
    by (cases h) (simp add: plain_bao_def)
  moreover have "\<exists>rs. put_collection wire_format (collection_of outs) = 10 # rs"
    by (simp add: put_collection_def wire_format_def varint_small)
  ultimately show ?thesis by auto
qed

lemma digest_first: "c \<noteq> 10 \<Longrightarrow> digest (c # cs) \<noteq> digest (10 # rs)"
  by (simp add: digest_eq)

text \<open>A network with one getter, which asks for \<open>h\<close> on a stream of connection 9.\<close>

definition sample_serving ::
    "fs_ops \<Rightarrow> hash \<Rightarrow> database \<Rightarrow> ('pk, 'sk) provider \<Rightarrow> 'pk server_config \<Rightarrow> ('pk, mem_sink, chunk_stream, unit) serving" where
  "sample_serving fs h db pv sc =
     \<lparr>sg_open = (\<lambda>opts. Ok (sample_getter_end fs db 9 (pv_auth_token pv) h)),
      sg_events = map Inr (EvClientConnected 9 #
        stream_events chunk_ops mem_eager_ops wire_format plain_bao fs db (pv_auth_token pv) 9
          (sample_task_end (pv_auth_token pv) h)),
      sg_end = Inr ()\<rparr>"

lemma one_arrived:
  assumes "own_events events"
  shows "\<exists>st. server_run events [Inr (cid, [x])] st \<and> provider_idle st \<and> sv_closed st = None \<and> \<not> sv_cancelled st
    \<and> sv_events st = EvClientConnected cid # events cid x"
proof -
  have "server_run events [Inr (cid, [x])] (server_start\<lparr>sv_connecting := [Inr (cid, [x])]\<rparr>)"
    using server_run.arrive [OF server_run.start, of events "Inr (cid, [x])"] by (simp add: server_start_def)
  from catches_up [OF this] obtain st where st: "server_run events [Inr (cid, [x])] st" "provider_idle st" "sv_closed st = None"
      "\<not> sv_cancelled st"
    by (auto simp: server_start_def)
  from single_getter_events [OF st(1) assms st(2,3)] st show ?thesis by blast
qed

lemma sample_one_getter:
  "one_getter chunk_ops mem_eager_ops wire_format plain_bao fs concat mem_sent db (pv_auth_token pv) h opts
     (sample_serving fs h db pv sc)"
proof -
  obtain st where "server_run (stream_events chunk_ops mem_eager_ops wire_format plain_bao fs db (pv_auth_token pv))
        [Inr (9, [sample_task_end (pv_auth_token pv) h])] st" "provider_idle st" "sv_closed st = None"
      "sv_events st = EvClientConnected 9 #
        stream_events chunk_ops mem_eager_ops wire_format plain_bao fs db (pv_auth_token pv) 9 (sample_task_end (pv_auth_token pv) h)"
    using one_arrived [OF own_stream_events] by blast
  then show ?thesis
    using sample_pair [where fs = fs and db = db and cid = 9 and token = "pv_auth_token pv" and h = h] unfolding one_getter_def
    by (intro exI [of _ 9] exI [of _ "sample_getter_end fs db 9 (pv_auth_token pv) h"]
        exI [of _ "sample_task_end (pv_auth_token pv) h"] exI [of _ st])
      (simp add: sample_serving_def received_def provider_subscribe_def server_start_def)
qed

definition empty_dir :: fs_ops where
  "empty_dir = \<lparr>fs_is_file = (\<lambda>p. False), fs_open = (\<lambda>p. Inl (OtherIo 2))\<rparr>"

abbreviation plain_test_provider ::
    "database \<Rightarrow> ((bytes32, bytes32) provider \<times> bytes32 server_config, unit spawn_error) outcome" where
  "plain_test_provider \<equiv>
     test_provider plain_x509 plain_ed (plain_rcgen (fill32 3)) plain_rustls (\<lambda>cfg a. Inr a)
       \<lparr>kp_public = fill32 5, kp_secret = fill32 5\<rparr> (AuthToken (fill32 7))"

lemma plain_test_provider: "\<exists>pv sc. plain_test_provider db = Ok (pv, sc)"
proof -
  obtain server where "make_server_config plain_x509 plain_ed (plain_rcgen (fill32 3)) plain_rustls
      \<lparr>kp_public = fill32 5, kp_secret = fill32 5\<rparr> False = (Ok server :: (_, unit gen_error) outcome)"
    using plain_configs(1) by blast
  then show ?thesis by (simp add: test_provider_def spawn_def with_db_def bind_addr_def Let_def)
qed


end
