(* ===== verification/Stopping.thy ===== *)
theory Stopping
  imports Scenarios
begin

text \<open>
  \<^verbatim>\<open>src/lib.rs\<close>, the tests that are not about a single transfer: several clients at once, a
  supervisor that shuts the provider down when the transfer has completed, and a callback
  that does not read its blob.
\<close>

section \<open>Several clients\<close>

definition client_callbacks ::
    "('s, 'd) decoder_ops \<Rightarrow> hash \<Rightarrow> bytes \<Rightarrow> string \<Rightarrow> (checker, 'd) callbacks" where
  "client_callbacks dops file_hash content name =
     \<lparr>cb_connected = (\<lambda>u. (Inr (), u)),
      cb_collection = (\<lambda>c u. (Inr (), u)),
      cb_blob = (\<lambda>got_hash reader got_name u.
        if file_hash \<noteq> got_hash then panicking AssertionFailed u
        else (case dec_read_to_end dops reader of
                (Inl e, reader') \<Rightarrow> (Inl (IoError e), u)
              | (Inr got, reader') \<Rightarrow>
                  if content \<noteq> got then panicking AssertionFailed u
                  else if name \<noteq> got_name then panicking AssertionFailed u
                  else (Inr reader', u)))\<rparr>"

definition run_client ::
    "bool \<Rightarrow> ('pk options \<Rightarrow> ('w \<times> 's, error) outcome) \<Rightarrow> 's recv_ops \<Rightarrow> 'w send_ops \<Rightarrow> ('s, 'd) decoder_ops
       \<Rightarrow> format \<Rightarrow> nat \<Rightarrow> hash \<Rightarrow> auth_token \<Rightarrow> hash \<Rightarrow> string \<Rightarrow> socket_addr \<Rightarrow> 'pk peer_id \<Rightarrow> bytes
       \<Rightarrow> (unit, 'ge test_error) outcome" where
  "run_client checks net_open ro wo dops fmt elapsed h token file_hash name addr peer_id content =
     (let opts = \<lparr>opt_addr = addr, opt_peer_id = Some peer_id, opt_keylog = True\<rparr>
      in case run checks net_open ro wo dops fmt (client_callbacks dops file_hash content name) h token opts elapsed
          \<lparr>ck_next = 0, ck_panic = None\<rparr> of (got, w, u) \<Rightarrow>
      and_then (unwound (ck_panic u)) (\<lambda>_.
      and_then (map_err TestGet got) (\<lambda>stats. Ok ())))"

text \<open>
  The three tasks and what they give; \<open>serve i\<close> is the provider as the client \<open>i\<close> meets it.
  \<open>multiple_clients\<close> awaits the tasks and drops what they give.
\<close>

definition client_tasks ::
    "bool \<Rightarrow> format \<Rightarrow> bao_ops \<Rightarrow> (path \<Rightarrow> bytes \<Rightarrow> (fs_ops, unit, io_error) io)
       \<Rightarrow> (database \<Rightarrow> (('pk, 'sk) provider \<times> 'pk server_config, 'ge spawn_error) outcome)
       \<Rightarrow> 's recv_ops \<Rightarrow> 'w send_ops \<Rightarrow> ('s, 'd) decoder_ops
       \<Rightarrow> (nat \<Rightarrow> database \<Rightarrow> ('pk, 'sk) provider \<Rightarrow> 'pk server_config \<Rightarrow> ('pk, 'w, 's, 'e) serving) \<Rightarrow> nat
       \<Rightarrow> path \<Rightarrow> fs_ops \<Rightarrow> ((unit, 'ge test_error) outcome list, 'ge test_error) outcome" where
  "client_tasks checks fmt bao store spawning ro wo dops serve elapsed dir fs0 =
     (let filename = ''hello_world'';
          path = path_join dir filename;
          content = str_bytes ''hello world!''
      in case store path content fs0 of (stored, fs) \<Rightarrow>
      and_then (map_err TestIo stored) (\<lambda>_.
      and_then (of_sum TestIo (file_contents fs path)) (\<lambda>data.
      let expect_hash = Hash (snd (bao_outboard bao data)) in
      and_then (map_err TestCreate (create_collection checks fmt bao fs [File path])) (\<lambda>(db, h).
      and_then (map_err TestSpawn (spawning db)) (\<lambda>(provider, config).
      Ok (map (\<lambda>i. run_client checks (sg_open (serve i db provider config)) ro wo dops fmt elapsed h
          (provider_auth_token provider) expect_hash filename (provider_listen_addr provider)
          (provider_peer_id provider) content) [0..<3]))))))"

definition multiple_clients ::
    "bool \<Rightarrow> format \<Rightarrow> bao_ops \<Rightarrow> (path \<Rightarrow> bytes \<Rightarrow> (fs_ops, unit, io_error) io)
       \<Rightarrow> (database \<Rightarrow> (('pk, 'sk) provider \<times> 'pk server_config, 'ge spawn_error) outcome)
       \<Rightarrow> 's recv_ops \<Rightarrow> 'w send_ops \<Rightarrow> ('s, 'd) decoder_ops
       \<Rightarrow> (nat \<Rightarrow> database \<Rightarrow> ('pk, 'sk) provider \<Rightarrow> 'pk server_config \<Rightarrow> ('pk, 'w, 's, 'e) serving) \<Rightarrow> nat
       \<Rightarrow> path \<Rightarrow> fs_ops \<Rightarrow> (unit, 'ge test_error) outcome" where
  "multiple_clients checks fmt bao store spawning ro wo dops serve elapsed dir fs0 =
     and_then (client_tasks checks fmt bao store spawning ro wo dops serve elapsed dir fs0) (\<lambda>results. Ok ())"

section \<open>A supervisor\<close>

text \<open>
  One turn of the supervisor's loop: the provider is polled first (\<^verbatim>\<open>biased\<close>), then the
  subscription; \<open>Pending\<close> when neither is ready.
\<close>

datatype 'ge turn = Stop "(unit, 'ge test_error) outcome" | ShutDown | GoOn | Pending

fun supervisor_turn :: "(nat + unit) option \<Rightarrow> ('e + event) option \<Rightarrow> 'ge turn" where
  "supervisor_turn (Some (Inl e)) maybe_event = Stop (Err (TestProvider e))"
| "supervisor_turn (Some (Inr u)) maybe_event = Stop (Ok ())"
| "supervisor_turn None None = Pending"
| "supervisor_turn None (Some (Inr event)) =
     (case event of
        EvTransferCompleted cid rid \<Rightarrow> ShutDown
      | EvTransferAborted cid rid \<Rightarrow> Stop (Err TestAborted)
      | _ \<Rightarrow> GoOn)"
| "supervisor_turn None (Some (Inl e)) = Stop (Err TestEvents)"

text \<open>The supervisor with the running provider; it has taken the events before a position.\<close>

type_synonym ('s, 'w, 'ge) supervision =
  "('s, 'w) server_state \<times> nat \<times> (unit, 'ge test_error) outcome option"

definition supervise_once :: "('s, 'w) server_state \<Rightarrow> nat \<Rightarrow> ('s, 'w, 'ge) supervision option" where
  "supervise_once st at =
     (case supervisor_turn (map_option Inr (provider_poll st))
         (if at < length (sv_events st) then Some (Inr (sv_events st ! at) :: unit + event) else None) of
        Stop r \<Rightarrow> Some (st, at, Some r)
      | ShutDown \<Rightarrow> Some (st\<lparr>sv_cancelled := True\<rparr>, Suc at, None)
      | GoOn \<Rightarrow> Some (st, Suc at, None)
      | Pending \<Rightarrow> None)"

inductive supervised ::
    "(u64 \<Rightarrow> 's \<times> 'w \<Rightarrow> event list) \<Rightarrow> ('s, 'w, 'ge) supervision \<Rightarrow> ('s, 'w, 'ge) supervision \<Rightarrow> bool"
  for events where
  serves: "server_step events st st' \<Longrightarrow> sv_cancelled st' = sv_cancelled st \<Longrightarrow>
    supervised events (st, at, None) (st', at, None)"
| supervises: "supervise_once st at = Some y \<Longrightarrow> supervised events (st, at, None) y"

inductive_cases supervisedE: "supervised events x y"

section \<open>The tests that stop early\<close>

definition reading_callbacks :: "('s, 'd) decoder_ops \<Rightarrow> (unit, 'd) callbacks" where
  "reading_callbacks dops =
     \<lparr>cb_connected = (\<lambda>u. (Inr (), u)),
      cb_collection = (\<lambda>c u. (Inr (), u)),
      cb_blob = (\<lambda>h stream name u.
        case dec_read_to_end dops stream of
          (Inl e, stream') \<Rightarrow> (Inl (IoError e), u)
        | (Inr data, stream') \<Rightarrow> (Inr stream', u))\<rparr>"

text \<open>\<open>supervisor\<close> is what the supervisor's task has come to within ten seconds.\<close>

definition test_server_close ::
    "bool \<Rightarrow> format \<Rightarrow> bao_ops \<Rightarrow> (path \<Rightarrow> bytes \<Rightarrow> (fs_ops, unit, io_error) io)
       \<Rightarrow> (database \<Rightarrow> (('pk, 'sk) provider \<times> 'pk server_config, 'ge spawn_error) outcome)
       \<Rightarrow> 's recv_ops \<Rightarrow> 'w send_ops \<Rightarrow> ('s, 'd) decoder_ops
       \<Rightarrow> (database \<Rightarrow> ('pk, 'sk) provider \<Rightarrow> 'pk server_config \<Rightarrow> ('pk, 'w, 's, 'e) serving)
       \<Rightarrow> (database \<Rightarrow> ('pk, 'sk) provider \<Rightarrow> (unit, 'ge test_error) outcome option) \<Rightarrow> nat
       \<Rightarrow> path \<Rightarrow> fs_ops \<Rightarrow> (unit, 'ge test_error) outcome" where
  "test_server_close checks fmt bao store spawning ro wo dops serve supervisor elapsed dir fs0 =
     (let src = path_join dir ''src'' in
      case store src (str_bytes ''hello there'') fs0 of (stored, fs) \<Rightarrow>
      and_then (unwrapped stored) (\<lambda>_.
      and_then (unwrapped (create_collection checks fmt bao fs [data_source_from src])) (\<lambda>(db, h).
      and_then (unwrapped (spawning db)) (\<lambda>(provider, config).
      let auth_token = provider_auth_token provider;
          opts = \<lparr>opt_addr = provider_listen_addr provider, opt_peer_id = None, opt_keylog = True\<rparr>
      in case run checks (sg_open (serve db provider config)) ro wo dops fmt (reading_callbacks dops)
          h auth_token opts elapsed () of (got, w, u) \<Rightarrow>
      and_then (unwrapped got) (\<lambda>stats.
      and_then (within_timeout (supervisor db provider)) (\<lambda>result.
      unwrapped result))))))"

definition partial_callbacks :: "(unit, 'd) callbacks" where
  "partial_callbacks =
     \<lparr>cb_connected = (\<lambda>u. (Inr (), u)),
      cb_collection = (\<lambda>c u. (Inr (), u)),
      cb_blob = (\<lambda>h stream name u. (Inr stream, u))\<rparr>"

definition expect_err :: "('a, 'e) outcome \<Rightarrow> (unit, 'f) outcome" where
  "expect_err r = (case r of Ok x \<Rightarrow> Panic UnwrapFailed | Err e \<Rightarrow> Ok () | Panic p \<Rightarrow> Panic p)"

text \<open>The ten writes of a thousand bytes to the first file are one write of their bytes.\<close>

definition test_blob_reader_partial ::
    "bool \<Rightarrow> format \<Rightarrow> bao_ops \<Rightarrow> (path \<Rightarrow> bytes \<Rightarrow> (fs_ops, unit, io_error) io)
       \<Rightarrow> (database \<Rightarrow> (('pk, 'sk) provider \<times> 'pk server_config, 'ge spawn_error) outcome)
       \<Rightarrow> 's recv_ops \<Rightarrow> 'w send_ops \<Rightarrow> ('s, 'd) decoder_ops
       \<Rightarrow> (database \<Rightarrow> ('pk, 'sk) provider \<Rightarrow> 'pk server_config \<Rightarrow> ('pk, 'w, 's, 'e) serving) \<Rightarrow> nat
       \<Rightarrow> path \<Rightarrow> fs_ops \<Rightarrow> (unit, 'ge test_error) outcome" where
  "test_blob_reader_partial checks fmt bao store spawning ro wo dops serve elapsed dir fs0 =
     (let src0 = path_join dir ''src0'';
          src1 = path_join dir ''src1''
      in case store src0 (concat (replicate 10 (replicate 1000 1))) fs0 of (stored0, fs1) \<Rightarrow>
      and_then (map_err TestIo stored0) (\<lambda>_.
      case store src1 (str_bytes ''hello world'') fs1 of (stored1, fs) \<Rightarrow>
      and_then (map_err TestIo stored1) (\<lambda>_.
      and_then (map_err TestCreate (create_collection checks fmt bao fs [data_source_from src0, data_source_from src1]))
        (\<lambda>(db, h).
      and_then (map_err TestSpawn (spawning db)) (\<lambda>(provider, config).
      let auth_token = provider_auth_token provider;
          opts = \<lparr>opt_addr = provider_listen_addr provider, opt_peer_id = None, opt_keylog = True\<rparr>
      in case run checks (sg_open (serve db provider config)) ro wo dops fmt partial_callbacks
          h auth_token opts elapsed () of (got, w, u) \<Rightarrow> expect_err got)))))"

section \<open>What the supervisor does\<close>

definition supervision_start :: "('s, 'w, 'ge) supervision" where
  "supervision_start = (server_start, 0, None)"

text \<open>
  The invariant: the provider is cancelled exactly when the supervisor has seen a completed
  transfer, is closed only then, and an aborted transfer ends the supervisor.
\<close>

fun supervision_ok :: "('s, 'w, 'ge) supervision \<Rightarrow> bool" where
  "supervision_ok (st, at, r) \<longleftrightarrow>
     at \<le> length (sv_events st)
   \<and> (sv_cancelled st \<longleftrightarrow> list_ex is_transfer_completed (take at (sv_events st)))
   \<and> list_all (\<lambda>e. \<not> is_transfer_aborted e) (take at (sv_events st))
   \<and> (sv_closed st \<noteq> None \<longrightarrow> sv_cancelled st
        \<and> sv_closed st = Some (closed_to_varint ProviderTerminating, closed_reason ProviderTerminating))
   \<and> (case r of None \<Rightarrow> True
      | Some (Ok u) \<Rightarrow> sv_closed st \<noteq> None
      | Some (Err e) \<Rightarrow> e = TestAborted \<and> list_ex is_transfer_aborted (sv_events st)
      | Some (Panic p) \<Rightarrow> False)"

lemma supervise_once_cases:
  assumes "supervise_once st at = Some (st', at', r)"
  obtains (ended) "sv_closed st \<noteq> None" "st' = st" "at' = at" "r = Some (Ok ())"
    | (completed) cid rid where "sv_closed st = None" "at < length (sv_events st)"
        "sv_events st ! at = EvTransferCompleted cid rid" "st' = st\<lparr>sv_cancelled := True\<rparr>" "at' = Suc at" "r = None"
    | (aborted) cid rid where "sv_closed st = None" "at < length (sv_events st)"
        "sv_events st ! at = EvTransferAborted cid rid" "st' = st" "at' = at" "r = Some (Err TestAborted)"
    | (other) "sv_closed st = None" "at < length (sv_events st)" "\<not> is_transfer_completed (sv_events st ! at)"
        "\<not> is_transfer_aborted (sv_events st ! at)" "st' = st" "at' = Suc at" "r = None"
proof (cases "sv_closed st")
  case (Some c)
  with assms show thesis by (intro ended) (simp_all add: supervise_once_def provider_poll_def)
next
  case None
  with assms have lt: "at < length (sv_events st)"
    by (simp add: supervise_once_def provider_poll_def split: if_splits)
  note once = assms [unfolded supervise_once_def provider_poll_def]
  show thesis
  proof (cases "sv_events st ! at")
    case (EvTransferCompleted cid rid)
    with once None lt show thesis by (intro completed) simp_all
  next
    case (EvTransferAborted cid rid)
    with once None lt show thesis by (intro aborted) simp_all
  qed (rule other, use once None lt in simp_all)+
qed

lemma aborted_member: "i < length es \<Longrightarrow> es ! i = EvTransferAborted cid rid \<Longrightarrow> list_ex is_transfer_aborted es"
  unfolding list_ex_iff by (metis is_transfer_aborted.simps(1) nth_mem)

lemma server_step_events: "server_step events st st' \<Longrightarrow> \<exists>es. sv_events st' = sv_events st @ es"
  by (induction rule: server_step.induct) auto

lemma server_step_closed:
  "server_step events st st' \<Longrightarrow> sv_closed st' = sv_closed st \<or>
     sv_cancelled st \<and> sv_closed st' = Some (closed_to_varint ProviderTerminating, closed_reason ProviderTerminating)"
  by (induction rule: server_step.induct) auto

lemma supervised_ok: "supervised events x y \<Longrightarrow> supervision_ok x \<Longrightarrow> supervision_ok y"
proof (induction rule: supervised.induct)
  case (serves st st' "at")
  obtain es where es: "sv_events st' = sv_events st @ es" using server_step_events [OF serves(1)] by blast
  from serves(3) have "take at (sv_events st') = take at (sv_events st)" by (simp add: es)
  with serves server_step_closed [OF serves(1)] show ?case by (auto simp: es)
next
  case (supervises st "at" y)
  obtain st' at' r where y: "y = (st', at', r)" by (cases y)
  from supervises(1) [unfolded y] show ?case
    by (cases rule: supervise_once_cases)
      (use supervises(2) y in \<open>auto simp: take_Suc_conv_app_nth intro: aborted_member\<close>)
qed

lemma supervision_reach_ok: "(supervised events)\<^sup>*\<^sup>* supervision_start x \<Longrightarrow> supervision_ok x"
  by (induction rule: rtranclp_induct) (auto simp: supervision_start_def server_start_def intro: supervised_ok)

text \<open>From any point on, the supervisor can take all events that are there.\<close>

lemma supervisor_takes_all:
  assumes "at \<le> length (sv_events st)" and "list_all (\<lambda>e. \<not> is_transfer_aborted e) (drop at (sv_events st))"
    and "sv_closed st = None" and r: "r = None"
  shows "\<exists>st'. (supervised events)\<^sup>*\<^sup>* (st, at, r) (st', length (sv_events st), r)
    \<and> sv_events st' = sv_events st \<and> sv_closed st' = None"
  using assms(1-3)
proof (induction "length (sv_events st) - at" arbitrary: st "at")
  case 0
  then show ?case by (intro exI [of _ st]) simp
next
  case (Suc n)
  then have lt: "at < length (sv_events st)" by simp
  then have e: "\<not> is_transfer_aborted (sv_events st ! at)" "list_all (\<lambda>e. \<not> is_transfer_aborted e) (drop (Suc at) (sv_events st))"
    using Suc.prems(2) by (simp_all add: Cons_nth_drop_Suc [symmetric])
  define st1 where "st1 = (if is_transfer_completed (sv_events st ! at) then st\<lparr>sv_cancelled := True\<rparr> else st)"
  have st1: "sv_events st1 = sv_events st" "sv_closed st1 = sv_closed st" by (simp_all add: st1_def)
  have "supervise_once st at = Some (st1, Suc at, r)"
    using lt e(1) Suc.prems(3)
    by (cases "sv_events st ! at") (simp_all add: supervise_once_def provider_poll_def st1_def r)
  then have "supervised events (st, at, r) (st1, Suc at, r)" unfolding r by (rule supervised.supervises)
  moreover have "\<exists>st'. (supervised events)\<^sup>*\<^sup>* (st1, Suc at, r) (st', length (sv_events st1), r)
      \<and> sv_events st' = sv_events st1 \<and> sv_closed st' = None"
    by (rule Suc.hyps(1)) (use Suc lt e(2) st1 in simp_all)
  ultimately show ?case by (auto simp: st1 intro: converse_rtranclp_into_rtranclp)
qed


section \<open>The tests pass\<close>

context exchange
begin

lemma client_taken:
  "taken pos (client_callbacks dops (Hash (root_hash bao d)) d n) u [(Hash (root_hash bao d), d, n)] u"
proof -
  have "\<exists>x'. cb_blob (client_callbacks dops (Hash (root_hash bao d)) d n) (Hash (root_hash bao d)) x n u = (Inr x', u) \<and> pos x' d [] rs"
    if "pos x d d rs" for x rs
    using dec_to_end [OF that] by (elim exE conjE) (simp add: client_callbacks_def)
  then show ?thesis by simp
qed

lemma reading_taken: "taken pos (reading_callbacks dops) () items ()"
  using dec_to_end by (induction items) (fastforce simp: reading_callbacks_def)+

end

text \<open>
  Each of the three clients receives the file, if each of them reaches the provider; but the
  test passes in any case once the provider runs.
\<close>

lemma clients_served:
  fixes spawning :: "database \<Rightarrow> (('pk, 'sk) provider \<times> 'pk server_config, 'ge spawn_error) outcome"
  assumes parties: "exchange fmt bao ro rest dops pos wo sent fin" and directory: "test_directory store dir"
    and stored: "store (path_join dir ''hello_world'') (str_bytes ''hello world!'') fs0 = (Ok (), fs)"
    and created: "create_collection checks fmt bao fs [File (path_join dir ''hello_world'')] = Ok (db, h)"
    and share: "deliverable bao fs [File (path_join dir ''hello_world'')] h"
    and spawned: "spawning db = Ok (pv, sc)"
    and network: "\<And>i. i < 3 \<Longrightarrow> \<exists>cid w s sp wp.
      sg_open (serve i db pv sc) \<lparr>opt_addr = pv_listen_addr pv, opt_peer_id = Some (provider_peer_id pv), opt_keylog = True\<rparr> = Ok (w, s)
      \<and> stream_pair ro wo fmt bao fs rest sent db (pv_auth_token pv) cid (pv_auth_token pv) h (w, s) (sp, wp)"
  shows "client_tasks checks fmt bao store spawning ro wo dops serve elapsed dir fs0 = Ok [Ok (), Ok (), Ok ()]"
proof -
  have plain: "plain_name ''hello_world''" by code_simp
  note held = test_directory.written [OF directory stored]
  let ?src = "File (path_join dir ''hello_world'')"
  let ?d = "str_bytes ''hello world!''"
  have src: "map (delivered bao fs) [?src] = [(Hash (root_hash bao ?d), ?d, ''hello_world'')]"
    using stored_delivered(2) [OF plain held, of bao] by (simp add: stored_at_def)
  let ?cbs = "client_callbacks dops (Hash (root_hash bao ?d)) ?d ''hello_world''"
  have cbs: "cb_collection ?cbs c u = (Inr (), u)" "cb_connected ?cbs u = (Inr (), u)" for c u
    by (simp_all add: client_callbacks_def)
  have "run_client checks (sg_open (serve i db pv sc)) ro wo dops fmt elapsed h (pv_auth_token pv) (Hash (root_hash bao ?d))
      ''hello_world'' (pv_listen_addr pv) (provider_peer_id pv) ?d = (Ok () :: (unit, 'ge test_error) outcome)" if i: "i < 3" for i
  proof -
    from network [OF i] obtain cid w s sp wp where
      o: "sg_open (serve i db pv sc) \<lparr>opt_addr = pv_listen_addr pv, opt_peer_id = Some (provider_peer_id pv), opt_keylog = True\<rparr> = Ok (w, s)"
      and p: "stream_pair ro wo fmt bao fs rest sent db (pv_auth_token pv) cid (pv_auth_token pv) h (w, s) (sp, wp)"
      by blast
    from stream_pair_served(1) [where net_open = "sg_open (serve i db pv sc)", OF parties created share p
        exchange.client_taken [OF parties, of ?d "''hello_world''", folded src] cbs o]
    show ?thesis by (simp add: run_client_def unwound_def)
  qed
  then have "map (\<lambda>i. run_client checks (sg_open (serve i db pv sc)) ro wo dops fmt elapsed h (pv_auth_token pv)
      (Hash (root_hash bao ?d)) ''hello_world'' (pv_listen_addr pv) (provider_peer_id pv) ?d) [0..<3] =
      ([Ok (), Ok (), Ok ()] :: (unit, 'ge test_error) outcome list)"
    by (simp add: upt_rec)
  then show ?thesis
    by (simp add: client_tasks_def stored holds_file_contents [OF held] root_hash_def created spawned Let_def)
qed

lemma multiple_clients_blind:
  assumes "client_tasks checks fmt bao store spawning ro wo dops serve elapsed dir fs0 = Ok results"
  shows "multiple_clients checks fmt bao store spawning ro wo dops serve elapsed dir fs0 = Ok ()"
  by (simp add: multiple_clients_def assms)

text \<open>As long as it is not cancelled, every run of the provider is one with a supervisor that waits.\<close>

lemma supervised_serving:
  assumes "(server_step events)\<^sup>*\<^sup>* st st'" and "\<not> sv_cancelled st'" and r: "r = None"
  shows "(supervised events)\<^sup>*\<^sup>* (st, at, r) (st', at, r)"
  using assms(1,2)
proof (induction rule: rtranclp_induct)
  case (step y z)
  have "sv_cancelled y \<Longrightarrow> sv_cancelled z" using step(2) by (cases rule: server_step.cases) auto
  with step(4) have same: "sv_cancelled z = sv_cancelled y" "\<not> sv_cancelled y" by auto
  have "supervised events (y, at, r) (z, at, r)" unfolding r by (rule supervised.serves [OF step(2) same(1)])
  with step.IH [OF same(2)] show ?case by (rule rtranclp.rtrancl_into_rtrancl)
qed simp

lemma server_close_passes:
  assumes parties: "exchange fmt bao ro rest dops pos wo sent fin"
    and stored: "store (path_join dir ''src'') (str_bytes ''hello there'') fs0 = (Ok (), fs)"
    and created: "create_collection checks fmt bao fs [File (path_join dir ''src'')] = Ok (db, h)"
    and share: "deliverable bao fs [File (path_join dir ''src'')] h"
    and spawned: "spawning db = Ok (pv, sc)"
    and opened: "sg_open (serve db pv sc) \<lparr>opt_addr = pv_listen_addr pv, opt_peer_id = None, opt_keylog = True\<rparr> = Ok (w, s)"
    and pair: "stream_pair ro wo fmt bao fs rest sent db (pv_auth_token pv) cid (pv_auth_token pv) h (w, s) (sp, wp)"
    and ended: "(supervised events)\<^sup>*\<^sup>* supervision_start (st, at, supervisor db pv)" "supervisor db pv \<noteq> None"
    and "\<not> list_ex is_transfer_aborted (sv_events st)"
  shows "test_server_close checks fmt bao store spawning ro wo dops serve supervisor elapsed dir fs0 = Ok ()"
proof -
  have cbs: "cb_collection (reading_callbacks dops) c u = (Inr (), u)" "cb_connected (reading_callbacks dops) u = (Inr (), u)" for c u
    by (simp_all add: reading_callbacks_def)
  have "supervisor db pv = Some (Ok ())"
    using supervision_reach_ok [OF ended(1)] ended(2) assms(10) by (auto split: option.splits outcome.splits)
  with stream_pair_served(1) [where net_open = "sg_open (serve db pv sc)", OF parties created share pair
      exchange.reading_taken [OF parties] cbs opened]
  show ?thesis
    by (simp add: test_server_close_def stored created spawned data_source_new_def unwrapped_def within_timeout_def Let_def)
qed


section \<open>Both on the sample crates\<close>

lemma written_holds: "write_file p d fs = (r, fs') \<Longrightarrow> holds fs' p d"
  by (auto simp: write_file_def holds_def)

lemma holds_hashed: "holds fs p d \<Longrightarrow> hashed plain_bao fs (File p)"
  by (auto simp: holds_def hashed_def source_outboard_def compute_outboard_def plain_bao_def Let_def)

text \<open>Sources whose contents are not empty and begin with other bytes than each other and than a collection.\<close>

lemma plain_deliverable:
  assumes "create_collection checks wire_format plain_bao fs sources = Ok (db, h)"
    and "list_all (\<lambda>src. \<exists>c cs. source_content fs src = c # cs \<and> c \<noteq> 10) sources"
    and "\<And>src src'. src \<in> set sources \<Longrightarrow> src' \<in> set sources \<Longrightarrow> hd (source_content fs src) = hd (source_content fs src') \<Longrightarrow>
      source_content fs src = source_content fs src'"
    and "list_all (utf8_valid \<circ> source_label) sources"
    and "sum_list (map (length \<circ> source_label) sources) < 2 ^ 62"
    and "sum_list (map (length \<circ> source_content fs) sources) \<le> 2 ^ 30"
  shows "deliverable plain_bao fs sources h"
proof -
  have hd: "hd c = hd c'" if "digest c = digest c'" "c \<noteq> []" "c' \<noteq> []" for c c' :: bytes
    using that by (cases c; cases c') (auto simp: digest_eq)
  have some: "source_content fs src \<noteq> []" if "src \<in> set sources" for src
    using assms(2) that by (auto simp: list_all_iff)
  have "inj_on (root_hash plain_bao) (set (map (source_content fs) sources))"
  proof (rule inj_onI)
    fix c c' assume "c \<in> set (map (source_content fs) sources)" "c' \<in> set (map (source_content fs) sources)"
      "root_hash plain_bao c = root_hash plain_bao c'"
    then obtain src src' where s: "src \<in> set sources" "c = source_content fs src" "src' \<in> set sources"
        "c' = source_content fs src'" "digest c = digest c'" by (auto simp: root_hash_def plain_bao_def)
    from hd [OF s(5)] some s(1-4) have "hd c = hd c'" by simp
    with assms(3) s(1-4) show "c = c'" by simp
  qed
  moreover have "Hash (root_hash plain_bao (source_content fs src)) \<noteq> h" if "src \<in> set sources" for src
  proof -
    from assms(2) that obtain c cs where "source_content fs src = c # cs" "c \<noteq> 10" by (auto simp: list_all_iff)
    then show ?thesis using plain_collection_hash [OF assms(1)] digest_first by (auto simp: root_hash_def plain_bao_def)
  qed
  then have "list_all (\<lambda>src. Hash (root_hash plain_bao (source_content fs src)) \<noteq> h) sources"
    by (simp add: list_all_iff)
  ultimately show ?thesis using assms(4-6) by (simp add: deliverable_def)
qed



end
