(* ===== verification/Unit_Tests.thy ===== *)
theory Unit_Tests
  imports Stopping
begin

text \<open>
  The unit tests of the other files, in the style of \<open>Scenarios\<close>: what they check, as
  functions of the values that are drawn at random, and that they pass for all of these under
  the contracts of the crates.
\<close>

section \<open>util.rs, blobs.rs, tls.rs\<close>

definition test_hash :: "'de base64_engine \<Rightarrow> (bytes \<Rightarrow> bytes32) \<Rightarrow> (unit, 'e) outcome" where
  "test_hash eng blake3 =
     (let data = str_bytes ''hello world'';
          h = hash_new blake3 data;
          encoded = hash_display eng h
      in and_then (unwrapped (hash_from_str eng encoded)) (\<lambda>parsed. assert_that (parsed = h)))"

text \<open>The hash that the test writes in hexadecimal digits is an argument.\<close>

definition roundtrip_blob :: "format \<Rightarrow> hash \<Rightarrow> (unit, 'e) outcome" where
  "roundtrip_blob fmt h =
     (let b = \<lparr>blob_name = ''test'', blob_hash = h\<rparr>;
          buf = replicate 1024 0
      in and_then (unwrapped (to_slice (put_blob fmt b) buf)) (\<lambda>(used, buf).
         and_then (unwrapped (from_bytes (get_blob fmt) buf)) (\<lambda>deserialize_b.
         assert_that (b = deserialize_b))))"

definition test_keypair_openssh_roundtrip ::
    "('pk, 'sk, 'k, 'se) ssh_ops \<Rightarrow> ('pk, 'sk) keypair \<Rightarrow> (unit, 'e) outcome" where
  "test_keypair_openssh_roundtrip ssh kp =
     and_then (unwrapped (to_openssh ssh kp)) (\<lambda>ser.
     and_then (unwrapped (try_from_openssh ssh (str_bytes ser))) (\<lambda>de.
     assert_that (kp = de)))"

lemma test_hash_passes: "base64 eng \<Longrightarrow> test_hash eng blake3 = Ok ()"
  by (simp add: test_hash_def base64.hash_round_trip unwrapped_def assert_that_def Let_def)

lemma roundtrip_blob_passes:
  assumes "postcard fmt"
  shows "roundtrip_blob fmt h = Ok ()"
proof -
  let ?b = "\<lparr>blob_name = ''test'', blob_hash = h\<rparr>"
  have "length (put_blob fmt ?b) \<le> 1024"
    by (simp add: put_blob_def postcard.length_put_hash [OF assms] postcard.size_str_small [OF assms])
  moreover have "utf8_valid ''test''" by code_simp
  then have "get_blob fmt (put_blob fmt ?b @ r) = Some (?b, r)" for r
    using postcard.get_put_blob [OF assms, of ?b r] by (simp add: str_ok_def)
  ultimately show ?thesis
    by (simp add: roundtrip_blob_def to_slice_def unwrapped_def from_bytes_put assert_that_def Let_def)
qed

lemma test_keypair_openssh_roundtrip_passes:
  assumes "openssh ssh" and "to_openssh ssh kp = Ok ser"
  shows "test_keypair_openssh_roundtrip ssh kp = Ok ()"
  by (simp add: test_keypair_openssh_roundtrip_def assms(2) openssh.openssh_round_trip [OF assms] unwrapped_def assert_that_def)

section \<open>protocol.rs\<close>

definition err_unwrapped :: "('a, 'e) outcome \<Rightarrow> ('e, 'f) outcome" where
  "err_unwrapped r = (case r of Ok x \<Rightarrow> Panic UnwrapFailed | Err e \<Rightarrow> Ok e | Panic p \<Rightarrow> Panic p)"

definition test_auth_token_base64 :: "'de base64_engine \<Rightarrow> auth_token \<Rightarrow> (unit, 'e) outcome" where
  "test_auth_token_base64 eng token =
     (let text = auth_token_display eng token
      in and_then (unwrapped (auth_token_from_str eng text)) (\<lambda>decoded.
         and_then (assert_that (decoded = token)) (\<lambda>_.
         and_then (err_unwrapped (auth_token_from_str eng ''not-base64'')) (\<lambda>err.
         and_then (assert_that (case err of Base64 e \<Rightarrow> True | _ \<Rightarrow> False)) (\<lambda>_.
         and_then (err_unwrapped (auth_token_from_str eng ''abcd'')) (\<lambda>err.
         assert_that (case err of TokenLength n \<Rightarrow> n = 3 | _ \<Rightarrow> False)))))))"

text \<open>
  The characters of \<open>not-base64\<close> are all in the alphabet of the engine; the text is refused
  because the last character leaves bits over that are not zero.
\<close>

lemma not_base64: "base64url_decode ''not-base64'' = None" "base64url_decode ''not-base6w'' \<noteq> None"
  by code_simp+

lemma abcd_base64: "map_option length (base64url_decode ''abcd'') = Some 3"
  by code_simp

lemma test_auth_token_base64_passes: "test_auth_token_base64 rfc_engine token = Ok ()"
proof -
  obtain bs where bs: "base64url_decode ''abcd'' = Some bs" "length bs = 3" using abcd_base64 by auto
  have "bytes32_try_from bs = None" using bs(2) by (simp add: bytes32_try_from_def)
  with bs have "auth_token_from_str rfc_engine ''abcd'' = Err (TokenLength 3)"
    by (simp add: auth_token_from_str_def decode_def rfc_engine_def)
  moreover have "auth_token_from_str rfc_engine ''not-base64'' = Err (Base64 ())"
    by (simp add: auth_token_from_str_def decode_def rfc_engine_def not_base64)
  ultimately show ?thesis
    by (simp add: test_auth_token_base64_def rfc.auth_token_round_trip unwrapped_def assert_that_def err_unwrapped_def Let_def)
qed

section \<open>provider.rs\<close>

definition test_ticket_base64_roundtrip ::
    "'de base64_engine \<Rightarrow> format \<Rightarrow> 'pk ticket_codec \<Rightarrow> hash \<Rightarrow> ('pk, 'sk) keypair \<Rightarrow> auth_token \<Rightarrow> (unit, 'e) outcome" where
  "test_ticket_base64_roundtrip eng fmt tc h generated token =
     (let peer = PeerId (keypair_public generated);
          addr = SocketAddr (V4 0x7F000001) 1234;
          t = \<lparr>tk_hash = h, tk_peer = peer, tk_addr = addr, tk_token = token\<rparr>;
          text = ticket_display eng fmt tc t
      in and_then (unwrapped (ticket_from_str eng fmt tc text)) (\<lambda>t2. assert_that (t2 = t)))"

lemma test_ticket_base64_roundtrip_passes:
  "ticket_format eng fmt tc \<Longrightarrow> test_ticket_base64_roundtrip eng fmt tc h generated token = Ok ()"
  by (simp add: test_ticket_base64_roundtrip_def ticket_format.ticket_round_trip unwrapped_def assert_that_def Let_def)

definition test_create_collection ::
    "bool \<Rightarrow> format \<Rightarrow> bao_ops \<Rightarrow> (path \<Rightarrow> bytes \<Rightarrow> (fs_ops, unit, io_error) io) \<Rightarrow> path \<Rightarrow> fs_ops
       \<Rightarrow> (unit, 'ge test_error) outcome" where
  "test_create_collection checks fmt bao store dir fs0 =
     (let h = Hash (snd (bao_outboard bao [])) in
      case store (path_join dir ''foo'') [] fs0 of (r1, fs1) \<Rightarrow>
      and_then (map_err TestIo r1) (\<lambda>_.
      let foo = data_source_new (path_join dir ''foo'') in
      case store (path_join dir ''bar'') [] fs1 of (r2, fs2) \<Rightarrow>
      and_then (map_err TestIo r2) (\<lambda>_.
      let bar = data_source_with_name (path_join dir ''bar'') ''bat'' in
      case store (path_join dir ''baz'') [] fs2 of (r3, fs3) \<Rightarrow>
      and_then (map_err TestIo r3) (\<lambda>_.
      let baz = data_source_with_name (path_join dir ''baz'') [];
          expect_collection = \<lparr>coll_name = ''collection'',
            coll_blobs = map (\<lambda>n. \<lparr>blob_name = n, blob_hash = h\<rparr>) [''foo'', ''bat'', []],
            coll_total_blobs_size = 0\<rparr> in
      and_then (map_err TestCreate (create_collection checks fmt bao fs3 [foo, bar, baz])) (\<lambda>(db, h).
      case database_get db h of
        None \<Rightarrow> Panic UnwrapFailed
      | Some (Blob d) \<Rightarrow> Panic AssertionFailed
      | Some (Collection outboard data) \<Rightarrow>
          and_then (map_err (\<lambda>e. TestGet (PostcardError e)) (collection_from_bytes fmt data)) (\<lambda>collection.
          assert_that (expect_collection = collection)))))))"

context exchange
begin

lemma created_decodes:
  assumes "create_collection checks fmt bao fs sources = Ok (db, h)" and "deliverable bao fs sources h"
  shows "\<exists>ob data. database_get db h = Some (Collection ob data)
    \<and> collection_from_bytes fmt data = Ok (shared_collection bao fs sources)"
proof -
  from assms obtain outs ob where outs: "map (source_outboard bao fs) sources = map Ok outs"
    and db: "db = database_of fmt outs h ob"
    and dec: "collection_from_bytes fmt (put_collection fmt (collection_of outs)) = Ok (collection_of outs)"
    by (rule created_encoding)
  from dec show ?thesis by (auto simp: db database_of_get created_collection [OF outs])
qed

lemma test_create_collection_passes:
  assumes directory: "test_directory store dir"
    and stored: "store (path_join dir ''foo'') [] fs0 = (Ok (), fs1)" "store (path_join dir ''bar'') [] fs1 = (Ok (), fs2)"
      "store (path_join dir ''baz'') [] fs2 = (Ok (), fs)"
    and sources: "sources = [File (path_join dir ''foo''), NamedFile (path_join dir ''bar'') ''bat'', NamedFile (path_join dir ''baz'') []]"
    and created: "create_collection checks fmt bao fs sources = Ok (db, h)" and "deliverable bao fs sources h"
  shows "test_create_collection checks fmt bao store dir fs0 = Ok ()"
proof -
  have plain: "plain_name ''foo''" "plain_name ''bar''" "plain_name ''baz''" by code_simp+
  note written = test_directory.written [OF directory] and unchanged = test_directory.unchanged [OF directory]
  have "holds fs2 (path_join dir ''foo'') []" using unchanged [OF stored(2) plain(2,1) _ written [OF stored(1)]] by simp
  then have "holds fs (path_join dir ''foo'') []" using unchanged [OF stored(3) plain(3,1)] by simp
  moreover have "holds fs (path_join dir ''bar'') []" using unchanged [OF stored(3) plain(3,2) _ written [OF stored(2)]] by simp
  moreover have "holds fs (path_join dir ''baz'') []" by (rule written [OF stored(3)])
  ultimately have content: "content_of fs (path_join dir n) = []" if "n \<in> {''foo'', ''bar'', ''baz''}" for n
    using that holds_content by auto
  have "shared_collection bao fs sources = \<lparr>coll_name = ''collection'',
      coll_blobs = map (\<lambda>n. \<lparr>blob_name = n, blob_hash = Hash (snd (bao_outboard bao []))\<rparr>) [''foo'', ''bat'', []],
      coll_total_blobs_size = 0\<rparr>"
    using joined_name [OF plain(1), of dir]
    by (simp add: shared_collection_def sources source_content_def content root_hash_def)
  with created_decodes [OF created assms(7)] stored created show ?thesis
    by (auto simp: test_create_collection_def sources data_source_new_def data_source_with_name_def assert_that_def Let_def)
qed

end

section \<open>certificate.rs\<close>

definition sanity_check ::
    "x509_ops \<Rightarrow> ('pk, 'sk, 'sg, 'ke) ed25519_ops \<Rightarrow> ('ck, 'ge) rcgen_ops \<Rightarrow> ('pk, 'sk) keypair \<Rightarrow> (unit, 'e) outcome" where
  "sanity_check xo ed rc generated =
     and_then (unwrapped (generate xo ed rc generated)) (\<lambda>(cert, key).
     and_then (unwrapped (parse xo ed cert)) (\<lambda>parsed_cert.
     and_then (assert_that (cert_verify xo ed parsed_cert = Ok ())) (\<lambda>_.
     assert_that (keypair_public generated = px_public_key (pc_extension parsed_cert)))))"

lemma sanity_check_passes:
  assumes "certificates ed genuine xo rc" and "genuine kp" and "generate xo ed rc kp = Ok (cert, key)"
  shows "sanity_check xo ed rc kp = Ok ()"
proof -
  obtain c where c: "parse xo ed cert = Ok c" "cert_peer_id c = PeerId (keypair_public kp)"
    using certificates.generated_certificate [OF assms(1,3,2)] by blast
  then have "cert_verify xo ed c = Ok ()" by (auto simp: parse_def and_then_eq_Ok)
  with c show ?thesis by (simp add: sanity_check_def assms(3) unwrapped_def assert_that_def cert_peer_id_def)
qed

end
