(* ===== verification/Spec2Isabelle.thy ===== *)
theory Spec2Isabelle
  imports Guarantees Splitting Refusals Content Subscribing Lifecycle Unit_Tests
begin

text \<open>
  sendme shares files over QUIC: a \<^emph>\<open>provider\<close> hashes files into a collection and serves it to
  whoever has the authentication token; a \<^emph>\<open>getter\<close> connects to the provider it expects,
  asks for the hash of a collection and verifies what it receives. This library models the
  Rust sources under \<^verbatim>\<open>src/\<close> and proves what makes them correct.

  \<^bold>\<open>Theories, in the order they build on each other.\<close>

  \<^item> \<^verbatim>\<open>Prelude\<close>: results with panics (\<open>outcome\<close>), state passing (\<open>io\<close>), words and bytes, checked
    arithmetic. Where the compiled program differs between debug and release builds, a
    parameter \<open>checks\<close> says whether overflow panics or wraps; the properties hold for both.
    \<^verbatim>\<open>Text_Encoding\<close> (base64, base32), \<^verbatim>\<open>Std_Text\<close> (UTF-8, paths), \<^verbatim>\<open>Transport\<close> (byte streams
    and sinks), \<^verbatim>\<open>Postcard\<close> (the serialisation format) and \<^verbatim>\<open>Bao\<close> (tree hashing) hold what the
    program uses of the standard library and of other crates: the crates are records of
    operations, their documented behaviour is a locale, and every locale has an interpretation
    that shows the assumptions can hold.
  \<^item> \<^verbatim>\<open>Util\<close> is \<^verbatim>\<open>src/src/util.rs\<close> (\<open>hash\<close> and its conversions), \<^verbatim>\<open>Blobs\<close> is \<^verbatim>\<open>blobs.rs\<close>
    (\<open>blob\<close>, \<open>collection\<close>), \<^verbatim>\<open>Protocol\<close> is \<^verbatim>\<open>protocol.rs\<close> (messages, \<open>write_lp\<close>, \<open>read_lp\<close>,
    \<open>read_lp_data\<close>, tokens, close codes).
  \<^item> \<^verbatim>\<open>Identity\<close> (key pairs, peer ids), \<^verbatim>\<open>Certificate\<close> (\<^verbatim>\<open>tls/certificate.rs\<close>) and \<^verbatim>\<open>Verifier\<close>
    (\<^verbatim>\<open>tls/verifier.rs\<close> and the configurations of \<^verbatim>\<open>tls.rs\<close>) model who is accepted.
  \<^item> \<^verbatim>\<open>provider.rs\<close> is four theories: \<^verbatim>\<open>Provider\<close> (the database and \<open>create_collection\<close>), \<^verbatim>\<open>Serve\<close>
    (one stream: \<open>handle_stream\<close> and what it calls), \<^verbatim>\<open>Server\<close> (builder, \<open>spawn\<close>, accept loop,
    connections with concurrent streams as the step relation \<open>connection_step\<close>, the handle)
    and \<^verbatim>\<open>Ticket\<close>. \<^verbatim>\<open>Running\<close> puts the accept loop, all connections and their streams together as
    the step relation \<open>server_step\<close> over a \<open>server_state\<close>.
  \<^item> \<^verbatim>\<open>Get\<close> is \<^verbatim>\<open>get.rs\<close>, with \<open>run\<close> split at its comments (\<open>send_request\<close>, \<open>read_response\<close>,
    \<open>receive_collection\<close>, the loop \<open>receive_blobs\<close>, \<open>shut_down_stream\<close>). \<^verbatim>\<open>Connect\<close> is its \<^verbatim>\<open>setup\<close>
    (\<open>setup_connection\<close>, since \<^verbatim>\<open>setup\<close> is a keyword) and the opening of the stream, over quinn's
    operations; the locales \<open>quic_client\<close> and \<open>quic_network\<close> say what a handshake promises in
    terms of the verifier's functions.
  \<^item> \<^verbatim>\<open>Progress\<close> is \<^verbatim>\<open>progress.rs\<close>: the emitter, the wrapped reader, and \<open>inc_step\<close>, the increments
    of several threads interleaved at the atomic operations.
  \<^item> \<^verbatim>\<open>main.rs\<close> is two theories: \<^verbatim>\<open>Cli\<close> (content identifiers, key file, sources, the files that a
    download writes) and \<^verbatim>\<open>Program\<close> (the terminal as a \<open>screen\<close>, \<open>provide_start\<close> and
    \<open>provide_interactive\<close>, \<open>get_interactive\<close>, \<open>program_main\<close>).
  \<^item> \<^verbatim>\<open>Sessions\<close> adds the history of arrivals to \<^verbatim>\<open>Running\<close> (\<open>server_run\<close>) and looks at each getter of
    a running provider; \<^verbatim>\<open>Lifecycle\<close> follows the program from \<^verbatim>\<open>provide\<close> to \<^verbatim>\<open>get-ticket\<close> over a network
    and through two starts; \<^verbatim>\<open>Watching\<close> is what a subscriber of the progress sees, with the tests of
    \<^verbatim>\<open>progress.rs\<close>; \<^verbatim>\<open>Subscribing\<close> a \<open>subscriber\<close> of the provider's events, on the channel of eight that
    \<^verbatim>\<open>spawn\<close> makes, while the provider runs (\<open>watched\<close>); \<^verbatim>\<open>Capacity\<close> says which sources always make a collection.
  \<^item> \<^verbatim>\<open>Scenarios\<close> and \<^verbatim>\<open>Stopping\<close> are the tests of \<^verbatim>\<open>lib.rs\<close>, \<^verbatim>\<open>Unit_Tests\<close> those of the other files: a
    test is a function to \<open>outcome\<close>, \<open>Ok ()\<close> when it passes. The network a test meets is a \<open>serving\<close>;
    \<open>supervised\<close> is the supervisor of \<^verbatim>\<open>test_server_close\<close> together with the provider it shuts down.
  \<^item> \<^verbatim>\<open>Exchange\<close> proves that what a provider writes is what a getter reads; \<^verbatim>\<open>Samples\<close> is a concrete
    provider; \<^verbatim>\<open>Service\<close>, \<^verbatim>\<open>Guarantees\<close>, \<^verbatim>\<open>Splitting\<close>, \<^verbatim>\<open>Refusals\<close> and \<^verbatim>\<open>Content\<close> hold properties
    across components; this theory has the ones that span the whole program.

  \<^bold>\<open>How state and effects are represented.\<close> A Rust function that fails returns an \<open>outcome\<close>; \<^verbatim>\<open>?\<close>
  is \<open>io_bind\<close> or \<open>and_then\<close>; \<^verbatim>\<open>unwrap\<close>, \<^verbatim>\<open>expect\<close>, \<^verbatim>\<open>assert!\<close>, slices out of range, arithmetic
  overflow and \<^verbatim>\<open>unreachable!\<close> are \<open>Panic\<close>. A \<^verbatim>\<open>&mut\<close> argument is state that is passed and returned
  (\<open>rx\<close>: a reader with its buffer, \<open>tx\<close>: a writer with its buffer, \<open>gx\<close>: the getter's reader,
  buffer and the state of the caller's callbacks). \<^verbatim>\<open>HashMap\<close> is an association list that is
  updated in place, since the order of \<^verbatim>\<open>Database::blobs\<close> is left open by Rust. Events are the list
  of values sent to the broadcast channel; what a lagging receiver misses is up to tokio, within
  the laws of the locale \<open>broadcast\<close>. A
  \<^verbatim>\<open>usize\<close> is a \<open>nat\<close>, on a target with 64 bits.

  \<^bold>\<open>What the lemmas show.\<close> \<^verbatim>\<open>Provider\<close>: what a created database holds, how large it is, when creation
  fails. \<^verbatim>\<open>Service\<close> and \<^verbatim>\<open>Server\<close>: authentication comes before anything is written; each kind of
  request has exactly one response and one outcome in the events, in every interleaving.
  \<^verbatim>\<open>Get\<close> and \<^verbatim>\<open>Guarantees\<close>: the getter's accounting, the order of its callbacks, the integrity of
  what it accepts from any provider; round trips of all messages. \<^verbatim>\<open>Certificate\<close> and \<^verbatim>\<open>Verifier\<close>:
  characterisations of what is accepted, and that the configurations of both sides authenticate
  the provider. \<^verbatim>\<open>Connect\<close>: a connection is to the peer that was expected, or nothing is sent.
  \<^verbatim>\<open>Running\<close>: the order of the events of all connections, shutting down, termination. \<^verbatim>\<open>Splitting\<close>:
  how the transport cuts a stream makes no difference to either side (a relation between
  computations, lifted through composition). \<^verbatim>\<open>Refusals\<close>: exchanges that end in an error, seen from
  both ends. \<^verbatim>\<open>Content\<close>: databases are content-addressed. \<^verbatim>\<open>Progress\<close>: the values sent,
  sequentially and concurrently. \<^verbatim>\<open>Cli\<close> and \<^verbatim>\<open>Program\<close>: the text forms that are printed can be given
  back, the key file persists, and \<^verbatim>\<open>get-ticket\<close> with what \<^verbatim>\<open>provide\<close> printed writes the files that
  were provided. This theory: a shared collection arrives, and a printed ticket leads to its
  provider and to no other. \<^verbatim>\<open>Exchange\<close>: the two ends of one stream (\<open>stream_pair\<close>), for any callbacks
  that read their blobs (\<open>taken\<close>) and for one that does not. \<^verbatim>\<open>Sessions\<close>: the channel of events splits
  into the connections again, and every getter is served. \<^verbatim>\<open>Lifecycle\<close>: a printed ticket fetches the
  files, a restart keeps it, and where \<^verbatim>\<open>provide\<close> fails. \<^verbatim>\<open>Watching\<close>: a total that changes, and copying
  through a wrapped reader. \<^verbatim>\<open>Subscribing\<close>: a subscriber gets the events in order and knows how many it
  missed. \<^verbatim>\<open>Scenarios\<close>, \<^verbatim>\<open>Stopping\<close>, \<^verbatim>\<open>Unit_Tests\<close>: the tests pass under the contracts
  of the crates and of the network, and one of them passes in any case.
  Several theorems state behaviour that the sources do not intend: a message cut short panics,
  the size limit is for writing only, collections of hundreds of files cannot be created, a
  missing blob is reported twice, a blob name can leave the output directory, an empty
  transfer's progress divides by zero, a test ignores what its clients got.

  \<^bold>\<open>Bounds.\<close> No definition takes fuel. \<open>read_loop\<close> ends because each turn takes at least one of the
  bytes still wanted; the loops over blobs, sources, extensions and polls are structural.
  \<open>provider_run\<close> and \<open>connection_step\<close> run for as many polls or steps as the environment gives;
  \<open>conn_work\<close> and \<open>server_work\<close> count the steps left, so a connection whose streams are given and
  a provider that is cancelled end (\<open>connection_terminates\<close>, \<open>shutdown_terminates\<close>).

  \<^bold>\<open>Not modelled.\<close> The inside of quinn, rustls, tokio, abao, blake3, ring, rcgen, x509_parser,
  ssh_key, postcard, console, indicatif and the base64 and base32 engines (parameters); random
  generation (arguments); the floating point part of \<^verbatim>\<open>Stats::mbits\<close>; the parsing of arguments,
  which clap derives from the type \<open>commands\<close>; logging; failing writes to the terminal, on which
  the program panics; the removal of the temporary file that holds the standard input.

  \<^bold>\<open>Plan.\<close> Next: a transport
  that loses the connection in the middle of a transfer, seen from both ends; writes that fail.
\<close>

section \<open>From one end to the other\<close>

text \<open>
  C1: sharing works. For a collection that was created from deliverable sources,
  the getter's request makes the provider that has its token report the request and then
  its completion; reading what the provider wrote, however the stream cuts it up, the
  getter succeeds, reports the exact number of bytes, and has handed its caller the hash,
  contents and name of every source, in order.
\<close>

theorem end_to_end:
  assumes "exchange fmt bao ro rest dops pos wo sent fin"
    and "create_collection checks fmt bao fs sources = Ok (db, h)"
    and "deliverable bao fs sources h"
    and "sent wc = []" and "sent wp = []"
  shows "\<exists>wc'. send_request wo fmt token h wc = (Ok (), wc') \<and> fin wc'
    \<and> (\<forall>s. rest s = sent wc' \<longrightarrow>
        (\<exists>wp' buf. handle_stream ro wo fmt bao fs db token cid s wp =
            (Ok (), \<lparr>tx_writer = wp', tx_buffer = buf\<rparr>, [EvRequestReceived cid 1 h, EvTransferCompleted cid 1])
          \<and> fin wp'
          \<and> (\<forall>s'. rest s' = sent wp' \<longrightarrow>
              run checks' (\<lambda>opts. Ok (wc, s')) ro wo dops fmt (saving dops) h token opts elapsed u =
                (Ok \<lparr>st_data_len = of_nat (sum_list (map (length \<circ> source_content fs) sources)),
                     st_elapsed = elapsed\<rparr>, Some wc', u @ map (delivered bao fs) sources))))"
proof -
  have keep: "consumes pos (saving dops) (\<lambda>u x. u @ [x])"
    by (rule exchange.saving_consumes [OF assms(1)])
  have cbs: "cb_collection (saving dops) c u = (Inr (), u)" "cb_connected (saving dops) u = (Inr (), u)" for c
    by (simp_all add: saving_def)
  have all: "foldl (\<lambda>u x. u @ [x]) u xs = u @ xs" for u xs :: "(hash \<times> bytes \<times> string) list"
    by (induction xs arbitrary: u) simp_all
  from exchange_delivers [OF assms keep cbs] show ?thesis unfolding all .
qed

theorem end_to_end_witness:
  "\<exists>db wc'. create_collection True wire_format plain_bao two_files two_sources =
      Ok (db, Hash (digest (put_collection wire_format two_collection)))
    \<and> send_request mem_eager_ops wire_format (AuthToken (fill32 7))
        (Hash (digest (put_collection wire_format two_collection))) \<lparr>mem_sent = [], mem_finished = False\<rparr> = (Ok (), wc')
    \<and> (\<exists>wp' buf. handle_stream chunk_ops mem_eager_ops wire_format plain_bao two_files db (AuthToken (fill32 7)) 9
          [mem_sent wc'] \<lparr>mem_sent = [], mem_finished = False\<rparr> =
        (Ok (), \<lparr>tx_writer = wp', tx_buffer = buf\<rparr>,
         [EvRequestReceived 9 1 (Hash (digest (put_collection wire_format two_collection))), EvTransferCompleted 9 1])
      \<and> fst (run True (\<lambda>opts. Ok (\<lparr>mem_sent = [], mem_finished = False\<rparr>, [mem_sent wp'])) chunk_ops mem_eager_ops
          plain_dec_ops wire_format (saving plain_dec_ops) (Hash (digest (put_collection wire_format two_collection)))
          (AuthToken (fill32 7)) (default_options :: nat options) 0 []) = Ok \<lparr>st_data_len = 5, st_elapsed = 0\<rparr>)"
proof -
  obtain db where db: "create_collection True wire_format plain_bao two_files two_sources =
      Ok (db, Hash (digest (put_collection wire_format two_collection)))" (is "_ = Ok (db, ?h)")
    using two_created by blast
  let ?w = "\<lparr>mem_sent = [], mem_finished = False\<rparr>"
  have five: "sum_list (map (length \<circ> source_content two_files) two_sources) = 5"
    by (simp add: two_sources_def source_content_def content_of_def two_files_def Let_def)
  from end_to_end [OF plain_exchange.exchange_axioms db two_deliverable, of ?w ?w "AuthToken (fill32 7)" 9 True
      default_options 0 "[]"]
  obtain wc' where 1: "send_request mem_eager_ops wire_format (AuthToken (fill32 7)) ?h ?w = (Ok (), wc')"
    and 2: "\<forall>s. concat s = mem_sent wc' \<longrightarrow>
        (\<exists>wp' buf. handle_stream chunk_ops mem_eager_ops wire_format plain_bao two_files db (AuthToken (fill32 7)) 9 s ?w =
            (Ok (), \<lparr>tx_writer = wp', tx_buffer = buf\<rparr>, [EvRequestReceived 9 1 ?h, EvTransferCompleted 9 1])
          \<and> mem_finished wp'
          \<and> (\<forall>s'. concat s' = mem_sent wp' \<longrightarrow>
              run True (\<lambda>opts. Ok (?w, s')) chunk_ops mem_eager_ops plain_dec_ops wire_format (saving plain_dec_ops) ?h
                (AuthToken (fill32 7)) (default_options :: nat options) 0 [] =
                (Ok \<lparr>st_data_len = of_nat (sum_list (map (length \<circ> source_content two_files) two_sources)),
                     st_elapsed = 0\<rparr>, Some wc', [] @ map (delivered plain_bao two_files) two_sources)))"
    by auto
  from 2 [rule_format, of "[mem_sent wc']"] obtain wp' buf where
    3: "handle_stream chunk_ops mem_eager_ops wire_format plain_bao two_files db (AuthToken (fill32 7)) 9 [mem_sent wc'] ?w =
            (Ok (), \<lparr>tx_writer = wp', tx_buffer = buf\<rparr>, [EvRequestReceived 9 1 ?h, EvTransferCompleted 9 1])"
    and 4: "\<forall>s'. concat s' = mem_sent wp' \<longrightarrow>
              run True (\<lambda>opts. Ok (?w, s')) chunk_ops mem_eager_ops plain_dec_ops wire_format (saving plain_dec_ops) ?h
                (AuthToken (fill32 7)) (default_options :: nat options) 0 [] =
                (Ok \<lparr>st_data_len = of_nat (sum_list (map (length \<circ> source_content two_files) two_sources)),
                     st_elapsed = 0\<rparr>, Some wc', [] @ map (delivered plain_bao two_files) two_sources)"
    by auto
  from db 1 3 4 [rule_format, of "[mem_sent wp']"] five show ?thesis by auto
qed

text \<open>
  The same exchange run by the command line program: every source ends up
  as a file of its contents under the output path, by its name (or its hash, when the name
  is empty); without an output path the contents follow one another on the standard output.
\<close>

theorem get_writes_files:
  assumes "exchange fmt bao ro rest dops pos wo sent fin"
    and "copying oo pos" and "no_out_errors oo"
    and "create_collection checks fmt bao fs sources = Ok (db, h)"
    and "deliverable bao fs sources h"
    and "sent wc = []" and "sent wp = []"
  shows "\<exists>wc'. send_request wo fmt token h wc = (Ok (), wc')
    \<and> (\<forall>s. rest s = sent wc' \<longrightarrow>
        (\<exists>wp' buf. handle_stream ro wo fmt bao fs db token cid s wp =
            (Ok (), \<lparr>tx_writer = wp', tx_buffer = buf\<rparr>, [EvRequestReceived cid 1 h, EvTransferCompleted cid 1])
          \<and> (\<forall>s'. rest s' = sent wp' \<longrightarrow>
              run checks' (\<lambda>opts. Ok (wc, s')) ro wo dops fmt (interactive_callbacks eng oo out) h token opts elapsed st =
                (Ok \<lparr>st_data_len = of_nat (sum_list (map (length \<circ> source_content fs) sources)),
                     st_elapsed = elapsed\<rparr>, Some wc',
                 foldl (put_out eng out) st (map (delivered bao fs) sources)))))"
proof -
  have keep: "consumes pos (interactive_callbacks eng oo out) (put_out eng out)"
    by (rule copying.interactive_consumes [OF assms(2,3)])
  have cbs: "cb_collection (interactive_callbacks eng oo out) c st = (Inr (), st)"
      "cb_connected (interactive_callbacks eng oo out) st = (Inr (), st)" for c
    by (simp_all add: interactive_callbacks_def)
  from exchange_delivers [OF assms(1,4-7) keep cbs, of token cid checks' opts elapsed] show ?thesis by blast
qed

theorem get_writes_files_witness:
  "\<exists>db (wc' :: mem_sink) wp' buf.
     create_collection True wire_format plain_bao two_files two_sources =
       Ok (db, Hash (digest (put_collection wire_format two_collection)))
   \<and> handle_stream chunk_ops mem_eager_ops wire_format plain_bao two_files db (AuthToken (fill32 7)) 9
        [mem_sent wc'] \<lparr>mem_sent = [], mem_finished = False\<rparr> =
      (Ok (), \<lparr>tx_writer = wp', tx_buffer = buf\<rparr>,
       [EvRequestReceived 9 1 (Hash (digest (put_collection wire_format two_collection))), EvTransferCompleted 9 1])
   \<and> (case run True (\<lambda>opts. Ok (\<lparr>mem_sent = [], mem_finished = False\<rparr>, [mem_sent wp'])) chunk_ops mem_eager_ops
          plain_dec_ops wire_format (interactive_callbacks rfc_engine plain_out_ops (Some ''out''))
          (Hash (digest (put_collection wire_format two_collection)))
          (AuthToken (fill32 7)) (default_options :: nat options) 0 \<lparr>os_files = Map.empty, os_stdout = []\<rparr> of
        (r, w, st) \<Rightarrow> r = Ok \<lparr>st_data_len = 5, st_elapsed = 0\<rparr>
          \<and> os_files st ''out/a.txt'' = Some [1, 2, 3] \<and> os_files st ''out/b'' = Some [4, 5])"
proof -
  obtain db where db: "create_collection True wire_format plain_bao two_files two_sources =
      Ok (db, Hash (digest (put_collection wire_format two_collection)))" (is "_ = Ok (db, ?h)")
    using two_created by blast
  let ?w = "\<lparr>mem_sent = [], mem_finished = False\<rparr>"
  let ?st = "\<lparr>os_files = Map.empty, os_stdout = []\<rparr>"
  let ?run = "\<lambda>s'. run True (\<lambda>opts. Ok (?w, s')) chunk_ops mem_eager_ops plain_dec_ops wire_format
    (interactive_callbacks rfc_engine plain_out_ops (Some ''out'')) ?h (AuthToken (fill32 7)) (default_options :: nat options) 0 ?st"
  have five: "sum_list (map (length \<circ> source_content two_files) two_sources) = 5"
    by (simp add: two_sources_def source_content_def content_of_def two_files_def Let_def)
  have files: "os_files (foldl (put_out rfc_engine (Some ''out'')) ?st (map (delivered plain_bao two_files) two_sources)) =
      [''out/a.txt'' \<mapsto> [1, 2, 3], ''out/b'' \<mapsto> [4, 5]]"
    by (simp add: two_sources_def delivered_def put_out_def two_names source_content_def content_of_def two_files_def
        path_join_def path_is_absolute_def Let_def)
  have ok: "no_out_errors plain_out_ops" by (simp add: no_out_errors_def plain_out_ops_def)
  from get_writes_files [OF plain_exchange.exchange_axioms plain_copying.copying_axioms ok db two_deliverable,
      of ?w ?w "AuthToken (fill32 7)" 9 True rfc_engine "Some ''out''" default_options 0 ?st]
  obtain wc' where 2: "\<forall>s. concat s = mem_sent wc' \<longrightarrow>
      (\<exists>wp' buf. handle_stream chunk_ops mem_eager_ops wire_format plain_bao two_files db (AuthToken (fill32 7)) 9 s ?w =
            (Ok (), \<lparr>tx_writer = wp', tx_buffer = buf\<rparr>, [EvRequestReceived 9 1 ?h, EvTransferCompleted 9 1])
        \<and> (\<forall>s'. concat s' = mem_sent wp' \<longrightarrow>
            ?run s' = (Ok \<lparr>st_data_len = of_nat (sum_list (map (length \<circ> source_content two_files) two_sources)),
                st_elapsed = 0\<rparr>, Some wc', foldl (put_out rfc_engine (Some ''out'')) ?st (map (delivered plain_bao two_files) two_sources))))"
    by auto
  from 2 [rule_format, of "[mem_sent wc']"] obtain wp' buf where
    3: "handle_stream chunk_ops mem_eager_ops wire_format plain_bao two_files db (AuthToken (fill32 7)) 9 [mem_sent wc'] ?w =
          (Ok (), \<lparr>tx_writer = wp', tx_buffer = buf\<rparr>, [EvRequestReceived 9 1 ?h, EvTransferCompleted 9 1])"
    and 4: "\<forall>s'. concat s' = mem_sent wp' \<longrightarrow>
            ?run s' = (Ok \<lparr>st_data_len = of_nat (sum_list (map (length \<circ> source_content two_files) two_sources)),
                st_elapsed = 0\<rparr>, Some wc', foldl (put_out rfc_engine (Some ''out'')) ?st (map (delivered plain_bao two_files) two_sources))"
    by auto
  from 4 [rule_format, of "[mem_sent wp']"] have "?run [mem_sent wp'] =
      (Ok \<lparr>st_data_len = 5, st_elapsed = 0\<rparr>, Some wc',
        foldl (put_out rfc_engine (Some ''out'')) ?st (map (delivered plain_bao two_files) two_sources))"
    by (simp add: five)
  then have 5: "case ?run [mem_sent wp'] of (r, w, st) \<Rightarrow> r = Ok \<lparr>st_data_len = 5, st_elapsed = 0\<rparr>
      \<and> os_files st ''out/a.txt'' = Some [1, 2, 3] \<and> os_files st ''out/b'' = Some [4, 5]"
    by (simp add: files)
  show ?thesis
    by (rule exI [of _ db], rule exI [of _ wc'], rule exI [of _ wp'], rule exI [of _ buf])
      (rule conjI [OF db conjI [OF 3 5]])
qed

text \<open>
  The ticket that a spawned provider prints leads the getter back to
  that provider: its token is the one the provider checks, and with the options made of it
  the getter accepts the provider's certificate; with another peer id it does not.
\<close>

theorem ticket_authenticates:
  assumes "certificates ed genuine xo rc" and "ticket_format eng fmt tc"
    and "genuine (bd_keypair b)"
    and "spawn xo ed rc rl listen b = Ok (pv, server_config)"
    and "ticket_from_str eng fmt tc (ticket_display eng fmt tc (provider_ticket pv h)) = Ok t"
    and "make_client_config xo ed rc rl kp (opt_peer_id (get_ticket_options t keylog)) keylog = Ok client"
  shows "tk_hash t = h \<and> tk_token t = bd_auth_token b
    \<and> verify_server_cert xo ed (tls_verifier client) (hd (tls_certs (sc_tls server_config))) [] = Ok ()
    \<and> (\<forall>p. verify_server_cert xo ed (with_remote_peer_id (Some p)) (hd (tls_certs (sc_tls server_config))) [] = Ok ()
        \<longleftrightarrow> p = tk_peer t)"
proof -
  have t: "t = provider_ticket pv h"
    using ticket_format.ticket_round_trip [OF assms(2), of "provider_ticket pv h"] assms(5) by simp
  have sum: "of_sum SpawnBind r = Ok y \<longleftrightarrow> r = Inr y" for r y by (cases r) auto
  from assms(4) have server: "make_server_config xo ed rc rl (bd_keypair b) (bd_keylog b) = Ok (sc_tls server_config)"
    and pv: "pv_keypair pv = bd_keypair b" "pv_auth_token pv = bd_auth_token b"
    by (auto simp: spawn_def and_then_eq_Ok sum Let_def)
  obtain cert key where g: "generate xo ed rc (bd_keypair b) = Ok (cert, key)" "tls_certs (sc_tls server_config) = [cert]"
    using server by (auto simp: make_server_config_def and_then_eq_Ok dest: build_config_Ok)
  obtain c where c: "parse xo ed cert = Ok c" "cert_peer_id c = PeerId (keypair_public (bd_keypair b))"
    using certificates.generated_certificate [OF assms(1) g(1) assms(3)] by blast
  have v: "tls_verifier client = with_remote_peer_id (Some (tk_peer t))"
    using assms(6) by (auto simp: make_client_config_def and_then_eq_Ok get_ticket_options_def dest: build_config_Ok)
  have peer: "tk_peer t = cert_peer_id c" by (simp add: t c(2) provider_ticket_def provider_peer_id_def pv)
  have iff: "verify_server_cert xo ed (with_remote_peer_id (Some p)) cert [] = Ok () \<longleftrightarrow> p = cert_peer_id c" for p
    by (simp add: verify_server_cert_def verify_presented_certs_def with_remote_peer_id_def c(1))
  show ?thesis
    using iff by (simp add: v g(2) peer) (simp add: t provider_ticket_def pv)
qed

theorem ticket_authenticates_witness:
  "\<exists>pv sc client.
     spawn plain_x509 plain_ed (plain_rcgen (fill32 3)) plain_rustls (\<lambda>cfg a. Inr a)
       (with_db \<lparr>kp_public = fill32 5, kp_secret = fill32 5\<rparr> (AuthToken (fill32 7)) []) = Ok (pv, sc)
   \<and> make_client_config plain_x509 plain_ed (plain_rcgen (fill32 3)) plain_rustls
       \<lparr>kp_public = fill32 6, kp_secret = fill32 6\<rparr> (Some (tk_peer (provider_ticket pv (Hash (fill32 1))))) False = Ok client
   \<and> verify_server_cert plain_x509 plain_ed (tls_verifier client) (hd (tls_certs (sc_tls sc))) [] = Ok ()"
proof -
  let ?b = "with_db \<lparr>kp_public = fill32 5, kp_secret = fill32 5\<rparr> (AuthToken (fill32 7)) [] :: (bytes32, bytes32) builder"
  obtain pv sc where s: "spawn plain_x509 plain_ed (plain_rcgen (fill32 3)) plain_rustls (\<lambda>cfg a. Inr a) ?b = Ok (pv, sc)"
    by (simp add: spawn_def with_db_def make_server_config_def generate_def plain_rcgen_def make_libp2p_extension_def Let_def
        build_config_def plain_rustls_def CIPHERSUITES_def PROTOCOL_VERSIONS_def)
  let ?t = "provider_ticket pv (Hash (fill32 1))"
  obtain client where c: "make_client_config plain_x509 plain_ed (plain_rcgen (fill32 3)) plain_rustls
      \<lparr>kp_public = fill32 6, kp_secret = fill32 6\<rparr> (opt_peer_id (get_ticket_options ?t False)) False = Ok client"
    by (simp add: make_client_config_def generate_def plain_rcgen_def make_libp2p_extension_def Let_def
        build_config_def plain_rustls_def CIPHERSUITES_def PROTOCOL_VERSIONS_def)
  have "plain_genuine (bd_keypair ?b)" by (simp add: plain_genuine_def with_db_def)
  from ticket_authenticates [OF plain_certificates.certificates_axioms plain_ticket.ticket_format_axioms this s
      plain_ticket.ticket_round_trip c] s c show ?thesis
    by (intro exI [of _ pv] exI [of _ sc] exI [of _ client]) (simp add: get_ticket_options_def)
qed

text \<open>
  The ticket that a spawned provider makes, printed and parsed, names
  the hash, the token and the address of that provider. On a network that works, the getter
  connects with it to the provider that listens there; if another provider, with other keys,
  has taken over the address, the getter does not connect to it.
\<close>

theorem ticket_connects:
  assumes net: "quic_network qc xo ed ep_config presented transcript server_at"
    and certs: "certificates ed genuine xo rc" and "ticket_format eng fmt tc"
    and "genuine (bd_keypair b)" and "genuine kp"
    and spawned: "spawn xo ed rc rl listen b = Ok (pv, server_config)"
    and "ticket_from_str eng fmt tc (ticket_display eng fmt tc (provider_ticket pv h)) = Ok t"
    and client: "make_client_config xo ed rc rl kp (Some (tk_peer t)) keylog = Ok client"
  shows "tk_hash t = h \<and> tk_token t = provider_auth_token pv \<and> provider_auth_token pv = bd_auth_token b
    \<and> (server_at (provider_listen_addr pv) = Some (sc_tls server_config) \<longrightarrow>
        (\<exists>c. setup_connection qc xo ed rc rl kp (get_ticket_options t keylog) = Ok c
          \<and> presented c = tls_certs (sc_tls server_config)))
    \<and> (\<forall>other kp' keylog'. genuine kp' \<and> keypair_public kp' \<noteq> keypair_public (bd_keypair b)
          \<and> make_server_config xo ed rc rl kp' keylog' = Ok other
          \<and> server_at (provider_listen_addr pv) = Some other \<longrightarrow>
        (\<exists>e. setup_connection qc xo ed rc rl kp (get_ticket_options t keylog) = Err (ConnectError e)))"
proof -
  have t: "t = provider_ticket pv h"
    using ticket_format.ticket_round_trip [OF assms(3), of "provider_ticket pv h"] assms(7) by simp
  have sum: "of_sum SpawnBind r = Ok y \<longleftrightarrow> r = Inr y" for r y by (cases r) auto
  from spawned have server: "make_server_config xo ed rc rl (bd_keypair b) (bd_keylog b) = Ok (sc_tls server_config)"
    and pv: "pv_keypair pv = bd_keypair b" "pv_auth_token pv = bd_auth_token b"
    by (auto simp: spawn_def and_then_eq_Ok sum Let_def)
  let ?opts = "get_ticket_options t keylog"
  have opts: "opt_addr ?opts = provider_listen_addr pv" "opt_keylog ?opts = keylog"
      "opt_peer_id ?opts = Some (PeerId (keypair_public (bd_keypair b)))"
      "opt_peer_id ?opts = Some (tk_peer t)"
    by (simp_all add: t get_ticket_options_def provider_ticket_def provider_peer_id_def pv)
  have c: "make_client_config xo ed rc rl kp (opt_peer_id ?opts) (opt_keylog ?opts) = Ok client"
    using client by (simp add: opts(2,4))
  have reached: "if mutually_accepted xo ed client srv
      then \<exists>c. setup_connection qc xo ed rc rl kp ?opts = Ok c \<and> presented c = tls_certs srv
      else \<exists>e. setup_connection qc xo ed rc rl kp ?opts = Err (ConnectError e)"
    if at: "server_at (provider_listen_addr pv) = Some srv" for srv
    by (rule quic_network.setup_reached [OF net c]) (simp add: opts(1) at del: provider_listen_addr_def)
  have accepted: "mutually_accepted xo ed client srv \<longleftrightarrow>
      opt_peer_id ?opts \<in> {None, Some (PeerId (keypair_public kp'))}"
    if "genuine kp'" and "make_server_config xo ed rc rl kp' keylog' = Ok srv" for srv kp' keylog'
    by (rule made_configs_accepted [OF certs that(1) assms(5) that(2) c])
  have "\<exists>c. setup_connection qc xo ed rc rl kp ?opts = Ok c \<and> presented c = tls_certs (sc_tls server_config)"
    if "server_at (provider_listen_addr pv) = Some (sc_tls server_config)"
    using reached [OF that] accepted [OF assms(4) server] opts(3) by simp
  moreover have "\<exists>e. setup_connection qc xo ed rc rl kp ?opts = Err (ConnectError e)"
    if "genuine kp'" "keypair_public kp' \<noteq> keypair_public (bd_keypair b)"
      "make_server_config xo ed rc rl kp' keylog' = Ok other" "server_at (provider_listen_addr pv) = Some other" for other kp' keylog'
    using reached [OF that(4)] accepted [OF that(1,3)] opts(3) that(2) by simp
  ultimately show ?thesis by (auto simp: t provider_ticket_def pv)
qed

theorem ticket_connects_witness:
  "\<exists>pv sc c.
     spawn plain_x509 plain_ed (plain_rcgen (fill32 3)) plain_rustls (\<lambda>cfg a. Inr a)
       (with_db \<lparr>kp_public = fill32 5, kp_secret = fill32 5\<rparr> (AuthToken (fill32 7)) []) = Ok (pv, sc)
   \<and> setup_connection (plain_quic (\<lambda>a. if a = provider_listen_addr pv then Some (sc_tls sc) else None) () ())
       plain_x509 plain_ed (plain_rcgen (fill32 3)) plain_rustls \<lparr>kp_public = fill32 6, kp_secret = fill32 6\<rparr>
       (get_ticket_options (provider_ticket pv (Hash (fill32 1))) False) = Ok c"
proof -
  let ?b = "with_db \<lparr>kp_public = fill32 5, kp_secret = fill32 5\<rparr> (AuthToken (fill32 7)) [] :: (bytes32, bytes32) builder"
  let ?kp = "\<lparr>kp_public = fill32 6, kp_secret = fill32 6\<rparr> :: (bytes32, bytes32) keypair"
  obtain server where "make_server_config plain_x509 plain_ed (plain_rcgen (fill32 3)) plain_rustls (bd_keypair ?b) (bd_keylog ?b) = Ok server"
    using plain_configs(1) by blast
  then obtain pv sc where s: "spawn plain_x509 plain_ed (plain_rcgen (fill32 3)) plain_rustls (\<lambda>cfg a. Inr a) ?b = Ok (pv, sc)"
    by (simp add: spawn_def Let_def)
  let ?t = "provider_ticket pv (Hash (fill32 1))"
  let ?at = "\<lambda>a. if a = provider_listen_addr pv then Some (sc_tls sc) else None"
  obtain client where c: "make_client_config plain_x509 plain_ed (plain_rcgen (fill32 3)) plain_rustls ?kp
      (Some (tk_peer ?t)) False = Ok client"
    using plain_configs(2) by blast
  have g: "plain_genuine (bd_keypair ?b)" "plain_genuine ?kp" by (simp_all add: plain_genuine_def with_db_def)
  from ticket_connects [OF plain_net.quic_network_axioms [of ?at "()" "()"] plain_certificates.certificates_axioms
      plain_ticket.ticket_format_axioms g s plain_ticket.ticket_round_trip c] s
  show ?thesis by auto
qed

end
